(* ===== verification/Prelude.thy ===== *)
theory Prelude
  imports Main "HOL-Library.Word" "HOL-Library.List_Lexorder" "HOL-Library.Char_ord"
    "HOL-Library.Multiset"
begin

text \<open>
  Shared vocabulary of the development: the fixed-width integers of the sources and
  their saturating operations, Rust's \<^verbatim>\<open>Ordering\<close> with \<^verbatim>\<open>cmp\<close>, \<^verbatim>\<open>then_with\<close> and
  \<^verbatim>\<open>Iterator::max_by\<close>, and the ordered collections \<^verbatim>\<open>BTreeMap\<close> and \<^verbatim>\<open>BTreeSet\<close>, modelled
  by strictly sorted lists.  The two locales \<open>preorder_cmp\<close> and \<open>ordered_map\<close> are the
  interfaces through which the components use comparison functions and ordered maps.
\<close>

section \<open>Types of the sources\<close>

type_synonym u8 = "8 word"
type_synonym u16 = "16 word"
type_synonym u32 = "32 word"
type_synonym u64 = "64 word"
type_synonym bytes = "u8 list"

named_theorems bt_simps "rewriting rules for the ordered collections"
named_theorems sat_simps "the saturating operations read as natural numbers"

section \<open>Decimal printing\<close>

fun dec_string :: "nat \<Rightarrow> string" where
  "dec_string n =
     (if n < 10 then [char_of (48 + n)]
      else dec_string (n div 10) @ [char_of (48 + n mod 10)])"

declare dec_string.simps [simp del]

section \<open>Saturating arithmetic\<close>

definition sat_sub :: "'a::len word \<Rightarrow> 'a word \<Rightarrow> 'a word" where
  "sat_sub a b = (if b \<le> a then a - b else 0)"

definition sat_add :: "'a::len word \<Rightarrow> 'a word \<Rightarrow> 'a word" where
  "sat_add a b = (if a \<le> a + b then a + b else - 1)"

lemma unat_sat_sub [sat_simps]: "unat (sat_sub a b) = unat a - unat b"
  by (auto simp: sat_sub_def unat_sub word_le_nat_alt)

lemma unat_sat_add [sat_simps]:
  fixes a b :: "'a::len word"
  shows "unat (sat_add a b) = min (unat a + unat b) (2 ^ LENGTH('a) - 1)"
proof (cases "unat a + unat b < 2 ^ LENGTH('a)")
  case True
  then have "unat (a + b) = unat a + unat b" by (simp add: unat_word_ariths)
  then show ?thesis using True by (auto simp: sat_add_def word_le_nat_alt)
next
  case False
  have bnd: "unat a < 2 ^ LENGTH('a)" "unat b < 2 ^ LENGTH('a)"
    by (rule unsigned_less)+
  have "unat (a + b) = (unat a + unat b) mod 2 ^ LENGTH('a)"
    by (simp only: unat_word_ariths)
  also have "\<dots> = unat a + unat b - 2 ^ LENGTH('a)"
  proof -
    have "unat a + unat b - 2 ^ LENGTH('a) < 2 ^ LENGTH('a)" using bnd by linarith
    then show ?thesis using False by (simp add: mod_if [of "unat a + unat b"])
  qed
  finally have "unat (a + b) < unat a" using bnd False by linarith
  then have "\<not> a \<le> a + b" by (simp add: word_le_nat_alt)
  moreover have "unat (- 1 :: 'a word) = 2 ^ LENGTH('a) - 1"
    by (simp add: unsigned_minus_1_eq_mask mask_eq_exp_minus_1)
  ultimately show ?thesis using False by (auto simp: sat_add_def)
qed

lemma unat_minus_1: "unat (- 1 :: 'a::len word) = 2 ^ LENGTH('a) - 1"
  by (simp add: unsigned_minus_1_eq_mask mask_eq_exp_minus_1)

lemma word_less_succ:
  fixes c :: "'a::len word"
  assumes "c \<noteq> - 1" shows "c < c + 1" "unat (c + 1) = unat c + 1"
proof -
  have "unat c < 2 ^ LENGTH('a)" by (rule unsigned_less)
  moreover have "unat c \<noteq> 2 ^ LENGTH('a) - 1"
    using assms unat_minus_1 [where 'a = 'a] by (metis word_unat_eq_iff)
  ultimately have "unat c + 1 < 2 ^ LENGTH('a)" by linarith
  then show "unat (c + 1) = unat c + 1" by (simp add: unat_word_ariths)
  then show "c < c + 1" by (simp add: word_less_nat_alt)
qed

lemma sat_sub_le: "sat_sub a b \<le> a"
  by (simp add: word_le_nat_alt sat_simps)

lemma sat_sub_eq_0_iff: "sat_sub a b = 0 \<longleftrightarrow> a \<le> b"
  by (simp add: unat_eq_0 [symmetric] sat_simps word_le_nat_alt)

lemma le_sat_add:
  fixes a b :: "'a::len word"
  shows "a \<le> sat_add a b"
proof -
  have "unat a < 2 ^ LENGTH('a)" by (rule unsigned_less)
  then have "unat a \<le> 2 ^ LENGTH('a) - 1" by linarith
  then show ?thesis by (simp add: word_le_nat_alt sat_simps)
qed

section \<open>Orderings and the maximum of an iterator\<close>

datatype Ordering = OLess | OEqual | OGreater

definition cmp :: "'a::linorder \<Rightarrow> 'a \<Rightarrow> Ordering" where
  "cmp a b = (if a < b then OLess else if a = b then OEqual else OGreater)"

fun then_with :: "Ordering \<Rightarrow> Ordering \<Rightarrow> Ordering" where
  "then_with OEqual o2 = o2"
| "then_with o1 _ = o1"

fun ord_rev :: "Ordering \<Rightarrow> Ordering" where
  "ord_rev OLess = OGreater"
| "ord_rev OEqual = OEqual"
| "ord_rev OGreater = OLess"

text \<open>\<^verbatim>\<open>Iterator::max_by\<close> keeps the later element when two compare equal.\<close>

definition max_by_step :: "('a \<Rightarrow> 'a \<Rightarrow> Ordering) \<Rightarrow> 'a \<Rightarrow> 'a \<Rightarrow> 'a" where
  "max_by_step c y acc = (if c acc y = OGreater then acc else y)"

fun max_by :: "('a \<Rightarrow> 'a \<Rightarrow> Ordering) \<Rightarrow> 'a list \<Rightarrow> 'a option" where
  "max_by c [] = None"
| "max_by c (x # xs) = Some (fold (max_by_step c) xs x)"

lemma cmp_simps [simp]:
  "cmp a b = OEqual \<longleftrightarrow> a = b"
  "cmp a b = OLess \<longleftrightarrow> a < b"
  "cmp a b = OGreater \<longleftrightarrow> b < a"
  by (auto simp: cmp_def)

lemma cmp_self [simp]: "cmp a a = OEqual"
  by simp

lemma then_with_simps [simp]:
  "then_with o1 o2 = OEqual \<longleftrightarrow> o1 = OEqual \<and> o2 = OEqual"
  "then_with o1 o2 = OLess \<longleftrightarrow> o1 = OLess \<or> o1 = OEqual \<and> o2 = OLess"
  "then_with o1 o2 = OGreater \<longleftrightarrow> o1 = OGreater \<or> o1 = OEqual \<and> o2 = OGreater"
  by (cases o1; simp)+

lemma ord_rev_simps [simp]:
  "ord_rev x = OEqual \<longleftrightarrow> x = OEqual"
  "ord_rev x = OLess \<longleftrightarrow> x = OGreater"
  "ord_rev x = OGreater \<longleftrightarrow> x = OLess"
  by (cases x; simp)+

lemma max_by_eq_None_iff [simp]: "max_by c xs = None \<longleftrightarrow> xs = []"
  by (cases xs) auto

lemma fold_max_by_step_in: "fold (max_by_step c) xs x \<in> insert x (set xs)"
  by (induction xs arbitrary: x) (auto simp: max_by_step_def)

lemma max_by_in: "max_by c xs = Some m \<Longrightarrow> m \<in> set xs"
  using fold_max_by_step_in by (cases xs) fastforce+

text \<open>
  The interface of a comparison function: reversing the arguments reverses the answer
  and ``not greater'' is transitive.  Elements that compare equal may differ.
\<close>

locale preorder_cmp =
  fixes c :: "'a \<Rightarrow> 'a \<Rightarrow> Ordering"
  assumes flip: "c b a = ord_rev (c a b)"
    and trans: "c x y \<noteq> OGreater \<Longrightarrow> c y z \<noteq> OGreater \<Longrightarrow> c x z \<noteq> OGreater"
begin

lemma refl: "c a a = OEqual"
  using flip [of a a] by (cases "c a a") auto

lemma max_by_step_ge:
  "c y (max_by_step c y acc) \<noteq> OGreater" "c acc (max_by_step c y acc) \<noteq> OGreater"
  using flip [of y acc] by (auto simp: max_by_step_def refl)

lemma fold_max_by_step_ge:
  "y \<in> insert x (set xs) \<Longrightarrow> c y (fold (max_by_step c) xs x) \<noteq> OGreater"
proof (induction xs arbitrary: x y)
  case Nil
  then show ?case by (simp add: refl)
next
  case (Cons z zs)
  let ?m = "max_by_step c z x"
  have top: "c ?m (fold (max_by_step c) zs ?m) \<noteq> OGreater" by (rule Cons.IH) simp
  consider "y = x" | "y = z" | "y \<in> set zs" using Cons.prems by auto
  then show ?case
  proof cases
    case 1
    then show ?thesis using trans [OF max_by_step_ge(2) top] by simp
  next
    case 2
    then show ?thesis using trans [OF max_by_step_ge(1) top] by simp
  next
    case 3
    then show ?thesis using Cons.IH [of y ?m] by simp
  qed
qed

lemma max_by_ge: "max_by c xs = Some m \<Longrightarrow> y \<in> set xs \<Longrightarrow> c y m \<noteq> OGreater"
  using fold_max_by_step_ge by (cases xs) auto

lemma max_by_equiv:
  assumes "set xs = set ys" "max_by c xs = Some a" "max_by c ys = Some b"
  shows "c a b = OEqual"
proof -
  have "a \<in> set ys" "b \<in> set xs" using assms max_by_in by metis+
  then have "c a b \<noteq> OGreater" "c b a \<noteq> OGreater" using assms max_by_ge by metis+
  then show ?thesis using flip [of b a] by (cases "c a b") auto
qed

end

locale linear_cmp = preorder_cmp +
  assumes eq: "c a b = OEqual \<Longrightarrow> a = b"
begin

lemma max_by_cong_set: "set xs = set ys \<Longrightarrow> max_by c xs = max_by c ys"
proof (cases "max_by c xs"; cases "max_by c ys")
  fix a b
  assume "set xs = set ys" "max_by c xs = Some a" "max_by c ys = Some b"
  then show ?thesis using max_by_equiv eq by metis
qed auto

end

interpretation lin: linear_cmp "cmp :: 'a::linorder \<Rightarrow> 'a \<Rightarrow> Ordering"
  by unfold_locales (auto simp: cmp_def split: if_splits)

text \<open>Comparison functions are built from key comparisons by \<^verbatim>\<open>then_with\<close>.\<close>

lemma preorder_cmp_key: "preorder_cmp (\<lambda>a b. cmp (f a) (f b :: 'b::linorder))"
  by unfold_locales (auto simp: cmp_def split: if_splits)

lemma preorder_cmp_key_rev: "preorder_cmp (\<lambda>a b. cmp (f b) (f a :: 'b::linorder))"
  by unfold_locales (auto simp: cmp_def split: if_splits)

lemma preorder_cmp_pull:
  assumes "preorder_cmp c" shows "preorder_cmp (\<lambda>a b. c (f a) (f b))"
proof unfold_locales
  show "c (f b) (f a) = ord_rev (c (f a) (f b))" for a b
    using assms by (rule preorder_cmp.flip)
  show "c (f x) (f y) \<noteq> OGreater \<Longrightarrow> c (f y) (f z) \<noteq> OGreater \<Longrightarrow> c (f x) (f z) \<noteq> OGreater" for x y z
    using assms by (rule preorder_cmp.trans)
qed

lemma preorder_cmp_then:
  assumes c: "preorder_cmp c" and d: "preorder_cmp d"
  shows "preorder_cmp (\<lambda>a b. then_with (c a b) (d a b))"
proof unfold_locales
  show "then_with (c b a) (d b a) = ord_rev (then_with (c a b) (d a b))" for a b
    using preorder_cmp.flip [OF c, of b a] preorder_cmp.flip [OF d, of b a]
    by (cases "c a b") auto
next
  fix x y z
  assume xy: "then_with (c x y) (d x y) \<noteq> OGreater" and yz: "then_with (c y z) (d y z) \<noteq> OGreater"
  have cxy: "c x y \<noteq> OGreater" and cyz: "c y z \<noteq> OGreater" using xy yz by auto
  then have cxz: "c x z \<noteq> OGreater" by (rule preorder_cmp.trans [OF c])
  show "then_with (c x z) (d x z) \<noteq> OGreater"
  proof (cases "c x z")
    case OEqual
    then have zx: "c z x \<noteq> OGreater" using preorder_cmp.flip [OF c, of z x] by auto
    have "c y x \<noteq> OGreater" using preorder_cmp.trans [OF c cyz zx] .
    then have "c x y = OEqual" using cxy preorder_cmp.flip [OF c, of y x] by (cases "c x y") auto
    moreover have "c z y \<noteq> OGreater" using preorder_cmp.trans [OF c zx cxy] .
    then have "c y z = OEqual" using cyz preorder_cmp.flip [OF c, of z y] by (cases "c y z") auto
    ultimately have "d x z \<noteq> OGreater" using xy yz preorder_cmp.trans [OF d] by auto
    then show ?thesis using OEqual by simp
  qed (use cxz in auto)
qed

lemmas preorder_cmp_intros = preorder_cmp_then preorder_cmp_key preorder_cmp_key_rev

section \<open>Sorting\<close>

text \<open>\<^verbatim>\<open>slice::sort_by_key\<close> is \<^const>\<open>sort_key\<close>; on injective keys it is a function of the multiset.\<close>

lemma sort_key_mset_cong:
  assumes "mset xs = mset ys" "inj_on f (set xs)"
  shows "sort_key f xs = sort_key f ys"
proof (rule properties_for_sort_key)
  show "mset (sort_key f ys) = mset xs" using assms by simp
  have s: "set xs = set ys" using assms(1) by (metis set_mset_mset)
  have "filter (\<lambda>y. f x = f y) zs = replicate (count (mset zs) x) x"
    if "x \<in> set xs" "set zs \<subseteq> set xs" for x zs
    using that(2)
  proof (induction zs)
    case (Cons z zs)
    moreover have "f x = f z \<longleftrightarrow> x = z" using that(1) Cons.prems inj_onD [OF assms(2), of x z] by auto
    ultimately show ?case by auto
  qed simp
  note eq = this
  show "filter (\<lambda>x. f k = f x) (sort_key f ys) = filter (\<lambda>x. f k = f x) xs"
    if "k \<in> set (sort_key f ys)" for k
    using that eq [of k xs] eq [of k "sort_key f ys"] s assms(1) by simp
  show "sorted (map f (sort_key f ys))" by simp
qed

section \<open>Ordered sets\<close>

text \<open>
  A \<^verbatim>\<open>BTreeSet\<close> is the strictly increasing list of its elements; \<^const>\<open>insort_insert\<close> is its
  \<^verbatim>\<open>insert\<close> and iteration visits the list from left to right.
\<close>

definition bs_inv :: "'a::linorder list \<Rightarrow> bool" where
  "bs_inv xs \<longleftrightarrow> sorted_wrt (<) xs"

definition bs_of_list :: "'a::linorder list \<Rightarrow> 'a list" where
  "bs_of_list xs = fold insort_insert xs []"

lemma insort_insert_Nil [simp]: "insort_insert x [] = [x]"
  by (simp add: insort_insert_key_def)

lemma bs_inv_iff: "bs_inv xs \<longleftrightarrow> sorted xs \<and> distinct xs"
  by (simp add: bs_inv_def strict_sorted_iff)

lemma bs_inv_insort_insert [simp]: "bs_inv xs \<Longrightarrow> bs_inv (insort_insert x xs)"
  by (simp add: bs_inv_iff sorted_insort_insert distinct_insort_insert)

lemma bs_inv_fold_insort_insert: "bs_inv xs \<Longrightarrow> bs_inv (fold insort_insert ys xs)"
  by (induction ys arbitrary: xs) auto

lemma set_fold_insort_insert: "set (fold insort_insert ys xs) = set ys \<union> set xs"
  by (induction ys arbitrary: xs) (auto simp: set_insort_insert)

lemma bs_ext: "bs_inv xs \<Longrightarrow> bs_inv ys \<Longrightarrow> set xs = set ys \<Longrightarrow> xs = ys"
  by (simp add: bs_inv_iff sorted_distinct_set_unique)

lemma bs_inv_single [simp]: "bs_inv [x]"
  by (simp add: bs_inv_def)

lemma bs_inv_Nil [simp]: "bs_inv []"
  by (simp add: bs_inv_def)

lemma bs_inv_of_list [simp]: "bs_inv (bs_of_list xs)"
  by (simp add: bs_of_list_def bs_inv_fold_insort_insert)

lemma set_bs_of_list [simp]: "set (bs_of_list xs) = set xs"
  by (simp add: bs_of_list_def set_fold_insort_insert)

lemma bs_of_list_cong: "set xs = set ys \<Longrightarrow> bs_of_list xs = bs_of_list ys"
  by (rule bs_ext) auto

lemma length_bs: "bs_inv xs \<Longrightarrow> length xs = card (set xs)"
  by (simp add: bs_inv_iff distinct_card)

section \<open>Ordered maps\<close>

text \<open>
  A \<^verbatim>\<open>BTreeMap\<close> is the association list of its entries in strictly increasing key order.
  The locale \<open>ordered_map\<close> states what the components rely on: lookups after updates,
  extensionality, and iteration in key order.
\<close>

type_synonym ('k, 'v) btmap = "('k \<times> 'v) list"

fun bt_insert :: "'k::linorder \<Rightarrow> 'v \<Rightarrow> ('k, 'v) btmap \<Rightarrow> ('k, 'v) btmap" where
  "bt_insert k v [] = [(k, v)]"
| "bt_insert k v ((k', v') # m) =
     (if k < k' then (k, v) # (k', v') # m
      else if k = k' then (k, v) # m
      else (k', v') # bt_insert k v m)"

definition bt_get :: "('k, 'v) btmap \<Rightarrow> 'k \<Rightarrow> 'v option" where
  "bt_get m k = map_of m k"

definition bt_keys :: "('k, 'v) btmap \<Rightarrow> 'k list" where
  "bt_keys m = map fst m"

definition bt_values :: "('k, 'v) btmap \<Rightarrow> 'v list" where
  "bt_values m = map snd m"

definition bt_remove :: "'k \<Rightarrow> ('k, 'v) btmap \<Rightarrow> ('k, 'v) btmap" where
  "bt_remove k m = filter (\<lambda>e. fst e \<noteq> k) m"

definition bt_inv :: "('k::linorder, 'v) btmap \<Rightarrow> bool" where
  "bt_inv m \<longleftrightarrow> sorted_wrt (<) (map fst m)"

definition bt_extend :: "('k::linorder \<times> 'v) list \<Rightarrow> ('k, 'v) btmap \<Rightarrow> ('k, 'v) btmap" where
  "bt_extend es m = fold (\<lambda>(k, v). bt_insert k v) es m"

lemma bt_get_eq_map_of: "bt_get m = map_of m"
  by (simp add: bt_get_def fun_eq_iff)

lemma bt_inv_Nil [simp]: "bt_inv []"
  by (simp add: bt_inv_def)

lemma set_map_fst_bt_insert [simp]: "fst ` set (bt_insert k v m) = insert k (fst ` set m)"
  by (induction k v m rule: bt_insert.induct) auto

lemma bt_inv_insert [simp]: "bt_inv m \<Longrightarrow> bt_inv (bt_insert k v m)"
proof (induction k v m rule: bt_insert.induct)
  case (2 k v k' v' m)
  then show ?case by (auto simp: bt_inv_def)
qed (simp add: bt_inv_def)

lemma bt_get_insert:
  "bt_inv m \<Longrightarrow> bt_get (bt_insert k v m) = (bt_get m)(k \<mapsto> v)"
proof (induction k v m rule: bt_insert.induct)
  case (2 k v k' v' m)
  then show ?case by (auto simp: bt_inv_def bt_get_def fun_eq_iff)
qed (simp add: bt_get_def fun_eq_iff)

lemma bt_inv_remove [simp]: "bt_inv m \<Longrightarrow> bt_inv (bt_remove k m)"
  by (induction m) (auto simp: bt_inv_def bt_remove_def)

lemma bt_inv_filter [simp]: "bt_inv m \<Longrightarrow> bt_inv (filter P m)"
  by (induction m) (auto simp: bt_inv_def)

lemma bt_get_remove: "bt_get (bt_remove k m) = (bt_get m)(k := None)"
  by (induction m) (auto simp: bt_get_def bt_remove_def fun_eq_iff)

lemma set_bt_keys: "set (bt_keys m) = dom (bt_get m)"
  by (simp add: bt_keys_def bt_get_eq_map_of dom_map_of_conv_image_fst)

lemma bt_inv_distinct: "bt_inv m \<Longrightarrow> distinct (map fst m)"
  by (simp add: bt_inv_def strict_sorted_iff)

lemma bt_in_set_iff: "bt_inv m \<Longrightarrow> (k, v) \<in> set m \<longleftrightarrow> bt_get m k = Some v"
  by (simp add: bt_get_def bt_inv_distinct)

lemma bt_ext:
  assumes "bt_inv m" "bt_inv m'" "bt_get m = bt_get m'"
  shows "m = m'"
proof (rule map_sorted_distinct_set_unique [where f = fst])
  show "sorted (map fst m)" "sorted (map fst m')"
    using assms by (auto simp: bt_inv_def strict_sorted_iff)
  show "distinct (map fst m)" "distinct (map fst m')"
    using assms bt_inv_distinct by blast+
  show "set m = set m'"
    using assms by (auto simp: bt_in_set_iff)
  show "inj_on fst (set m \<union> set m')"
    using assms by (auto simp: inj_on_def bt_in_set_iff)
qed

locale ordered_map =
  fixes empty :: 'm and insert_entry :: "'k::linorder \<Rightarrow> 'v \<Rightarrow> 'm \<Rightarrow> 'm"
    and lookup :: "'m \<Rightarrow> 'k \<Rightarrow> 'v option" and keys_of :: "'m \<Rightarrow> 'k list" and inv :: "'m \<Rightarrow> bool"
  assumes inv_empty: "inv empty"
    and inv_insert: "inv m \<Longrightarrow> inv (insert_entry k v m)"
    and lookup_empty: "lookup empty = Map.empty"
    and lookup_insert: "inv m \<Longrightarrow> lookup (insert_entry k v m) = (lookup m)(k \<mapsto> v)"
    and keys_dom: "set (keys_of m) = dom (lookup m)"
    and keys_sorted: "inv m \<Longrightarrow> sorted_wrt (<) (keys_of m)"
    and ext: "inv m \<Longrightarrow> inv m' \<Longrightarrow> lookup m = lookup m' \<Longrightarrow> m = m'"
begin

definition insert_all :: "('k \<times> 'v) list \<Rightarrow> 'm \<Rightarrow> 'm" where
  "insert_all es m = fold (\<lambda>(k, v). insert_entry k v) es m"

lemma inv_insert_all: "inv m \<Longrightarrow> inv (insert_all es m)"
  unfolding insert_all_def by (induction es arbitrary: m) (auto simp: inv_insert)

lemma lookup_insert_all:
  "inv m \<Longrightarrow> distinct (map fst es) \<Longrightarrow> lookup (insert_all es m) = lookup m ++ map_of es"
proof (induction es arbitrary: m)
  case (Cons e es)
  obtain k v where e: "e = (k, v)" by (cases e)
  have "lookup (insert_all (e # es) m) = lookup (insert_all es (insert_entry k v m))"
    by (simp add: insert_all_def e)
  also have "\<dots> = (lookup m)(k \<mapsto> v) ++ map_of es"
    using Cons by (simp add: inv_insert lookup_insert)
  also have "\<dots> = lookup m ++ map_of (e # es)"
    using Cons.prems by (simp add: e map_add_upd_left dom_map_of_conv_image_fst)
  finally show ?case .
qed (simp add: insert_all_def)

text \<open>Entries with distinct keys may be inserted in any order.\<close>

lemma insert_all_permute:
  assumes "inv m" "distinct (map fst es)" "distinct (map fst fs)" "set es = set fs"
  shows "insert_all es m = insert_all fs m"
proof (rule ext)
  have "map_of es = map_of fs" using assms map_of_inject_set by blast
  then show "lookup (insert_all es m) = lookup (insert_all fs m)"
    using assms by (simp add: lookup_insert_all)
qed (use assms in \<open>auto intro: inv_insert_all\<close>)

lemma keys_length: "inv m \<Longrightarrow> length (keys_of m) = card (dom (lookup m))"
  using keys_sorted [of m] keys_dom [of m] distinct_card [of "keys_of m"]
  by (simp add: strict_sorted_iff)

end

interpretation bt: ordered_map "[]" bt_insert bt_get bt_keys bt_inv
  by unfold_locales
    (auto simp: bt_get_insert set_bt_keys bt_get_eq_map_of [of "[]"] intro: bt_ext,
     simp add: bt_inv_def bt_keys_def)

lemma dom_bt_insert: "bt_inv m \<Longrightarrow> dom (bt_get (bt_insert k v m)) = insert k (dom (bt_get m))"
  by (auto simp: bt_get_insert)

lemma bt_extend_Cons [simp]: "bt_extend ((k, v) # es) m = bt_extend es (bt_insert k v m)"
  by (simp add: bt_extend_def)

lemma bt_extend_Nil [simp]: "bt_extend [] m = m"
  by (simp add: bt_extend_def)

lemma bt_inv_extend [simp]: "bt_inv m \<Longrightarrow> bt_inv (bt_extend es m)"
  using bt.inv_insert_all by (simp add: bt_extend_def bt.insert_all_def)

lemma dom_bt_extend: "bt_inv m \<Longrightarrow> dom (bt_get (bt_extend es m)) = fst ` set es \<union> dom (bt_get m)"
proof (induction es arbitrary: m)
  case (Cons e es)
  then show ?case by (cases e) (simp add: dom_bt_insert)
qed simp

lemma bt_get_extend_in:
  "bt_inv m \<Longrightarrow> bt_get (bt_extend es m) k = Some v \<Longrightarrow> (k, v) \<in> set es \<or> bt_get m k = Some v"
proof (induction es arbitrary: m)
  case (Cons e es)
  obtain k' v' where e: "e = (k', v')" by (cases e)
  show ?case
    using Cons.IH [of "bt_insert k' v' m"] Cons.prems by (auto simp: e bt_get_insert split: if_splits)
qed simp

lemma bt_extend_permute:
  assumes "bt_inv m" "mset es = mset fs" "distinct (map fst es)"
  shows "bt_extend es m = bt_extend fs m"
proof -
  have "set es = set fs" using assms(2) by (metis set_mset_mset)
  moreover have "distinct (map fst fs)"
    using mset_eq_imp_distinct_iff [of "map fst es" "map fst fs"] assms(2,3) by simp
  ultimately show ?thesis
    using bt.insert_all_permute [OF assms(1,3)] by (simp add: bt_extend_def bt.insert_all_def)
qed

end
