(* ===== verification/Convergence.thy ===== *)
theory Convergence
  imports Prelude "HOL-Library.Product_Lexorder"
begin

text \<open>
  Branch selection, after \<^verbatim>\<open>crates/cgka-engine/src/convergence.rs\<close>: the convergence policy
  and its validation, the score of a branch candidate with its application-witness
  boost, the comparison of scores, the selection of the canonical branch, and the audit
  trace of a selection.  \<^verbatim>\<open>CommitOrderingPriority\<close> is the enum of
  \<^verbatim>\<open>crates/traits/src/engine.rs\<close> with its derived order.  The parameter \<open>hex\<close> of the trace
  stands for \<^verbatim>\<open>hex::encode\<close>.
\<close>

section \<open>Commit ordering priority\<close>

datatype CommitOrderingPriority = Privileged | Ordinary

fun priority_rank :: "CommitOrderingPriority \<Rightarrow> nat" where
  "priority_rank Privileged = 0"
| "priority_rank Ordinary = 1"

lemma priority_rank_inj: "priority_rank p = priority_rank q \<longleftrightarrow> p = q"
  by (cases p; cases q) auto

instantiation CommitOrderingPriority :: linorder
begin

definition less_eq_CommitOrderingPriority :: "CommitOrderingPriority \<Rightarrow> CommitOrderingPriority \<Rightarrow> bool" where
  "less_eq_CommitOrderingPriority p q \<longleftrightarrow> priority_rank p \<le> priority_rank q"

definition less_CommitOrderingPriority :: "CommitOrderingPriority \<Rightarrow> CommitOrderingPriority \<Rightarrow> bool" where
  "less_CommitOrderingPriority p q \<longleftrightarrow> priority_rank p < priority_rank q"

instance
  by standard
    (auto simp: less_eq_CommitOrderingPriority_def less_CommitOrderingPriority_def priority_rank_inj)

end

section \<open>Policy\<close>

record ConvergencePolicy =
  max_rewind_commits :: u64
  witness_quorum_senders_per_epoch :: nat
  witness_quorum_epochs :: nat
  max_witness_override_depth :: u64

definition ConvergencePolicy_default :: ConvergencePolicy where
  "ConvergencePolicy_default =
     \<lparr> max_rewind_commits = 5, witness_quorum_senders_per_epoch = 2,
       witness_quorum_epochs = 1, max_witness_override_depth = 1 \<rparr>"

datatype ConvergencePolicyError = WitnessOverrideExceedsRewind u64 u64

definition validate_policy :: "ConvergencePolicy \<Rightarrow> ConvergencePolicyError + unit" where
  "validate_policy p =
     (if max_witness_override_depth p > max_rewind_commits p
      then Inl (WitnessOverrideExceedsRewind (max_witness_override_depth p) (max_rewind_commits p))
      else Inr ())"

section \<open>Candidates and scores\<close>

record AppWitness =
  w_epoch :: u64
  w_sender :: bytes

record BranchCandidate =
  bc_id :: string
  fork_epoch :: u64
  tip_epoch :: u64
  tip_priority :: CommitOrderingPriority
  tip_committer :: bytes
  tip_digest :: bytes
  app_witnesses :: "AppWitness list"

record BranchScore =
  valid_commit_depth :: u64
  effective_commit_depth :: u64
  bs_witness_quorum_met :: bool
  bs_app_witness_score :: nat
  bs_tip_priority :: CommitOrderingPriority
  bs_tip_committer :: bytes
  bs_tip_digest :: bytes

definition witnesses_step ::
  "AppWitness \<Rightarrow> (u64, bytes list) btmap \<Rightarrow> (u64, bytes list) btmap" where
  "witnesses_step w m =
     bt_insert (w_epoch w)
       (insort_insert (w_sender w) (case bt_get m (w_epoch w) of None \<Rightarrow> [] | Some s \<Rightarrow> s)) m"

definition witnesses_by_epoch :: "AppWitness list \<Rightarrow> (u64, bytes list) btmap" where
  "witnesses_by_epoch ws = fold witnesses_step ws []"

definition app_witness_score :: "AppWitness list \<Rightarrow> ConvergencePolicy \<Rightarrow> nat" where
  "app_witness_score ws p =
     sum_list (map (\<lambda>s. min (length s) (witness_quorum_senders_per_epoch p))
       (bt_values (witnesses_by_epoch ws)))"

definition witness_quorum_met :: "AppWitness list \<Rightarrow> ConvergencePolicy \<Rightarrow> bool" where
  "witness_quorum_met ws p =
     (if witness_quorum_senders_per_epoch p = 0 \<or> witness_quorum_epochs p = 0 then False
      else length (filter (\<lambda>s. length s \<ge> witness_quorum_senders_per_epoch p)
             (bt_values (witnesses_by_epoch ws))) \<ge> witness_quorum_epochs p)"

definition witness_depth_boost :: "BranchCandidate \<Rightarrow> ConvergencePolicy \<Rightarrow> u64" where
  "witness_depth_boost b p =
     (if witness_quorum_met (app_witnesses b) p then max_witness_override_depth p else 0)"

definition score :: "BranchCandidate \<Rightarrow> ConvergencePolicy \<Rightarrow> BranchScore" where
  "score b p =
     \<lparr> valid_commit_depth = sat_sub (tip_epoch b) (fork_epoch b),
       effective_commit_depth =
         sat_add (sat_sub (tip_epoch b) (fork_epoch b)) (witness_depth_boost b p),
       bs_witness_quorum_met = witness_quorum_met (app_witnesses b) p,
       bs_app_witness_score = app_witness_score (app_witnesses b) p,
       bs_tip_priority = tip_priority b,
       bs_tip_committer = tip_committer b,
       bs_tip_digest = tip_digest b \<rparr>"

section \<open>Selection\<close>

definition is_branch_eligible :: "u64 \<Rightarrow> BranchCandidate \<Rightarrow> ConvergencePolicy \<Rightarrow> bool" where
  "is_branch_eligible current_tip b p \<longleftrightarrow>
     sat_sub current_tip (fork_epoch b) \<le> max_rewind_commits p"

definition compare_scores :: "BranchScore \<Rightarrow> BranchScore \<Rightarrow> Ordering" where
  "compare_scores a b =
     then_with (then_with (then_with (then_with (then_with (then_with
       (cmp (effective_commit_depth a) (effective_commit_depth b))
       (cmp (bs_witness_quorum_met a) (bs_witness_quorum_met b)))
       (cmp (valid_commit_depth a) (valid_commit_depth b)))
       (cmp (bs_app_witness_score a) (bs_app_witness_score b)))
       (cmp (bs_tip_priority b) (bs_tip_priority a)))
       (cmp (bs_tip_committer b) (bs_tip_committer a)))
       (cmp (bs_tip_digest b) (bs_tip_digest a))"

definition compare_candidates ::
  "ConvergencePolicy \<Rightarrow> BranchCandidate \<Rightarrow> BranchCandidate \<Rightarrow> Ordering" where
  "compare_candidates p a b = compare_scores (score a p) (score b p)"

definition select_canonical_branch ::
  "u64 \<Rightarrow> BranchCandidate list \<Rightarrow> ConvergencePolicy \<Rightarrow> BranchCandidate option" where
  "select_canonical_branch current_tip cs p =
     max_by (compare_candidates p) (filter (\<lambda>c. is_branch_eligible current_tip c p) cs)"

section \<open>The audit trace\<close>

fun tip_priority_str :: "CommitOrderingPriority \<Rightarrow> string" where
  "tip_priority_str Ordinary = ''ordinary''"
| "tip_priority_str Privileged = ''privileged''"

record CandidateEvaluation =
  ce_branch_id :: string
  ce_fork_epoch :: u64
  ce_tip_epoch :: u64
  ce_tip_priority :: CommitOrderingPriority
  ce_tip_committer :: bytes
  ce_tip_digest :: bytes
  ce_app_witnesses :: "AppWitness list"
  ce_eligible :: bool
  ce_rejection_reasons :: "string list"
  ce_score :: BranchScore

record RuleEvaluation =
  re_rule_name :: string
  re_winner_branch_id :: string
  re_other_branch_id :: string
  re_winner_value :: string
  re_other_value :: string
  re_decisive :: bool

record BranchSelectionTrace =
  bt_selected_branch_id :: "string option"
  bt_candidates :: "CandidateEvaluation list"
  bt_rule_trace :: "RuleEvaluation list"
  bt_losing_branch_ids :: "string list"

fun bool_to_string :: "bool \<Rightarrow> string" where
  "bool_to_string True = ''true''"
| "bool_to_string False = ''false''"

definition rule_entries ::
  "(bytes \<Rightarrow> string) \<Rightarrow> BranchScore \<Rightarrow> BranchScore \<Rightarrow> (string \<times> Ordering \<times> string \<times> string) list" where
  "rule_entries hex w o' =
     [ (''effective_commit_depth'', cmp (effective_commit_depth w) (effective_commit_depth o'),
        dec_string (unat (effective_commit_depth w)), dec_string (unat (effective_commit_depth o'))),
       (''witness_quorum_met'', cmp (bs_witness_quorum_met w) (bs_witness_quorum_met o'),
        bool_to_string (bs_witness_quorum_met w), bool_to_string (bs_witness_quorum_met o')),
       (''valid_commit_depth'', cmp (valid_commit_depth w) (valid_commit_depth o'),
        dec_string (unat (valid_commit_depth w)), dec_string (unat (valid_commit_depth o'))),
       (''app_witness_score'', cmp (bs_app_witness_score w) (bs_app_witness_score o'),
        dec_string (bs_app_witness_score w), dec_string (bs_app_witness_score o')),
       (''tip_priority'', cmp (bs_tip_priority o') (bs_tip_priority w),
        tip_priority_str (bs_tip_priority w), tip_priority_str (bs_tip_priority o')),
       (''tip_committer'', cmp (bs_tip_committer o') (bs_tip_committer w),
        hex (bs_tip_committer w), hex (bs_tip_committer o')),
       (''tip_digest'', cmp (bs_tip_digest o') (bs_tip_digest w),
        hex (bs_tip_digest w), hex (bs_tip_digest o')) ]"

fun mark_rules ::
  "string \<Rightarrow> string \<Rightarrow> bool \<Rightarrow> (string \<times> Ordering \<times> string \<times> string) list \<Rightarrow> RuleEvaluation list" where
  "mark_rules wid oid decided [] = []"
| "mark_rules wid oid decided ((name, ord, wv, ov) # es) =
     (let decisive = (\<not> decided \<and> ord \<noteq> OEqual) in
      \<lparr> re_rule_name = name, re_winner_branch_id = wid, re_other_branch_id = oid,
        re_winner_value = wv, re_other_value = ov, re_decisive = decisive \<rparr>
      # mark_rules wid oid (decided \<or> decisive) es)"

definition build_rule_trace ::
  "(bytes \<Rightarrow> string) \<Rightarrow> BranchScore \<Rightarrow> BranchScore \<Rightarrow> string \<Rightarrow> string \<Rightarrow> RuleEvaluation list" where
  "build_rule_trace hex w o' wid oid = mark_rules wid oid False (rule_entries hex w o')"

definition evaluate_candidate ::
  "u64 \<Rightarrow> ConvergencePolicy \<Rightarrow> BranchCandidate \<Rightarrow> CandidateEvaluation" where
  "evaluate_candidate current_tip p c =
     (let eligible = is_branch_eligible current_tip c p in
      \<lparr> ce_branch_id = bc_id c, ce_fork_epoch = fork_epoch c, ce_tip_epoch = tip_epoch c,
        ce_tip_priority = tip_priority c, ce_tip_committer = tip_committer c,
        ce_tip_digest = tip_digest c,
        ce_app_witnesses = sort_key (\<lambda>w. (w_epoch w, w_sender w)) (app_witnesses c),
        ce_eligible = eligible,
        ce_rejection_reasons = (if eligible then [] else [''beyond_rewind_horizon'']),
        ce_score = score c p \<rparr>)"

definition runner_up ::
  "u64 \<Rightarrow> BranchCandidate list \<Rightarrow> ConvergencePolicy \<Rightarrow> BranchCandidate \<Rightarrow> BranchCandidate option" where
  "runner_up current_tip ordered p winner =
     max_by (compare_candidates p)
       (filter (\<lambda>c. bc_id c \<noteq> bc_id winner)
         (filter (\<lambda>c. is_branch_eligible current_tip c p) ordered))"

definition select_canonical_branch_traced ::
  "(bytes \<Rightarrow> string) \<Rightarrow> u64 \<Rightarrow> BranchCandidate list \<Rightarrow> ConvergencePolicy \<Rightarrow> BranchSelectionTrace" where
  "select_canonical_branch_traced hex current_tip cs p =
     (let ordered = sort_key bc_id cs;
          evaluations = map (evaluate_candidate current_tip p) ordered;
          selected = select_canonical_branch current_tip cs p;
          selected_branch_id = map_option bc_id selected;
          rule_trace =
            (case selected of None \<Rightarrow> []
             | Some winner \<Rightarrow>
                 (case runner_up current_tip ordered p winner of None \<Rightarrow> []
                  | Some other \<Rightarrow>
                      build_rule_trace hex (score winner p) (score other p) (bc_id winner) (bc_id other)))
      in \<lparr> bt_selected_branch_id = selected_branch_id,
           bt_candidates = evaluations,
           bt_rule_trace = rule_trace,
           bt_losing_branch_ids =
             map ce_branch_id (filter (\<lambda>e. Some (ce_branch_id e) \<noteq> selected_branch_id) evaluations) \<rparr>)"

section \<open>Witness aggregation\<close>

definition senders_at :: "AppWitness list \<Rightarrow> u64 \<Rightarrow> bytes set" where
  "senders_at ws e = w_sender ` {w \<in> set ws. w_epoch w = e}"

definition wmap_rel :: "(u64, bytes list) btmap \<Rightarrow> AppWitness list \<Rightarrow> bool" where
  "wmap_rel m ws \<longleftrightarrow> bt_inv m \<and>
     (\<forall>e. bt_get m e =
        (if e \<in> w_epoch ` set ws then Some (sorted_list_of_set (senders_at ws e)) else None))"

lemma finite_senders_at [simp]: "finite (senders_at ws e)"
  by (simp add: senders_at_def)

lemma senders_at_snoc:
  "senders_at (ws @ [w]) e =
     (if w_epoch w = e then insert (w_sender w) (senders_at ws e) else senders_at ws e)"
  by (auto simp: senders_at_def)

lemma senders_at_empty: "e \<notin> w_epoch ` set ws \<Longrightarrow> senders_at ws e = {}"
  by (auto simp: senders_at_def)

lemma insort_insert_sorted_list_of_set:
  "finite A \<Longrightarrow> insort_insert x (sorted_list_of_set A) = sorted_list_of_set (insert x A)"
  by (rule bs_ext)
    (simp_all add: bs_inv_iff set_insort_insert sorted_insort_insert distinct_insort_insert
      del: sorted_list_of_set_insert_remove)

lemma wmap_rel_step: "wmap_rel m ws \<Longrightarrow> wmap_rel (witnesses_step w m) (ws @ [w])"
  by (auto simp: wmap_rel_def witnesses_step_def bt_get_insert senders_at_snoc senders_at_empty
      insort_insert_sorted_list_of_set insort_insert_Nil split: option.splits)

lemma wmap_rel_fold: "wmap_rel m vs \<Longrightarrow> wmap_rel (fold witnesses_step ws m) (vs @ ws)"
proof (induction ws arbitrary: m vs)
  case (Cons w ws)
  from Cons.IH [OF wmap_rel_step [OF Cons.prems]] show ?case by simp
qed simp

lemma wmap_rel_witnesses_by_epoch: "wmap_rel (witnesses_by_epoch ws) ws"
proof -
  have "wmap_rel [] []" by (simp add: wmap_rel_def bt_get_def)
  from wmap_rel_fold [OF this] show ?thesis by (simp add: witnesses_by_epoch_def)
qed

lemma bt_inv_witnesses_by_epoch [simp]: "bt_inv (witnesses_by_epoch ws)"
  using wmap_rel_witnesses_by_epoch by (simp add: wmap_rel_def)

lemma bt_get_witnesses_by_epoch:
  "bt_get (witnesses_by_epoch ws) e =
     (if e \<in> w_epoch ` set ws then Some (sorted_list_of_set (senders_at ws e)) else None)"
  using wmap_rel_witnesses_by_epoch [of ws] by (simp add: wmap_rel_def)

lemma witnesses_by_epoch_cong:
  assumes "set ws = set vs"
  shows "witnesses_by_epoch ws = witnesses_by_epoch vs"
proof (rule bt_ext)
  have "senders_at ws = senders_at vs" using assms by (simp add: senders_at_def fun_eq_iff)
  then show "bt_get (witnesses_by_epoch ws) = bt_get (witnesses_by_epoch vs)"
    using assms by (simp add: fun_eq_iff bt_get_witnesses_by_epoch)
qed simp_all

lemma witnesses_by_epoch_entries:
  "witnesses_by_epoch ws =
     map (\<lambda>e. (e, sorted_list_of_set (senders_at ws e))) (sorted_list_of_set (w_epoch ` set ws))"
proof (rule bt_ext)
  let ?r = "map (\<lambda>e. (e, sorted_list_of_set (senders_at ws e))) (sorted_list_of_set (w_epoch ` set ws))"
  show "bt_inv ?r" by (simp add: bt_inv_def comp_def strict_sorted_iff)
  have "bt_get ?r e = bt_get (witnesses_by_epoch ws) e" for e
    by (auto simp: bt_get_witnesses_by_epoch bt_get_def [of ?r] map_of_map_restrict restrict_map_def)
  then show "bt_get (witnesses_by_epoch ws) = bt_get ?r" by (simp add: fun_eq_iff)
qed simp

lemma app_witness_score_sum:
  "app_witness_score ws p =
     (\<Sum>e \<in> w_epoch ` set ws. min (card (senders_at ws e)) (witness_quorum_senders_per_epoch p))"
  by (simp add: app_witness_score_def witnesses_by_epoch_entries bt_values_def comp_def
      sum_list_distinct_conv_sum_set)

lemma witness_quorum_epochs_card:
  "length (filter (\<lambda>s. q \<le> length s) (bt_values (witnesses_by_epoch ws))) =
     card {e \<in> w_epoch ` set ws. q \<le> card (senders_at ws e)}"
proof -
  have "length (filter (\<lambda>s. q \<le> length s) (bt_values (witnesses_by_epoch ws))) =
      length (filter (\<lambda>e. q \<le> card (senders_at ws e)) (sorted_list_of_set (w_epoch ` set ws)))"
    by (simp add: witnesses_by_epoch_entries bt_values_def filter_map comp_def)
  also have "\<dots> = card (set (filter (\<lambda>e. q \<le> card (senders_at ws e)) (sorted_list_of_set (w_epoch ` set ws))))"
    by (rule distinct_card [symmetric]) simp
  finally show ?thesis by simp
qed

lemma score_cong_witnesses:
  assumes "set (app_witnesses a) = set (app_witnesses b)"
    and "fork_epoch a = fork_epoch b" "tip_epoch a = tip_epoch b" "tip_priority a = tip_priority b"
    and "tip_committer a = tip_committer b" "tip_digest a = tip_digest b"
  shows "score a p = score b p"
  using assms witnesses_by_epoch_cong [OF assms(1)]
  by (simp add: score_def witness_depth_boost_def witness_quorum_met_def app_witness_score_def)

section \<open>Scores form a linear order\<close>

interpretation scores: linear_cmp compare_scores
proof -
  have "preorder_cmp compare_scores"
    unfolding compare_scores_def [abs_def] by (intro preorder_cmp_intros)
  then show "linear_cmp compare_scores"
    by (rule linear_cmp.intro) (unfold_locales, auto simp: compare_scores_def)
qed

interpretation cands: preorder_cmp "compare_candidates p" for p
  unfolding compare_candidates_def [abs_def]
  by (rule preorder_cmp_pull) (rule scores.preorder_cmp_axioms)

lemma select_in:
  "select_canonical_branch t cs p = Some b \<Longrightarrow> b \<in> set cs \<and> is_branch_eligible t b p"
  unfolding select_canonical_branch_def by (drule max_by_in) simp

lemma select_max:
  "select_canonical_branch t cs p = Some b \<Longrightarrow> c \<in> set cs \<Longrightarrow> is_branch_eligible t c p \<Longrightarrow>
   compare_scores (score c p) (score b p) \<noteq> OGreater"
  unfolding select_canonical_branch_def
  using cands.max_by_ge [of p _ b c] by (simp add: compare_candidates_def)

lemma select_None_iff:
  "select_canonical_branch t cs p = None \<longleftrightarrow> (\<forall>c \<in> set cs. \<not> is_branch_eligible t c p)"
  by (auto simp: select_canonical_branch_def filter_empty_conv)

lemma select_score_cong:
  assumes "set cs = set ds"
  shows "map_option (\<lambda>b. score b p) (select_canonical_branch t cs p) =
         map_option (\<lambda>b. score b p) (select_canonical_branch t ds p)"
proof (cases "select_canonical_branch t cs p")
  case None
  then have "select_canonical_branch t ds p = None" using assms by (simp add: select_None_iff)
  then show ?thesis using None by simp
next
  case (Some a)
  have "select_canonical_branch t ds p \<noteq> None"
    using Some select_in [OF Some] assms by (auto simp: select_None_iff)
  then obtain b where b: "select_canonical_branch t ds p = Some b" by auto
  have "compare_candidates p a b = OEqual"
    using cands.max_by_equiv [of "filter (\<lambda>c. is_branch_eligible t c p) cs"
        "filter (\<lambda>c. is_branch_eligible t c p) ds" p a b] assms Some b
    by (simp add: select_canonical_branch_def)
  then show ?thesis using Some b scores.eq by (simp add: compare_candidates_def)
qed

text \<open>
  Selection depends only on the set of candidates as soon as no two different candidates
  have the same score.
\<close>

lemma select_cong_set:
  assumes "set cs = set ds" "inj_on (\<lambda>b. score b p) (set cs)"
  shows "select_canonical_branch t cs p = select_canonical_branch t ds p"
proof (cases "select_canonical_branch t cs p")
  case None
  then show ?thesis using assms(1) select_None_iff by metis
next
  case (Some a)
  obtain b where b: "select_canonical_branch t ds p = Some b" and eq: "score a p = score b p"
    using select_score_cong [OF assms(1), of p t] Some
    by (cases "select_canonical_branch t ds p") auto
  have "a = b"
    using inj_onD [OF assms(2) eq] select_in [OF Some] select_in [OF b] assms(1) by blast
  then show ?thesis using Some b by simp
qed

lemma effective_depth_bounds:
  "unat (valid_commit_depth (score b p)) \<le> unat (effective_commit_depth (score b p))"
  "unat (effective_commit_depth (score b p)) \<le>
     unat (valid_commit_depth (score b p)) + unat (max_witness_override_depth p)"
proof -
  show "unat (valid_commit_depth (score b p)) \<le> unat (effective_commit_depth (score b p))"
    using le_sat_add by (simp add: score_def flip: word_le_nat_alt)
  show "unat (effective_commit_depth (score b p)) \<le>
     unat (valid_commit_depth (score b p)) + unat (max_witness_override_depth p)"
    by (cases "witness_quorum_met (app_witnesses b) p")
      (simp_all add: score_def witness_depth_boost_def unat_sat_add min.coboundedI1)
qed

lemma compare_scores_effective:
  "compare_scores a b \<noteq> OGreater \<Longrightarrow> effective_commit_depth a \<le> effective_commit_depth b"
  by (rule ccontr) (simp add: compare_scores_def not_le)

section \<open>Properties of the audit trace\<close>

lemma mark_rules_decided: "\<forall>r \<in> set (mark_rules w o' True es). \<not> re_decisive r"
  by (induction es) auto

lemma mark_rules_count:
  "length (filter re_decisive (mark_rules w o' False es)) =
     (if \<exists>e \<in> set es. fst (snd e) \<noteq> OEqual then 1 else 0)"
proof (induction es)
  case (Cons e es)
  obtain n r wv ov where e: "e = (n, r, wv, ov)" by (cases e)
  show ?case
    using Cons mark_rules_decided by (simp add: e Let_def filter_empty_conv)
qed simp

lemma rule_entries_compare:
  "(\<exists>e \<in> set (rule_entries hex a b). fst (snd e) \<noteq> OEqual) \<longleftrightarrow> a \<noteq> b"
proof -
  have "(\<exists>e \<in> set (rule_entries hex a b). fst (snd e) \<noteq> OEqual) \<longleftrightarrow> compare_scores a b \<noteq> OEqual"
    by (simp add: rule_entries_def compare_scores_def)
  also have "\<dots> \<longleftrightarrow> a \<noteq> b" by (auto simp: scores.refl dest: scores.eq)
  finally show ?thesis .
qed

lemma length_mark_rules: "length (mark_rules w o' d es) = length es"
  by (induction w o' d es rule: mark_rules.induct) (auto simp: Let_def)

lemma mark_rules_nth:
  "i < length es \<Longrightarrow> re_decisive (mark_rules w o' False es ! i) \<longleftrightarrow>
     fst (snd (es ! i)) \<noteq> OEqual \<and> (\<forall>j < i. fst (snd (es ! j)) = OEqual)"
proof (induction es arbitrary: i)
  case (Cons e es)
  obtain n r wv ov where e: "e = (n, r, wv, ov)" by (cases e)
  show ?case
  proof (cases i)
    case 0
    then show ?thesis by (simp add: e Let_def)
  next
    case (Suc k)
    have all: "(\<forall>j < Suc k. fst (snd ((e # es) ! j)) = OEqual) \<longleftrightarrow>
        r = OEqual \<and> (\<forall>j < k. fst (snd (es ! j)) = OEqual)"
      by (simp add: e All_less_Suc2)
    show ?thesis
    proof (cases "r = OEqual")
      case True
      then show ?thesis using Cons Suc all by (simp add: e Let_def)
    next
      case False
      have "\<not> re_decisive (mark_rules w o' True es ! k)"
        using mark_rules_decided [of w o' es] Cons.prems Suc by (auto simp: all_set_conv_all_nth length_mark_rules)
      then show ?thesis using Suc all False by (simp add: e Let_def)
    qed
  qed
qed simp

lemma rule_entries_first_greater:
  assumes "compare_scores a b = OGreater"
  shows "\<exists>i < 7. fst (snd (rule_entries hex a b ! i)) = OGreater \<and>
           (\<forall>j < i. fst (snd (rule_entries hex a b ! j)) = OEqual)"
proof -
  let ?g = "\<lambda>i. fst (snd (rule_entries hex a b ! i))"
  have "?g 0 = OGreater \<or> ?g 0 = OEqual \<and> (?g 1 = OGreater \<or> ?g 1 = OEqual \<and> (?g 2 = OGreater \<or>
      ?g 2 = OEqual \<and> (?g 3 = OGreater \<or> ?g 3 = OEqual \<and> (?g 4 = OGreater \<or> ?g 4 = OEqual \<and>
      (?g 5 = OGreater \<or> ?g 5 = OEqual \<and> ?g 6 = OGreater)))))"
    using assms by (simp add: compare_scores_def rule_entries_def) blast
  then have "\<exists>i \<in> {0, 1, 2, 3, 4, 5, 6 :: nat}. ?g i = OGreater \<and> (\<forall>j < i. ?g j = OEqual)"
    by (simp add: All_less_Suc2 numeral_eq_Suc) blast
  then obtain i where "i \<in> {0, 1, 2, 3, 4, 5, 6 :: nat}" and "?g i = OGreater \<and> (\<forall>j < i. ?g j = OEqual)"
    by blast
  moreover from this(1) have "i < 7" by auto
  ultimately show ?thesis by blast
qed

lemma length_rule_entries [simp]: "length (rule_entries hex a b) = 7"
  by (simp add: rule_entries_def)

section \<open>The properties of branch selection\<close>

definition ex_long :: BranchCandidate where
  "ex_long = \<lparr> bc_id = ''long'', fork_epoch = 3, tip_epoch = 5, tip_priority = Ordinary,
     tip_committer = [1], tip_digest = [9], app_witnesses = [] \<rparr>"

definition ex_short :: BranchCandidate where
  "ex_short = \<lparr> bc_id = ''short'', fork_epoch = 3, tip_epoch = 4, tip_priority = Privileged,
     tip_committer = [2], tip_digest = [7],
     app_witnesses = [\<lparr> w_epoch = 4, w_sender = [1] \<rparr>, \<lparr> w_epoch = 4, w_sender = [2] \<rparr>] \<rparr>"

lemma ex_select: "select_canonical_branch 4 [ex_long, ex_short] ConvergencePolicy_default = Some ex_short"
  by code_simp

lemma ex_policy:
  "validate_policy ConvergencePolicy_default = Inr ()"
  "max_witness_override_depth ConvergencePolicy_default = 1"
  by code_simp+

lemma ex_eligible:
  "is_branch_eligible 4 ex_long ConvergencePolicy_default"
  "is_branch_eligible 4 ex_short ConvergencePolicy_default"
  by code_simp+

text \<open>
  C3: \<^verbatim>\<open>select_canonical_branch\<close> returns a candidate of its input that lies within the rewind
  horizon and whose score no eligible candidate exceeds in the order of \<^verbatim>\<open>compare_scores\<close>;
  it returns \<^verbatim>\<open>None\<close> exactly when no candidate is eligible.
\<close>

theorem select_canonical_branch_best:
  "case select_canonical_branch t cs p of
     None \<Rightarrow> \<forall>c \<in> set cs. \<not> is_branch_eligible t c p
   | Some b \<Rightarrow> b \<in> set cs \<and> is_branch_eligible t b p \<and>
       (\<forall>c \<in> set cs. is_branch_eligible t c p \<longrightarrow> compare_scores (score c p) (score b p) \<noteq> OGreater)"
  using select_None_iff [of t cs p] select_in [of t cs p] select_max [of t cs p]
  by (cases "select_canonical_branch t cs p") auto

theorem select_canonical_branch_best_witness:
  "compare_scores (score ex_long ConvergencePolicy_default) (score ex_short ConvergencePolicy_default) \<noteq> OGreater"
  using select_canonical_branch_best [where t = 4 and cs = "[ex_long, ex_short]" and p = ConvergencePolicy_default]
  by (simp add: ex_select ex_eligible)

text \<open>
  C6: Application traffic moves the selection by a bounded amount only: under a policy
  that passes validation, the valid commit depth of any eligible branch exceeds the depth of
  the selected one by at most \<^verbatim>\<open>max_witness_override_depth\<close>, which is itself at most the rewind
  horizon \<^verbatim>\<open>max_rewind_commits\<close>.  The arithmetic is the saturating \<^verbatim>\<open>u64\<close> arithmetic of the code.
\<close>

theorem witness_override_bounded:
  assumes "validate_policy p = Inr ()"
    and "select_canonical_branch t cs p = Some b"
    and "c \<in> set cs" "is_branch_eligible t c p"
  shows "unat (valid_commit_depth (score c p)) \<le>
           unat (valid_commit_depth (score b p)) + unat (max_witness_override_depth p)
       \<and> unat (max_witness_override_depth p) \<le> unat (max_rewind_commits p)"
proof -
  have "effective_commit_depth (score c p) \<le> effective_commit_depth (score b p)"
    using select_max [OF assms(2-4)] by (rule compare_scores_effective)
  then have "unat (valid_commit_depth (score c p)) \<le>
      unat (valid_commit_depth (score b p)) + unat (max_witness_override_depth p)"
    using effective_depth_bounds(1) [of c p] effective_depth_bounds(2) [of b p]
    by (simp add: word_le_nat_alt)
  moreover have "unat (max_witness_override_depth p) \<le> unat (max_rewind_commits p)"
    using assms(1) by (auto simp: validate_policy_def word_less_nat_alt split: if_splits)
  ultimately show ?thesis by blast
qed

theorem witness_override_bounded_witness:
  "unat (valid_commit_depth (score ex_long ConvergencePolicy_default)) \<le>
     unat (valid_commit_depth (score ex_short ConvergencePolicy_default)) + 1"
  using witness_override_bounded [of ConvergencePolicy_default 4 "[ex_long, ex_short]" ex_short ex_long]
  by (simp add: ex_select ex_eligible ex_policy)

text \<open>
  The witness quorum and the witness score, computed through the ordered map of
  ordered sets, are the quantities of the convergence rules: the number of epochs with at
  least the quorum of distinct senders, and the sum over epochs of the distinct senders
  capped by the quorum.  Repeated witnesses and their order do not matter.
\<close>

lemma witness_quorum_reference:
  "(witness_quorum_met ws p \<longleftrightarrow>
      witness_quorum_senders_per_epoch p > 0 \<and> witness_quorum_epochs p > 0 \<and>
      witness_quorum_epochs p \<le>
        card {e \<in> w_epoch ` set ws. witness_quorum_senders_per_epoch p \<le> card (senders_at ws e)}) \<and>
   app_witness_score ws p =
     (\<Sum>e \<in> w_epoch ` set ws. min (card (senders_at ws e)) (witness_quorum_senders_per_epoch p))"
  by (auto simp: witness_quorum_met_def witness_quorum_epochs_card app_witness_score_sum)

text \<open>
  The audit trace is a function of the candidate set.  For the same candidates in
  another order, with unique branch ids and no two candidates of equal score, the traced
  selection returns the same trace: selected branch, evaluations, rule trace and losers.
\<close>

lemma traced_selection_order_independent:
  assumes "mset cs = mset ds" "inj_on bc_id (set cs)" "inj_on (\<lambda>b. score b p) (set cs)"
  shows "select_canonical_branch_traced hex t cs p = select_canonical_branch_traced hex t ds p"
proof -
  have "set cs = set ds" using assms(1) by (metis set_mset_mset)
  then have "select_canonical_branch t cs p = select_canonical_branch t ds p"
    using assms(3) by (rule select_cong_set)
  moreover have "sort_key bc_id cs = sort_key bc_id ds"
    using assms(1,2) by (rule sort_key_mset_cong)
  ultimately show ?thesis by (simp add: select_canonical_branch_traced_def)
qed

text \<open>
  The rule trace explains the decision.  When the selected branch beats the runner-up,
  the trace has seven rules, exactly one of them is marked decisive, all rules before it
  compare equal and the decisive one favours the winner.
\<close>

lemma rule_trace_decisive:
  assumes "compare_scores w r = OGreater"
  shows "length (build_rule_trace hex w r wid rid) = 7 \<and>
    length (filter re_decisive (build_rule_trace hex w r wid rid)) = 1 \<and>
    (\<exists>i < 7. re_decisive (build_rule_trace hex w r wid rid ! i) \<and>
       fst (snd (rule_entries hex w r ! i)) = OGreater \<and>
       (\<forall>j < i. fst (snd (rule_entries hex w r ! j)) = OEqual))"
proof -
  obtain i where i: "i < 7" "fst (snd (rule_entries hex w r ! i)) = OGreater"
      "\<forall>j < i. fst (snd (rule_entries hex w r ! j)) = OEqual"
    using rule_entries_first_greater [OF assms] by blast
  have "w \<noteq> r" using assms scores.refl by auto
  then have one: "length (filter re_decisive (build_rule_trace hex w r wid rid)) = 1"
    using rule_entries_compare by (simp add: build_rule_trace_def mark_rules_count)
  have "re_decisive (build_rule_trace hex w r wid rid ! i)"
    using i by (simp add: build_rule_trace_def mark_rules_nth)
  then show ?thesis using i one by (auto simp: build_rule_trace_def length_mark_rules)
qed

end
