(* ===== verification/Canonicalization.thy ===== *)
theory Canonicalization
  imports Convergence "HOL-Library.Option_ord"
begin

text \<open>
  The canonicalization pass, after \<^verbatim>\<open>crates/cgka-engine/src/canonicalization.rs\<close>: the input
  and result records, deduplication of pending messages, materialization of the candidate
  graph by the fixed-point loop over commit messages, attachment of application witnesses,
  the per-message handlers, the convergence status and the final sort.  The data of a pass
  is symbolic, as in the code: branch ids and message ids are strings.
\<close>

section \<open>Data\<close>

record CanonicalizationPolicy =
  pol_convergence :: ConvergencePolicy
  app_message_past_epoch_limit :: u64
  settlement_quiescence_ms :: u64

definition CanonicalizationPolicy_default :: CanonicalizationPolicy where
  "CanonicalizationPolicy_default =
     \<lparr> pol_convergence = ConvergencePolicy_default, app_message_past_epoch_limit = 5,
       settlement_quiescence_ms = 1000 \<rparr>"

definition validate_canonicalization_policy :: "CanonicalizationPolicy \<Rightarrow> ConvergencePolicyError + unit" where
  "validate_canonicalization_policy p = validate_policy (pol_convergence p)"

record CanonicalizationState =
  current_tip_epoch :: u64
  retained_anchor_epoch :: u64
  last_convergence_relevant_input_ms :: u64
  seen_message_ids :: "string list"

datatype ConvergenceStatus = Syncing | Resolving | Settled | Blocked

datatype PeeledMessageKind =
    Commit string "string option" u64 u64 CommitOrderingPriority bytes "string list"
  | Proposal string
  | AppMessage u64 "string list" "string option"

record PeeledMessage =
  pm_message_id :: string
  pm_group_id :: string
  pm_sender :: bytes
  pm_source_epoch :: u64
  pm_kind :: PeeledMessageKind

datatype OutboundIntent = SendAppMessage string | CreateCommit string | PublishProposal string

datatype MessageKind = KCommit | KProposal | KAppMessage

fun kind_name :: "PeeledMessageKind \<Rightarrow> MessageKind" where
  "kind_name (Commit _ _ _ _ _ _ _) = KCommit"
| "kind_name (Proposal _) = KProposal"
| "kind_name (AppMessage _ _ _) = KAppMessage"

record CanonicalizationInput =
  in_state :: CanonicalizationState
  pending_messages :: "PeeledMessage list"
  outbound_intents :: "OutboundIntent list"
  candidate_branches :: "BranchCandidate list"
  in_policy :: CanonicalizationPolicy
  now_ms :: u64

record MaterializedCandidate =
  mc_branch :: BranchCandidate
  mc_commit_message_ids :: "string list"
  mc_consumed_proposal_ids :: "string list"

datatype InvalidatedAppMessageReason =
  LosingBranch | InvBeyondAnchor | InvBeyondAppRetention | UndecryptableInCanonicalState

record InvalidatedAppMessage =
  ia_message_id :: string
  ia_epoch :: u64
  ia_reason :: InvalidatedAppMessageReason
  ia_decrypted_payload_ref :: "string option"

datatype DroppedMessageReason =
  BeyondRollbackHorizon | BeyondAnchor | BeyondAppRetention | InvalidAgainstCandidateState
  | UnsupportedPolicy | Malformed

record DroppedMessage =
  dm_message_id :: string
  dm_kind :: MessageKind
  dm_reason :: DroppedMessageReason

record AlreadySeen =
  as_message_id :: string
  as_kind :: MessageKind

datatype CanonicalizationError =
  CErrUnsupportedPolicy | MissingRetainedAnchor | CandidateStateUnavailable
  | MlsValidationFailed | OutboundIntentStale | StorageUnavailable

record CanonicalizationResult =
  previous_tip :: u64
  selected_tip :: "u64 option"
  selected_fork_epoch :: "u64 option"
  selected_branch_id :: "string option"
  candidate_count :: nat
  eligible_count :: nat
  convergence_status :: ConvergenceStatus
  accepted_commits :: "string list"
  accepted_proposals :: "string list"
  accepted_app_messages :: "string list"
  invalidated_app_messages :: "InvalidatedAppMessage list"
  dropped_messages :: "DroppedMessage list"
  already_seen :: "AlreadySeen list"
  queued_outbound_intents :: "OutboundIntent list"
  publishable_outbound_messages :: "OutboundIntent list"
  errors :: "CanonicalizationError list"
  selection_trace :: "BranchSelectionTrace option"

text \<open>The derived orders of the sorted result entries, as sort keys.\<close>

primrec kind_rank :: "MessageKind \<Rightarrow> nat" where
  "kind_rank KCommit = 0"
| "kind_rank KProposal = 1"
| "kind_rank KAppMessage = 2"

primrec invalidation_rank :: "InvalidatedAppMessageReason \<Rightarrow> nat" where
  "invalidation_rank LosingBranch = 0"
| "invalidation_rank InvBeyondAnchor = 1"
| "invalidation_rank InvBeyondAppRetention = 2"
| "invalidation_rank UndecryptableInCanonicalState = 3"

primrec drop_rank :: "DroppedMessageReason \<Rightarrow> nat" where
  "drop_rank BeyondRollbackHorizon = 0"
| "drop_rank BeyondAnchor = 1"
| "drop_rank BeyondAppRetention = 2"
| "drop_rank InvalidAgainstCandidateState = 3"
| "drop_rank UnsupportedPolicy = 4"
| "drop_rank Malformed = 5"

primrec error_rank :: "CanonicalizationError \<Rightarrow> nat" where
  "error_rank CErrUnsupportedPolicy = 0"
| "error_rank MissingRetainedAnchor = 1"
| "error_rank CandidateStateUnavailable = 2"
| "error_rank MlsValidationFailed = 3"
| "error_rank OutboundIntentStale = 4"
| "error_rank StorageUnavailable = 5"

primrec intent_key :: "OutboundIntent \<Rightarrow> nat \<times> string" where
  "intent_key (SendAppMessage s) = (0, s)"
| "intent_key (CreateCommit s) = (1, s)"
| "intent_key (PublishProposal s) = (2, s)"

definition invalidated_key :: "InvalidatedAppMessage \<Rightarrow> string \<times> u64 \<times> nat \<times> string option" where
  "invalidated_key m =
     (ia_message_id m, ia_epoch m, invalidation_rank (ia_reason m), ia_decrypted_payload_ref m)"

definition dropped_key :: "DroppedMessage \<Rightarrow> string \<times> nat \<times> nat" where
  "dropped_key m = (dm_message_id m, kind_rank (dm_kind m), drop_rank (dm_reason m))"

definition already_seen_key :: "AlreadySeen \<Rightarrow> string \<times> nat" where
  "already_seen_key m = (as_message_id m, kind_rank (as_kind m))"

section \<open>Deduplication\<close>

fun dedup_messages ::
  "string list \<Rightarrow> PeeledMessage list \<Rightarrow> AlreadySeen list \<times> PeeledMessage list" where
  "dedup_messages observed [] = ([], [])"
| "dedup_messages observed (m # ms) =
     (if pm_message_id m \<in> set observed
      then (case dedup_messages observed ms of (seen, uniq) \<Rightarrow>
        (\<lparr> as_message_id = pm_message_id m, as_kind = kind_name (pm_kind m) \<rparr> # seen, uniq))
      else (case dedup_messages (insort_insert (pm_message_id m) observed) ms of (seen, uniq) \<Rightarrow>
        (seen, m # uniq)))"

section \<open>The candidate graph\<close>

record GraphState =
  gs_candidates :: "(string, BranchCandidate) btmap"
  commit_path_by_branch :: "(string, string list) btmap"
  branch_path_by_branch :: "(string, string list) btmap"
  consumed_proposal_ids_by_branch :: "(string, string list) btmap"
  materialized_commit_ids_by_branch :: "(string, string list) btmap"
  materialized_commit_ids :: "string list"

record MaterializedGraph =
  mg_candidates :: "BranchCandidate list"
  mg_commit_path :: "(string, string list) btmap"
  mg_branch_path :: "(string, string list) btmap"
  mg_consumed :: "(string, string list) btmap"
  mg_materialized :: "(string, string list) btmap"
  mg_branch_ids :: "string list"

record ResolvedParent =
  rp_fork_epoch :: u64
  rp_commit_path :: "string list"
  rp_branch_path :: "string list"
  rp_consumed :: "string list"

definition get_or_default :: "('k, 'v list) btmap \<Rightarrow> 'k \<Rightarrow> 'v list" where
  "get_or_default m k = (case bt_get m k of None \<Rightarrow> [] | Some v \<Rightarrow> v)"

definition resolve_parent :: "string option \<Rightarrow> u64 \<Rightarrow> GraphState \<Rightarrow> ResolvedParent option" where
  "resolve_parent parent_branch_id fork g =
     (case parent_branch_id of
        Some pid \<Rightarrow>
          (case bt_get (gs_candidates g) pid of
             None \<Rightarrow> None
           | Some parent \<Rightarrow> Some
               \<lparr> rp_fork_epoch = fork_epoch parent,
                 rp_commit_path = get_or_default (commit_path_by_branch g) pid,
                 rp_branch_path = get_or_default (branch_path_by_branch g) pid,
                 rp_consumed = get_or_default (consumed_proposal_ids_by_branch g) pid \<rparr>)
      | None \<Rightarrow> Some
          \<lparr> rp_fork_epoch = fork, rp_commit_path = [], rp_branch_path = [], rp_consumed = [] \<rparr>)"

definition source_epoch_matches_parent ::
  "string option \<Rightarrow> u64 \<Rightarrow> u64 \<Rightarrow> (string, BranchCandidate) btmap \<Rightarrow> bool" where
  "source_epoch_matches_parent parent_branch_id source_epoch fork cands =
     (case parent_branch_id of
        Some pid \<Rightarrow>
          (case bt_get cands pid of None \<Rightarrow> False | Some parent \<Rightarrow> tip_epoch parent = source_epoch)
      | None \<Rightarrow> source_epoch = fork)"

definition insert_materialized :: "MaterializedCandidate \<Rightarrow> GraphState \<Rightarrow> GraphState" where
  "insert_materialized m g =
     (let b = bc_id (mc_branch m) in
      g \<lparr> gs_candidates := bt_insert b (mc_branch m) (gs_candidates g),
          commit_path_by_branch := bt_insert b (mc_commit_message_ids m) (commit_path_by_branch g),
          branch_path_by_branch := bt_insert b [b] (branch_path_by_branch g),
          consumed_proposal_ids_by_branch :=
            bt_insert b (bs_of_list (mc_consumed_proposal_ids m)) (consumed_proposal_ids_by_branch g),
          materialized_commit_ids_by_branch :=
            bt_insert b (bs_of_list (mc_commit_message_ids m)) (materialized_commit_ids_by_branch g) \<rparr>)"

definition initial_graph :: "BranchCandidate list \<Rightarrow> GraphState" where
  "initial_graph cs =
     \<lparr> gs_candidates = bt_extend (map (\<lambda>c. (bc_id c, c)) cs) [],
       commit_path_by_branch = bt_extend (map (\<lambda>c. (bc_id c, [])) cs) [],
       branch_path_by_branch = bt_extend (map (\<lambda>c. (bc_id c, [bc_id c])) cs) [],
       consumed_proposal_ids_by_branch = bt_extend (map (\<lambda>c. (bc_id c, [])) cs) [],
       materialized_commit_ids_by_branch = [],
       materialized_commit_ids = [] \<rparr>"

definition commit_blocked :: "CanonicalizationInput \<Rightarrow> GraphState \<Rightarrow> string \<Rightarrow> u64 \<Rightarrow> string \<Rightarrow> u64 \<Rightarrow> u64 \<Rightarrow> bool" where
  "commit_blocked inp g mid src bid fork resulting \<longleftrightarrow>
     mid \<in> set (materialized_commit_ids g)
     \<or> bt_get (gs_candidates g) bid \<noteq> None
     \<or> fork < retained_anchor_epoch (in_state inp)
     \<or> sat_sub (current_tip_epoch (in_state inp)) fork
         > max_rewind_commits (pol_convergence (in_policy inp))
     \<or> resulting \<le> src"

definition insert_commit ::
  "PeeledMessage \<Rightarrow> string \<Rightarrow> u64 \<Rightarrow> CommitOrderingPriority \<Rightarrow> bytes \<Rightarrow> string list \<Rightarrow>
   ResolvedParent \<Rightarrow> GraphState \<Rightarrow> GraphState" where
  "insert_commit m bid resulting prio digest consumed rp g =
     g \<lparr> gs_candidates := bt_insert bid
           \<lparr> bc_id = bid, fork_epoch = rp_fork_epoch rp, tip_epoch = resulting, tip_priority = prio,
             tip_committer = pm_sender m, tip_digest = digest, app_witnesses = [] \<rparr> (gs_candidates g),
         commit_path_by_branch :=
           bt_insert bid (rp_commit_path rp @ [pm_message_id m]) (commit_path_by_branch g),
         branch_path_by_branch :=
           bt_insert bid (insort_insert bid (rp_branch_path rp)) (branch_path_by_branch g),
         consumed_proposal_ids_by_branch :=
           bt_insert bid (fold insort_insert consumed (rp_consumed rp)) (consumed_proposal_ids_by_branch g),
         materialized_commit_ids := insort_insert (pm_message_id m) (materialized_commit_ids g) \<rparr>"

definition commit_step ::
  "CanonicalizationInput \<Rightarrow> PeeledMessage \<Rightarrow> GraphState \<times> bool \<Rightarrow> GraphState \<times> bool" where
  "commit_step inp m gp =
     (case pm_kind m of
        Commit bid parent fork resulting prio digest consumed \<Rightarrow>
          (let g = fst gp in
           if commit_blocked inp g (pm_message_id m) (pm_source_epoch m) bid fork resulting then gp
           else (case resolve_parent parent fork g of
              None \<Rightarrow> gp
            | Some rp \<Rightarrow>
                if \<not> source_epoch_matches_parent parent (pm_source_epoch m) fork (gs_candidates g) then gp
                else (insert_commit m bid resulting prio digest consumed rp g, True)))
      | _ \<Rightarrow> gp)"

definition commit_pass ::
  "CanonicalizationInput \<Rightarrow> PeeledMessage list \<Rightarrow> GraphState \<Rightarrow> GraphState \<times> bool" where
  "commit_pass inp ms g = fold (commit_step inp) ms (g, False)"

text \<open>
  The loop of \<^verbatim>\<open>materialize_candidate_graph\<close> repeats the pass while it makes progress.  Every
  progressing pass adds the id of one of the commit messages to the materialized ids, so
  the number of ids that are not yet materialized decreases.
\<close>

definition remaining_commits :: "PeeledMessage list \<Rightarrow> GraphState \<Rightarrow> nat" where
  "remaining_commits ms g = card (pm_message_id ` set ms - set (materialized_commit_ids g))"

lemma commit_step_cases:
  obtains "commit_step inp m gp = gp"
  | bid parent fork resulting prio digest consumed rp where
      "pm_kind m = Commit bid parent fork resulting prio digest consumed"
      "\<not> commit_blocked inp (fst gp) (pm_message_id m) (pm_source_epoch m) bid fork resulting"
      "resolve_parent parent fork (fst gp) = Some rp"
      "source_epoch_matches_parent parent (pm_source_epoch m) fork (gs_candidates (fst gp))"
      "commit_step inp m gp = (insert_commit m bid resulting prio digest consumed rp (fst gp), True)"
proof (cases "pm_kind m")
  case (Commit bid parent fork resulting prio digest consumed)
  show thesis
  proof (cases "commit_step inp m gp = gp")
    case False
    then show thesis
      using that(2) [OF Commit] Commit
      by (auto simp: commit_step_def Let_def split: option.splits if_splits)
  qed (rule that(1))
qed (use that(1) in \<open>simp_all add: commit_step_def\<close>)

lemma commit_step_materialized:
  "set (materialized_commit_ids (fst gp)) \<subseteq> set (materialized_commit_ids (fst (commit_step inp m gp)))"
  by (cases rule: commit_step_cases [of inp m gp]) (auto simp: insert_commit_def set_insort_insert)

lemma commit_step_progress:
  "snd (commit_step inp m gp) \<Longrightarrow> \<not> snd gp \<Longrightarrow>
   pm_message_id m \<in> set (materialized_commit_ids (fst (commit_step inp m gp))) -
     set (materialized_commit_ids (fst gp))"
  by (cases rule: commit_step_cases [of inp m gp])
    (auto simp: insert_commit_def set_insort_insert commit_blocked_def)

lemma fold_commit_step_materialized:
  "set (materialized_commit_ids (fst gp)) \<subseteq> set (materialized_commit_ids (fst (fold (commit_step inp) ms gp)))"
proof (induction ms arbitrary: gp)
  case (Cons m ms)
  from commit_step_materialized Cons.IH [of "commit_step inp m gp"] show ?case by fastforce
qed simp

lemma fold_commit_step_progress:
  "snd (fold (commit_step inp) ms gp) \<Longrightarrow> \<not> snd gp \<Longrightarrow>
   \<exists>m \<in> set ms. pm_message_id m \<in>
     set (materialized_commit_ids (fst (fold (commit_step inp) ms gp))) - set (materialized_commit_ids (fst gp))"
proof (induction ms arbitrary: gp)
  case (Cons m ms)
  let ?h = "commit_step inp m gp"
  show ?case
  proof (cases "snd ?h")
    case True
    then show ?thesis
      using commit_step_progress [of inp m gp] Cons.prems fold_commit_step_materialized [of ?h inp ms] by auto
  next
    case False
    then show ?thesis
      using Cons.IH [of ?h] Cons.prems commit_step_materialized [of gp inp m] by fastforce
  qed
qed simp

lemma commit_pass_decreases:
  assumes "snd (commit_pass inp ms g)"
  shows "remaining_commits ms (fst (commit_pass inp ms g)) < remaining_commits ms g"
  unfolding remaining_commits_def
proof (rule psubset_card_mono)
  let ?g' = "fst (commit_pass inp ms g)"
  obtain m where "m \<in> set ms" "pm_message_id m \<in> set (materialized_commit_ids ?g')"
      "pm_message_id m \<notin> set (materialized_commit_ids g)"
    using fold_commit_step_progress [of inp ms "(g, False)"] assms by (auto simp: commit_pass_def)
  moreover have "set (materialized_commit_ids g) \<subseteq> set (materialized_commit_ids ?g')"
    using fold_commit_step_materialized [of "(g, False)" inp ms] by (simp add: commit_pass_def)
  ultimately show "pm_message_id ` set ms - set (materialized_commit_ids ?g') \<subset>
      pm_message_id ` set ms - set (materialized_commit_ids g)"
    by blast
qed simp

function materialize_loop ::
  "CanonicalizationInput \<Rightarrow> PeeledMessage list \<Rightarrow> GraphState \<Rightarrow> GraphState" where
  "materialize_loop inp ms g =
     (if snd (commit_pass inp ms g) then materialize_loop inp ms (fst (commit_pass inp ms g))
      else fst (commit_pass inp ms g))"
  by pat_completeness auto

termination
  by (relation "measure (\<lambda>(inp, ms, g). remaining_commits ms g)") (auto simp: commit_pass_decreases)

declare materialize_loop.simps [simp del]

definition is_commit :: "PeeledMessage \<Rightarrow> bool" where
  "is_commit m = (case pm_kind m of Commit _ _ _ _ _ _ _ \<Rightarrow> True | _ \<Rightarrow> False)"

definition commit_messages :: "PeeledMessage list \<Rightarrow> PeeledMessage list" where
  "commit_messages ms = sort_key (\<lambda>m. (pm_source_epoch m, pm_message_id m)) (filter is_commit ms)"

definition materialize_candidate_graph ::
  "CanonicalizationInput \<Rightarrow> PeeledMessage list \<Rightarrow> MaterializedCandidate list \<Rightarrow> MaterializedGraph" where
  "materialize_candidate_graph inp uniq materialized =
     (let g0 = fold insert_materialized materialized (initial_graph (candidate_branches inp));
          g = materialize_loop inp (commit_messages uniq) g0
      in \<lparr> mg_candidates = bt_values (gs_candidates g),
           mg_commit_path = commit_path_by_branch g,
           mg_branch_path = branch_path_by_branch g,
           mg_consumed = consumed_proposal_ids_by_branch g,
           mg_materialized = materialized_commit_ids_by_branch g,
           mg_branch_ids = bt_keys (gs_candidates g) \<rparr>)"

section \<open>Witness attachment\<close>

definition app_message_expired :: "u64 \<Rightarrow> CanonicalizationPolicy \<Rightarrow> u64 \<Rightarrow> bool" where
  "app_message_expired reference_tip p epoch \<longleftrightarrow>
     sat_sub reference_tip epoch > app_message_past_epoch_limit p"

fun push_witness ::
  "CanonicalizationPolicy \<Rightarrow> AppWitness \<Rightarrow> string \<Rightarrow> BranchCandidate list \<Rightarrow> BranchCandidate list" where
  "push_witness p w bid [] = []"
| "push_witness p w bid (c # cs) =
     (if bc_id c = bid
      then (if app_message_expired (tip_epoch c) p (w_epoch w) then c
            else c \<lparr> app_witnesses := app_witnesses c @ [w] \<rparr>) # cs
      else c # push_witness p w bid cs)"

definition attach_message ::
  "CanonicalizationPolicy \<Rightarrow> PeeledMessage \<Rightarrow> BranchCandidate list \<Rightarrow> BranchCandidate list" where
  "attach_message p m cs =
     (case pm_kind m of
        AppMessage epoch branches _ \<Rightarrow>
          fold (push_witness p \<lparr> w_epoch = epoch, w_sender = pm_sender m \<rparr>) branches cs
      | _ \<Rightarrow> cs)"

definition attach_app_witnesses ::
  "MaterializedGraph \<Rightarrow> PeeledMessage list \<Rightarrow> CanonicalizationPolicy \<Rightarrow> MaterializedGraph" where
  "attach_app_witnesses g uniq p =
     g \<lparr> mg_candidates := fold (attach_message p) uniq (mg_candidates g) \<rparr>"

section \<open>Handlers\<close>

definition dropped :: "PeeledMessage \<Rightarrow> DroppedMessageReason \<Rightarrow> DroppedMessage" where
  "dropped m reason =
     \<lparr> dm_message_id = pm_message_id m, dm_kind = kind_name (pm_kind m), dm_reason = reason \<rparr>"

definition invalidated_app ::
  "PeeledMessage \<Rightarrow> u64 \<Rightarrow> InvalidatedAppMessageReason \<Rightarrow> string option \<Rightarrow> InvalidatedAppMessage" where
  "invalidated_app m epoch reason payload =
     \<lparr> ia_message_id = pm_message_id m, ia_epoch = epoch, ia_reason = reason,
       ia_decrypted_payload_ref = payload \<rparr>"

definition push_dropped :: "DroppedMessage \<Rightarrow> CanonicalizationResult \<Rightarrow> CanonicalizationResult" where
  "push_dropped d r = r \<lparr> dropped_messages := dropped_messages r @ [d] \<rparr>"

definition push_invalidated :: "InvalidatedAppMessage \<Rightarrow> CanonicalizationResult \<Rightarrow> CanonicalizationResult" where
  "push_invalidated d r = r \<lparr> invalidated_app_messages := invalidated_app_messages r @ [d] \<rparr>"

definition handle_commit ::
  "CanonicalizationInput \<Rightarrow> PeeledMessage \<Rightarrow> string \<Rightarrow> u64 \<Rightarrow> string list \<Rightarrow> string list \<Rightarrow>
   CanonicalizationResult \<Rightarrow> CanonicalizationResult" where
  "handle_commit inp m bid fork selected_commit_ids materialized_branch_ids r =
     (if fork < retained_anchor_epoch (in_state inp) then push_dropped (dropped m BeyondAnchor) r
      else if sat_sub (current_tip_epoch (in_state inp)) fork
                > max_rewind_commits (pol_convergence (in_policy inp))
      then push_dropped (dropped m BeyondRollbackHorizon) r
      else if pm_message_id m \<notin> set selected_commit_ids
      then (if Some bid = selected_branch_id r
            then r \<lparr> accepted_commits := accepted_commits r @ [pm_message_id m] \<rparr>
            else if bid \<in> set materialized_branch_ids \<and> selected_branch_id r \<noteq> None
            then push_dropped (dropped m InvalidAgainstCandidateState) r
            else r)
      else r)"

definition handle_proposal ::
  "CanonicalizationInput \<Rightarrow> PeeledMessage \<Rightarrow> string \<Rightarrow> string list \<Rightarrow> string list \<Rightarrow> string list \<Rightarrow>
   CanonicalizationResult \<Rightarrow> CanonicalizationResult" where
  "handle_proposal inp m bid selected_consumed selected_branch_path materialized_branch_ids r =
     (if pm_source_epoch m < retained_anchor_epoch (in_state inp) then push_dropped (dropped m BeyondAnchor) r
      else if pm_message_id m \<in> set selected_consumed
      then r \<lparr> accepted_proposals := accepted_proposals r @ [pm_message_id m] \<rparr>
      else if bid \<in> set materialized_branch_ids \<and> bid \<notin> set selected_branch_path
              \<and> selected_branch_id r \<noteq> None
      then push_dropped (dropped m InvalidAgainstCandidateState) r
      else r)"

definition handle_app_message ::
  "CanonicalizationInput \<Rightarrow> PeeledMessage \<Rightarrow> u64 \<Rightarrow> string list \<Rightarrow> string option \<Rightarrow>
   CanonicalizationResult \<Rightarrow> CanonicalizationResult" where
  "handle_app_message inp m epoch branches payload r =
     (if epoch < retained_anchor_epoch (in_state inp)
      then push_invalidated (invalidated_app m epoch InvBeyondAnchor payload) r
      else if app_message_expired (current_tip_epoch (in_state inp)) (in_policy inp) epoch
      then push_invalidated (invalidated_app m epoch InvBeyondAppRetention payload) r
      else if (case selected_branch_id r of None \<Rightarrow> False | Some s \<Rightarrow> s \<in> set branches)
      then r \<lparr> accepted_app_messages := accepted_app_messages r @ [pm_message_id m] \<rparr>
      else if branches = []
      then push_invalidated (invalidated_app m epoch UndecryptableInCanonicalState payload) r
      else push_invalidated (invalidated_app m epoch LosingBranch payload) r)"

definition drop_losing_commit :: "string \<Rightarrow> CanonicalizationResult \<Rightarrow> CanonicalizationResult" where
  "drop_losing_commit mid r =
     (if mid \<in> dm_message_id ` set (dropped_messages r) then r
      else push_dropped
        \<lparr> dm_message_id = mid, dm_kind = KCommit, dm_reason = InvalidAgainstCandidateState \<rparr> r)"

definition drop_losing_materialized_candidate_commits ::
  "(string, string list) btmap \<Rightarrow> CanonicalizationResult \<Rightarrow> CanonicalizationResult" where
  "drop_losing_materialized_candidate_commits by_branch r =
     (case selected_branch_id r of
        None \<Rightarrow> r
      | Some sel \<Rightarrow>
          fold (\<lambda>(bid, commit_ids) r. if bid = sel then r else fold drop_losing_commit commit_ids r)
            by_branch r)"

section \<open>Status\<close>

definition has_blocking_convergence_error :: "CanonicalizationResult \<Rightarrow> bool" where
  "has_blocking_convergence_error r \<longleftrightarrow> (\<exists>e \<in> set (errors r). e = MissingRetainedAnchor)"

definition resolved_ids :: "CanonicalizationResult \<Rightarrow> string list" where
  "resolved_ids r =
     bs_of_list (accepted_commits r @ accepted_proposals r @ accepted_app_messages r
       @ map dm_message_id (dropped_messages r) @ map ia_message_id (invalidated_app_messages r)
       @ map as_message_id (already_seen r))"

definition is_proposal :: "PeeledMessage \<Rightarrow> bool" where
  "is_proposal m = (case pm_kind m of Proposal _ \<Rightarrow> True | _ \<Rightarrow> False)"

definition convergence_status_for_result ::
  "CanonicalizationInput \<Rightarrow> PeeledMessage list \<Rightarrow> CanonicalizationResult \<Rightarrow> ConvergenceStatus" where
  "convergence_status_for_result inp ms r =
     (let elapsed = sat_sub (now_ms inp) (last_convergence_relevant_input_ms (in_state inp)) in
      if elapsed < settlement_quiescence_ms (in_policy inp) then Syncing
      else if \<exists>m \<in> set ms. \<not> is_proposal m \<and> pm_message_id m \<notin> set (resolved_ids r) then Resolving
      else if has_blocking_convergence_error r then Blocked
      else Settled)"

section \<open>The pass\<close>

definition handle_message ::
  "CanonicalizationInput \<Rightarrow> string list \<Rightarrow> string list \<Rightarrow> string list \<Rightarrow> string list \<Rightarrow>
   PeeledMessage \<Rightarrow> CanonicalizationResult \<Rightarrow> CanonicalizationResult" where
  "handle_message inp selected_commit_ids selected_consumed selected_branch_path branch_ids m r =
     (case pm_kind m of
        Commit bid _ fork _ _ _ _ \<Rightarrow> handle_commit inp m bid fork selected_commit_ids branch_ids r
      | Proposal bid \<Rightarrow> handle_proposal inp m bid selected_consumed selected_branch_path branch_ids r
      | AppMessage epoch branches payload \<Rightarrow> handle_app_message inp m epoch branches payload r)"

definition get_selected :: "(string, 'v list) btmap \<Rightarrow> string option \<Rightarrow> 'v list" where
  "get_selected m sel = (case sel of None \<Rightarrow> [] | Some bid \<Rightarrow> get_or_default m bid)"

definition sort_result :: "CanonicalizationResult \<Rightarrow> CanonicalizationResult" where
  "sort_result r =
     r \<lparr> accepted_proposals := sort (accepted_proposals r),
         accepted_app_messages := sort (accepted_app_messages r),
         invalidated_app_messages := sort_key invalidated_key (invalidated_app_messages r),
         dropped_messages := sort_key dropped_key (dropped_messages r),
         already_seen := sort_key already_seen_key (already_seen r),
         queued_outbound_intents := sort_key intent_key (queued_outbound_intents r),
         publishable_outbound_messages := sort_key intent_key (publishable_outbound_messages r),
         errors := sort_key error_rank (errors r) \<rparr>"

definition initial_result ::
  "(bytes \<Rightarrow> string) \<Rightarrow> CanonicalizationInput \<Rightarrow> AlreadySeen list \<Rightarrow> BranchCandidate list \<Rightarrow> CanonicalizationResult" where
  "initial_result hex inp seen cands =
     (let tip = current_tip_epoch (in_state inp); p = pol_convergence (in_policy inp);
          sel = select_canonical_branch tip cands p
      in \<lparr> previous_tip = tip,
           selected_tip = map_option tip_epoch sel,
           selected_fork_epoch = map_option fork_epoch sel,
           selected_branch_id = map_option bc_id sel,
           candidate_count = length cands,
           eligible_count = length (filter (\<lambda>c. is_branch_eligible tip c p) cands),
           convergence_status = Syncing,
           accepted_commits = [],
           accepted_proposals = [],
           accepted_app_messages = [],
           invalidated_app_messages = [],
           dropped_messages = [],
           already_seen = seen,
           queued_outbound_intents = [],
           publishable_outbound_messages = [],
           errors = (if sel = None then [CandidateStateUnavailable] else []),
           selection_trace = Some (select_canonical_branch_traced hex tip cands p) \<rparr>)"

definition dispose_messages ::
  "CanonicalizationInput \<Rightarrow> MaterializedGraph \<Rightarrow> PeeledMessage list \<Rightarrow> CanonicalizationResult \<Rightarrow> CanonicalizationResult" where
  "dispose_messages inp g uniq r0 =
     (let sel = selected_branch_id r0;
          selected_commit_ids = get_selected (mg_commit_path g) sel;
          r1 = r0 \<lparr> accepted_commits := selected_commit_ids \<rparr>;
          r2 = fold (handle_message inp (bs_of_list selected_commit_ids) (get_selected (mg_consumed g) sel)
                 (get_selected (mg_branch_path g) sel) (mg_branch_ids g)) uniq r1
      in drop_losing_materialized_candidate_commits (mg_materialized g) r2)"

definition finish_result :: "CanonicalizationInput \<Rightarrow> CanonicalizationResult \<Rightarrow> CanonicalizationResult" where
  "finish_result inp r =
     (let status = convergence_status_for_result inp (pending_messages inp) r;
          r' = r \<lparr> convergence_status := status \<rparr>
      in sort_result
           (if status = Settled then r' \<lparr> publishable_outbound_messages := outbound_intents inp \<rparr>
            else r' \<lparr> queued_outbound_intents := outbound_intents inp \<rparr>))"

definition canonicalize_internal ::
  "(bytes \<Rightarrow> string) \<Rightarrow> CanonicalizationInput \<Rightarrow> MaterializedCandidate list \<Rightarrow> CanonicalizationResult" where
  "canonicalize_internal hex inp materialized =
     (let (seen, uniq) = dedup_messages (seen_message_ids (in_state inp)) (pending_messages inp);
          g = attach_app_witnesses (materialize_candidate_graph inp uniq materialized) uniq (in_policy inp)
      in finish_result inp (dispose_messages inp g uniq (initial_result hex inp seen (mg_candidates g))))"

definition canonicalize :: "(bytes \<Rightarrow> string) \<Rightarrow> CanonicalizationInput \<Rightarrow> CanonicalizationResult" where
  "canonicalize hex inp = canonicalize_internal hex inp []"

definition canonicalize_with_materialized_candidates ::
  "(bytes \<Rightarrow> string) \<Rightarrow> CanonicalizationInput \<Rightarrow> MaterializedCandidate list \<Rightarrow> CanonicalizationResult" where
  "canonicalize_with_materialized_candidates hex inp materialized =
     canonicalize_internal hex inp materialized"

section \<open>A concrete pass\<close>

definition ex_msg :: "string \<Rightarrow> bytes \<Rightarrow> u64 \<Rightarrow> PeeledMessageKind \<Rightarrow> PeeledMessage" where
  "ex_msg i s e k = \<lparr> pm_message_id = i, pm_group_id = ''g'', pm_sender = s, pm_source_epoch = e, pm_kind = k \<rparr>"

definition ex_c1 :: PeeledMessage where
  "ex_c1 = ex_msg ''c1'' [1] 4 (Commit ''A'' None 4 5 Ordinary [9] [''p1''])"

definition ex_c2 :: PeeledMessage where
  "ex_c2 = ex_msg ''c2'' [2] 4 (Commit ''B'' None 4 5 Privileged [7] [])"

definition ex_p1 :: PeeledMessage where
  "ex_p1 = ex_msg ''p1'' [3] 4 (Proposal ''A'')"

definition ex_a1 :: PeeledMessage where
  "ex_a1 = ex_msg ''a1'' [3] 5 (AppMessage 5 [''A''] None)"

definition ex_a2 :: PeeledMessage where
  "ex_a2 = ex_msg ''a2'' [4] 5 (AppMessage 5 [''A''] None)"

definition ex_input :: "PeeledMessage list \<Rightarrow> CanonicalizationInput" where
  "ex_input ms =
     \<lparr> in_state = \<lparr> current_tip_epoch = 4, retained_anchor_epoch = 1,
         last_convergence_relevant_input_ms = 0, seen_message_ids = [''s1''] \<rparr>,
       pending_messages = ms, outbound_intents = [SendAppMessage ''hi''],
       candidate_branches = [], in_policy = CanonicalizationPolicy_default, now_ms = 5000 \<rparr>"

definition ex_hex :: "bytes \<Rightarrow> string" where
  "ex_hex bs = map (\<lambda>b. char_of (unat b)) bs"

abbreviation ex_pass :: CanonicalizationInput where
  "ex_pass \<equiv> ex_input [ex_c1, ex_c2, ex_p1, ex_a1, ex_a2]"

end
