(* ===== verification/Canonical_Graph.thy ===== *)
theory Canonical_Graph
  imports Canonicalization
begin

text \<open>
  The candidate graph as a transition system.  One step materializes one commit message
  whose guards hold in the current graph; the loop of \<^verbatim>\<open>materialize_candidate_graph\<close> runs
  such steps to a state in which none is enabled.  Invariants of the graph are proved by rule
  induction over the steps.
\<close>

section \<open>New messages\<close>

text \<open>The messages a pass works on are the pending ones that were neither seen before nor occur twice.\<close>

definition pass_uniq :: "CanonicalizationInput \<Rightarrow> PeeledMessage list" where
  "pass_uniq inp = snd (dedup_messages (seen_message_ids (in_state inp)) (pending_messages inp))"

lemma dedup_distinct:
  "distinct (map pm_message_id (snd (dedup_messages obs ms))) \<and>
   pm_message_id ` set (snd (dedup_messages obs ms)) \<inter> set obs = {}"
proof (induction obs ms rule: dedup_messages.induct)
  case (2 obs m ms)
  show ?case
  proof (cases "pm_message_id m \<in> set obs")
    case True
    then show ?thesis using 2(1) by (simp add: case_prod_unfold)
  next
    case False
    then show ?thesis using 2(2) by (auto simp: case_prod_unfold set_insort_insert)
  qed
qed simp

lemma pass_uniq_distinct: "distinct (map pm_message_id (pass_uniq inp))"
  using dedup_distinct by (simp add: pass_uniq_def)

section \<open>Steps\<close>

inductive graph_step :: "CanonicalizationInput \<Rightarrow> PeeledMessage list \<Rightarrow> GraphState \<Rightarrow> GraphState \<Rightarrow> bool"
  for inp ms where
  materialize:
    "\<lbrakk> m \<in> set ms; pm_kind m = Commit bid parent fork resulting prio digest consumed;
       \<not> commit_blocked inp g (pm_message_id m) (pm_source_epoch m) bid fork resulting;
       resolve_parent parent fork g = Some rp;
       source_epoch_matches_parent parent (pm_source_epoch m) fork (gs_candidates g) \<rbrakk>
     \<Longrightarrow> graph_step inp ms g (insert_commit m bid resulting prio digest consumed rp g)"

inductive_cases graph_stepE: "graph_step inp ms g g'"

lemma commit_step_graph_step:
  assumes "m \<in> set ms"
  shows "fst (commit_step inp m gp) = fst gp \<and> snd (commit_step inp m gp) = snd gp \<or>
    graph_step inp ms (fst gp) (fst (commit_step inp m gp)) \<and> snd (commit_step inp m gp)"
  by (cases rule: commit_step_cases [of inp m gp]) (auto intro: graph_step.intros assms)

lemma fold_commit_step_steps:
  "set ks \<subseteq> set ms \<Longrightarrow> (graph_step inp ms)\<^sup>*\<^sup>* (fst gp) (fst (fold (commit_step inp) ks gp))"
proof (induction ks arbitrary: gp)
  case (Cons k ks)
  have one: "(graph_step inp ms)\<^sup>*\<^sup>* (fst gp) (fst (commit_step inp k gp))"
    using commit_step_graph_step [of k ms inp gp] Cons.prems by auto
  have "(graph_step inp ms)\<^sup>*\<^sup>* (fst (commit_step inp k gp)) (fst (fold (commit_step inp) (k # ks) gp))"
    using Cons.IH [of "commit_step inp k gp"] Cons.prems by simp
  with one show ?case by (rule rtranclp_trans)
qed simp

lemma fold_commit_step_idle:
  "\<not> snd (fold (commit_step inp) ks (g, False)) \<Longrightarrow>
   fst (fold (commit_step inp) ks (g, False)) = g \<and> (\<forall>k \<in> set ks. commit_step inp k (g, False) = (g, False))"
proof (induction ks)
  case (Cons k ks)
  have up: "snd gp \<Longrightarrow> snd (fold (commit_step inp) js gp)" for js gp
  proof (induction js arbitrary: gp)
    case (Cons j js)
    have "snd (commit_step inp j gp)"
      using Cons.prems by (cases rule: commit_step_cases [of inp j gp]) auto
    then show ?case using Cons.IH by simp
  qed simp
  have idle: "commit_step inp k (g, False) = (g, False)"
    using Cons.prems up [of "commit_step inp k (g, False)"]
    by (cases rule: commit_step_cases [of inp k "(g, False)"]) auto
  then show ?case using Cons by simp
qed simp

lemma materialize_loop_steps: "(graph_step inp ms)\<^sup>*\<^sup>* g (materialize_loop inp ms g)"
proof (induction inp ms g rule: materialize_loop.induct)
  case (1 inp ms g)
  have pass: "(graph_step inp ms)\<^sup>*\<^sup>* g (fst (commit_pass inp ms g))"
    using fold_commit_step_steps [of ms ms inp "(g, False)"] by (simp add: commit_pass_def)
  show ?case
    using pass 1 rtranclp_trans by (subst materialize_loop.simps) fastforce
qed

lemma materialize_loop_fixpoint: "commit_pass inp ms (materialize_loop inp ms g) = (materialize_loop inp ms g, False)"
proof (induction inp ms g rule: materialize_loop.induct)
  case (1 inp ms g)
  show ?case
  proof (cases "snd (commit_pass inp ms g)")
    case True
    then show ?thesis using 1 by (simp add: materialize_loop.simps [of inp ms g])
  next
    case False
    then have "fst (commit_pass inp ms g) = g"
      using fold_commit_step_idle [of inp ms g] by (simp add: commit_pass_def)
    then show ?thesis
      using False by (simp add: materialize_loop.simps [of inp ms g] prod_eq_iff)
  qed
qed

lemma graph_step_commit_step:
  assumes "graph_step inp ms g g'"
  shows "\<exists>m \<in> set ms. commit_step inp m (g, False) = (g', True)"
  using assms
proof cases
  case (materialize m bid parent fork resulting prio digest consumed rp)
  then have "commit_step inp m (g, False) = (g', True)" by (simp add: commit_step_def)
  then show ?thesis using materialize(2) by blast
qed

lemma materialize_loop_normal: "\<not> graph_step inp ms (materialize_loop inp ms g) g'"
proof
  let ?n = "materialize_loop inp ms g"
  assume "graph_step inp ms ?n g'"
  then obtain m where m: "m \<in> set ms" "commit_step inp m (?n, False) = (g', True)"
    using graph_step_commit_step by blast
  have "\<not> snd (fold (commit_step inp) ms (?n, False))"
    using materialize_loop_fixpoint [of inp ms g] by (simp add: commit_pass_def)
  then have "commit_step inp m (?n, False) = (?n, False)"
    using fold_commit_step_idle m(1) by blast
  then show False using m(2) by simp
qed

lemma materialize_loop_invariant:
  assumes "P g"
    and "\<And>h h'. P h \<Longrightarrow> (graph_step inp ms)\<^sup>*\<^sup>* g h \<Longrightarrow> graph_step inp ms h h' \<Longrightarrow> P h'"
  shows "P (materialize_loop inp ms g)"
  using materialize_loop_steps [of inp ms g]
  by (induction rule: rtranclp_induct) (use assms in auto)

section \<open>Well-formed graphs\<close>

definition graph_wf :: "GraphState \<Rightarrow> bool" where
  "graph_wf g \<longleftrightarrow>
     bt_inv (gs_candidates g) \<and> bt_inv (commit_path_by_branch g) \<and> bt_inv (branch_path_by_branch g) \<and>
     bt_inv (consumed_proposal_ids_by_branch g) \<and>
     dom (bt_get (commit_path_by_branch g)) = dom (bt_get (gs_candidates g)) \<and>
     dom (bt_get (branch_path_by_branch g)) = dom (bt_get (gs_candidates g)) \<and>
     dom (bt_get (consumed_proposal_ids_by_branch g)) = dom (bt_get (gs_candidates g)) \<and>
     (\<forall>b c. bt_get (gs_candidates g) b = Some c \<longrightarrow> bc_id c = b)"

lemma graph_wf_initial: "graph_wf (initial_graph cs)"
  by (auto simp: graph_wf_def initial_graph_def dom_bt_extend bt_get_eq_map_of [of "[]"] image_image
      dest!: bt_get_extend_in [OF bt_inv_Nil])

lemma graph_wf_insert_materialized: "graph_wf g \<Longrightarrow> graph_wf (insert_materialized m g)"
  by (auto simp: graph_wf_def insert_materialized_def Let_def bt_get_insert split: if_splits)

lemma graph_wf_fold_materialized: "graph_wf g \<Longrightarrow> graph_wf (fold insert_materialized ms g)"
  by (induction ms arbitrary: g) (auto intro: graph_wf_insert_materialized)

lemma graph_wf_step: "graph_step inp ms g g' \<Longrightarrow> graph_wf g \<Longrightarrow> graph_wf g'"
  by (erule graph_stepE) (auto simp: graph_wf_def insert_commit_def bt_get_insert split: if_splits)

lemma graph_wf_loop: "graph_wf g \<Longrightarrow> graph_wf (materialize_loop inp ms g)"
  by (rule materialize_loop_invariant) (auto intro: graph_wf_step)

section \<open>Commit paths and depths\<close>

definition commit_admissible :: "CanonicalizationInput \<Rightarrow> PeeledMessage \<Rightarrow> bool" where
  "commit_admissible inp m =
     (case pm_kind m of
        Commit bid parent fork resulting prio digest consumed \<Rightarrow>
          \<not> fork < retained_anchor_epoch (in_state inp)
          \<and> \<not> sat_sub (current_tip_epoch (in_state inp)) fork
               > max_rewind_commits (pol_convergence (in_policy inp))
          \<and> pm_source_epoch m < resulting
      | _ \<Rightarrow> False)"

definition admissible_ids :: "CanonicalizationInput \<Rightarrow> PeeledMessage list \<Rightarrow> string set" where
  "admissible_ids inp ms = pm_message_id ` {m \<in> set ms. commit_admissible inp m}"

definition path_inv :: "string set \<Rightarrow> GraphState \<Rightarrow> bool" where
  "path_inv ids g \<longleftrightarrow> (\<forall>b p. bt_get (commit_path_by_branch g) b = Some p \<longrightarrow> set p \<subseteq> ids)"

text \<open>
  Where the commit path of a branch with this fork epoch starts: at the fork itself, at a candidate
  of the input, or at a pre-materialized candidate, whose own commits then lead the path; \<open>e\<close> is the
  epoch there.
\<close>

definition chain_start ::
  "CanonicalizationInput \<Rightarrow> MaterializedCandidate list \<Rightarrow> u64 \<Rightarrow> string list \<Rightarrow> u64 \<Rightarrow> bool" where
  "chain_start inp mats fork q e \<longleftrightarrow>
     q = [] \<and> e = fork
     \<or> (\<exists>s \<in> set (candidate_branches inp). q = [] \<and> fork_epoch s = fork \<and> e = tip_epoch s)
     \<or> (\<exists>x \<in> set mats. q = mc_commit_message_ids x \<and> fork_epoch (mc_branch x) = fork \<and> e = tip_epoch (mc_branch x))"

definition commit_chain ::
  "CanonicalizationInput \<Rightarrow> MaterializedCandidate list \<Rightarrow> string set \<Rightarrow> BranchCandidate \<Rightarrow> string list \<Rightarrow> bool" where
  "commit_chain inp mats ids c p \<longleftrightarrow>
     (\<exists>q added e. p = q @ added \<and> chain_start inp mats (fork_epoch c) q e \<and> set added \<subseteq> ids
        \<and> unat e + length added \<le> unat (tip_epoch c))"

definition chain_inv :: "CanonicalizationInput \<Rightarrow> MaterializedCandidate list \<Rightarrow> string set \<Rightarrow> GraphState \<Rightarrow> bool" where
  "chain_inv inp mats ids g \<longleftrightarrow>
     (\<forall>b c p. bt_get (gs_candidates g) b = Some c \<longrightarrow> bt_get (commit_path_by_branch g) b = Some p \<longrightarrow>
        commit_chain inp mats ids c p)"

definition materialized_inv :: "PeeledMessage list \<Rightarrow> GraphState \<Rightarrow> bool" where
  "materialized_inv ms g \<longleftrightarrow>
     (\<forall>i \<in> set (materialized_commit_ids g). \<exists>m \<in> set ms. pm_message_id m = i \<and>
        (case pm_kind m of Commit bid _ _ _ _ _ _ \<Rightarrow> bt_get (gs_candidates g) bid \<noteq> None | _ \<Rightarrow> False))"

lemma resolve_parent_SomeE:
  assumes "resolve_parent parent fork g = Some rp"
  obtains "parent = None" "rp_fork_epoch rp = fork" "rp_commit_path rp = []" "rp_branch_path rp = []" "rp_consumed rp = []"
  | pid c where "parent = Some pid" "bt_get (gs_candidates g) pid = Some c" "rp_fork_epoch rp = fork_epoch c"
      "rp_commit_path rp = get_or_default (commit_path_by_branch g) pid"
      "rp_branch_path rp = get_or_default (branch_path_by_branch g) pid"
      "rp_consumed rp = get_or_default (consumed_proposal_ids_by_branch g) pid"
  using assms by (auto simp: resolve_parent_def split: option.splits)

lemma path_inv_step:
  assumes "graph_step inp ms g g'" "graph_wf g" "path_inv ids g" "admissible_ids inp ms \<subseteq> ids"
  shows "path_inv ids g'"
  using assms(1)
proof cases
  case (materialize m bid parent fork resulting prio digest consumed rp)
  have "commit_admissible inp m"
    using materialize(3,4) by (auto simp: commit_admissible_def commit_blocked_def)
  then have m: "pm_message_id m \<in> ids"
    using assms(4) materialize(2) by (auto simp: admissible_ids_def)
  have "set (rp_commit_path rp) \<subseteq> ids"
    using materialize(5) assms(3)
    by (cases rule: resolve_parent_SomeE) (auto simp: path_inv_def get_or_default_def split: option.splits)
  then show ?thesis
    using m assms(2,3) materialize(1)
    by (auto simp: path_inv_def insert_commit_def graph_wf_def bt_get_insert split: if_splits)
qed

lemma commit_chain_start: "chain_start inp mats (fork_epoch c) q (tip_epoch c) \<Longrightarrow> commit_chain inp mats ids c q"
  unfolding commit_chain_def by (intro exI [of _ q] exI [of _ "[]"] exI [of _ "tip_epoch c"]) simp

lemma commit_chain_extend:
  assumes "commit_chain inp mats ids c p" "i \<in> ids" "unat (tip_epoch c) < unat (tip_epoch c')" "fork_epoch c' = fork_epoch c"
  shows "commit_chain inp mats ids c' (p @ [i])"
proof -
  obtain q added e where "p = q @ added" "chain_start inp mats (fork_epoch c) q e" "set added \<subseteq> ids"
      "unat e + length added \<le> unat (tip_epoch c)"
    using assms(1) unfolding commit_chain_def by blast
  then show ?thesis
    using assms(2-4) unfolding commit_chain_def
    by (intro exI [of _ q] exI [of _ "added @ [i]"] exI [of _ e]) simp
qed

lemma commit_chain_root:
  assumes "i \<in> ids" "unat (fork_epoch c) < unat (tip_epoch c)"
  shows "commit_chain inp mats ids c [i]"
  unfolding commit_chain_def using assms
  by (intro exI [of _ "[]"] exI [of _ "[i]"] exI [of _ "fork_epoch c"]) (simp add: chain_start_def)

lemma chain_inv_step:
  assumes "graph_step inp ms g g'" "graph_wf g" "chain_inv inp mats ids g" "admissible_ids inp ms \<subseteq> ids"
  shows "chain_inv inp mats ids g'"
  using assms(1)
proof cases
  case (materialize m bid parent fork resulting prio digest consumed rp)
  let ?c = "\<lparr> bc_id = bid, fork_epoch = rp_fork_epoch rp, tip_epoch = resulting, tip_priority = prio,
      tip_committer = pm_sender m, tip_digest = digest, app_witnesses = [] \<rparr>"
  have lt: "unat (pm_source_epoch m) < unat resulting"
    using materialize(4) by (simp add: commit_blocked_def word_less_nat_alt not_le)
  have "commit_admissible inp m"
    using materialize(3,4) by (auto simp: commit_admissible_def commit_blocked_def)
  then have i: "pm_message_id m \<in> ids"
    using assms(4) materialize(2) by (auto simp: admissible_ids_def)
  have new: "commit_chain inp mats ids ?c (rp_commit_path rp @ [pm_message_id m])"
    using materialize(5)
  proof (cases rule: resolve_parent_SomeE)
    case 1
    then show ?thesis
      using materialize(6) lt i commit_chain_root [of _ ids ?c] by (simp add: source_epoch_matches_parent_def)
  next
    case (2 pid c)
    have "pid \<in> dom (bt_get (commit_path_by_branch g))"
      using 2(2) assms(2) by (auto simp: graph_wf_def)
    then obtain p where p: "bt_get (commit_path_by_branch g) pid = Some p" by auto
    then have "commit_chain inp mats ids c p" using 2(2) assms(3) by (simp add: chain_inv_def)
    then have "commit_chain inp mats ids ?c (p @ [pm_message_id m])"
      using commit_chain_extend [of inp mats ids c p "pm_message_id m" ?c] i lt 2 materialize(6)
      by (simp add: source_epoch_matches_parent_def)
    then show ?thesis using 2 p by (simp add: get_or_default_def)
  qed
  show ?thesis
    using new assms(2,3) materialize(1)
    by (auto simp: chain_inv_def insert_commit_def graph_wf_def bt_get_insert split: if_splits)
qed

lemma chain_inv_insert_materialized:
  assumes "graph_wf g" "chain_inv inp mats ids g" "x \<in> set mats"
  shows "chain_inv inp mats ids (insert_materialized x g)"
proof -
  have "commit_chain inp mats ids (mc_branch x) (mc_commit_message_ids x)"
    using assms(3) by (intro commit_chain_start) (auto simp: chain_start_def)
  then show ?thesis
    using assms(1,2)
    by (auto simp: chain_inv_def insert_materialized_def Let_def graph_wf_def bt_get_insert split: if_splits)
qed

lemma materialized_inv_step:
  assumes "graph_step inp ms g g'" "graph_wf g" "materialized_inv ms g"
  shows "materialized_inv ms g'"
  using assms(1)
proof cases
  case (materialize m bid parent fork resulting prio digest consumed rp)
  have grow: "bt_get (gs_candidates g) b \<noteq> None \<Longrightarrow> bt_get (gs_candidates g') b \<noteq> None" for b
    using assms(2) materialize(1) by (auto simp: insert_commit_def graph_wf_def bt_get_insert)
  have new: "bt_get (gs_candidates g') bid \<noteq> None"
    using assms(2) materialize(1) by (auto simp: insert_commit_def graph_wf_def bt_get_insert)
  have ids: "set (materialized_commit_ids g') = insert (pm_message_id m) (set (materialized_commit_ids g))"
    using materialize(1) by (simp add: insert_commit_def set_insort_insert)
  show ?thesis
    unfolding materialized_inv_def ids
  proof (intro ballI)
    fix i
    assume i: "i \<in> insert (pm_message_id m) (set (materialized_commit_ids g))"
    show "\<exists>m \<in> set ms. pm_message_id m = i \<and>
        (case pm_kind m of Commit bid _ _ _ _ _ _ \<Rightarrow> bt_get (gs_candidates g') bid \<noteq> None | _ \<Rightarrow> False)"
    proof (cases "i = pm_message_id m")
      case True
      then show ?thesis using materialize(2,3) new by (intro bexI [of _ m]) simp_all
    next
      case False
      then obtain k where "k \<in> set ms" "pm_message_id k = i"
          "case pm_kind k of Commit bid _ _ _ _ _ _ \<Rightarrow> bt_get (gs_candidates g) bid \<noteq> None | _ \<Rightarrow> False"
        using i assms(3) by (auto simp: materialized_inv_def)
      then show ?thesis
        using grow by (intro bexI [of _ k]) (simp_all split: PeeledMessageKind.splits)
    qed
  qed
qed

lemma initial_graph_simps [simp]:
  "materialized_commit_ids (initial_graph cs) = []"
  "commit_path_by_branch (initial_graph cs) = bt_extend (map (\<lambda>c. (bc_id c, [])) cs) []"
  "gs_candidates (initial_graph cs) = bt_extend (map (\<lambda>c. (bc_id c, c)) cs) []"
  by (simp_all add: initial_graph_def)

lemma path_inv_initial: "path_inv ids (initial_graph cs)"
  by (auto simp: path_inv_def bt_get_eq_map_of [of "[]"] dest!: bt_get_extend_in [OF bt_inv_Nil])

lemma materialized_inv_initial: "materialized_inv ms (initial_graph cs)"
  by (simp add: materialized_inv_def)

lemma chain_inv_initial: "chain_inv inp mats ids (initial_graph (candidate_branches inp))"
proof -
  have "commit_chain inp mats ids c []" if "c \<in> set (candidate_branches inp)" for c
    using that by (intro commit_chain_start) (auto simp: chain_start_def)
  then show ?thesis
    by (auto simp: chain_inv_def bt_get_eq_map_of [of "[]"] dest!: bt_get_extend_in [OF bt_inv_Nil])
qed

definition start_graph :: "CanonicalizationInput \<Rightarrow> MaterializedCandidate list \<Rightarrow> GraphState" where
  "start_graph inp mats = fold insert_materialized mats (initial_graph (candidate_branches inp))"

lemma graph_wf_start: "graph_wf (start_graph inp mats)"
  by (simp add: start_graph_def graph_wf_fold_materialized graph_wf_initial)

lemma chain_inv_start: "chain_inv inp mats ids (start_graph inp mats)"
proof -
  have "graph_wf g \<Longrightarrow> chain_inv inp mats ids g \<Longrightarrow> set xs \<subseteq> set mats \<Longrightarrow>
      chain_inv inp mats ids (fold insert_materialized xs g)" for xs g
    by (induction xs arbitrary: g) (auto intro: graph_wf_insert_materialized chain_inv_insert_materialized)
  then show ?thesis by (simp add: start_graph_def graph_wf_initial chain_inv_initial)
qed

lemma materialized_inv_start: "materialized_inv ms (start_graph inp mats)"
proof -
  have "materialized_commit_ids (fold insert_materialized xs g) = materialized_commit_ids g" for xs g
    by (induction xs arbitrary: g) (auto simp: insert_materialized_def Let_def)
  then show ?thesis by (simp add: start_graph_def materialized_inv_def)
qed

definition final_graph :: "CanonicalizationInput \<Rightarrow> PeeledMessage list \<Rightarrow> MaterializedCandidate list \<Rightarrow> GraphState" where
  "final_graph inp uniq mats = materialize_loop inp (commit_messages uniq) (start_graph inp mats)"

lemma materialize_candidate_graph_simps:
  "mg_candidates (materialize_candidate_graph inp uniq mats) = bt_values (gs_candidates (final_graph inp uniq mats))"
  "mg_branch_ids (materialize_candidate_graph inp uniq mats) = bt_keys (gs_candidates (final_graph inp uniq mats))"
  "mg_commit_path (materialize_candidate_graph inp uniq mats) = commit_path_by_branch (final_graph inp uniq mats)"
  by (simp_all add: materialize_candidate_graph_def final_graph_def start_graph_def Let_def)

lemma final_graph_invariants:
  "graph_wf (final_graph inp uniq mats)"
  "materialized_inv (commit_messages uniq) (final_graph inp uniq mats)"
  "chain_inv inp mats (admissible_ids inp (commit_messages uniq)) (final_graph inp uniq mats)"
proof -
  let ?ms = "commit_messages uniq"
  let ?P = "\<lambda>g. graph_wf g \<and> materialized_inv ?ms g \<and> chain_inv inp mats (admissible_ids inp ?ms) g"
  have "?P (final_graph inp uniq mats)"
    unfolding final_graph_def
  proof (rule materialize_loop_invariant [where P = ?P])
    show "?P (start_graph inp mats)" by (simp add: graph_wf_start materialized_inv_start chain_inv_start)
  next
    fix h h'
    assume "?P h" "graph_step inp ?ms h h'"
    then show "?P h'"
      by (simp add: graph_wf_step materialized_inv_step chain_inv_step [OF _ _ _ subset_refl])
  qed
  then show "graph_wf (final_graph inp uniq mats)" "materialized_inv ?ms (final_graph inp uniq mats)"
    "chain_inv inp mats (admissible_ids inp ?ms) (final_graph inp uniq mats)" by blast+
qed

lemma set_commit_messages [simp]: "set (commit_messages ms) = {m \<in> set ms. is_commit m}"
  by (simp add: commit_messages_def)

lemma bt_values_iff: "bt_inv m \<Longrightarrow> v \<in> set (bt_values m) \<longleftrightarrow> (\<exists>k. bt_get m k = Some v)"
  by (auto simp: bt_values_def bt_in_set_iff [symmetric] image_iff) force

lemma graph_wf_path:
  assumes "graph_wf g" "bt_get (gs_candidates g) b = Some c"
  obtains p where "bt_get (commit_path_by_branch g) b = Some p"
proof -
  have "b \<in> dom (bt_get (commit_path_by_branch g))" using assms by (auto simp: graph_wf_def)
  then show thesis using that by auto
qed

lemma graph_wf_value: "graph_wf g \<Longrightarrow> c \<in> set (bt_values (gs_candidates g)) \<Longrightarrow> bt_get (gs_candidates g) (bc_id c) = Some c"
  by (auto simp: graph_wf_def bt_values_iff)

section \<open>The properties of materialization\<close>

text \<open>
  C11: Materialization is complete.  For any candidates of the input and any pre-materialized
  candidates, the loop ends in a graph in which every new commit message of the pass that is at or
  above the retained anchor, within the rewind horizon and epoch-increasing, and whose parent branch is
  present with a matching tip epoch, has its branch among the candidates; no later pass over the same
  messages would add one.
\<close>

theorem materialization_complete:
  fixes inp mats
  defines "graph \<equiv> materialize_candidate_graph inp (pass_uniq inp) mats"
  assumes "m \<in> set (pass_uniq inp)"
    and "pm_kind m = Commit bid parent fork resulting prio digest consumed"
    and "retained_anchor_epoch (in_state inp) \<le> fork"
    and "sat_sub (current_tip_epoch (in_state inp)) fork \<le> max_rewind_commits (pol_convergence (in_policy inp))"
    and "pm_source_epoch m < resulting"
    and "case parent of None \<Rightarrow> pm_source_epoch m = fork
         | Some pid \<Rightarrow> \<exists>c \<in> set (mg_candidates graph). bc_id c = pid \<and> tip_epoch c = pm_source_epoch m"
  shows "bid \<in> set (mg_branch_ids graph)"
proof (rule ccontr)
  let ?ms = "commit_messages (pass_uniq inp)"
  let ?g = "final_graph inp (pass_uniq inp) mats"
  note inv = final_graph_invariants [where inp = inp and uniq = "pass_uniq inp" and mats = mats]
  assume "bid \<notin> set (mg_branch_ids graph)"
  then have free: "bt_get (gs_candidates ?g) bid = None"
    by (auto simp: graph_def materialize_candidate_graph_simps set_bt_keys)
  have mem: "m \<in> set ?ms" using assms(2,3) by (simp add: is_commit_def)
  have "pm_message_id m \<notin> set (materialized_commit_ids ?g)"
  proof
    assume "pm_message_id m \<in> set (materialized_commit_ids ?g)"
    then obtain k where k: "k \<in> set (pass_uniq inp)" "pm_message_id k = pm_message_id m"
        "case pm_kind k of Commit bid _ _ _ _ _ _ \<Rightarrow> bt_get (gs_candidates ?g) bid \<noteq> None | _ \<Rightarrow> False"
      using inv(2) by (auto simp: materialized_inv_def)
    then have "k = m" using pass_uniq_distinct [of inp] assms(2) by (simp add: distinct_map inj_on_def)
    then show False using k(3) assms(3) free by simp
  qed
  then have unblocked: "\<not> commit_blocked inp ?g (pm_message_id m) (pm_source_epoch m) bid fork resulting"
    using assms(4-6) free by (simp add: commit_blocked_def not_less not_le)
  have "source_epoch_matches_parent parent (pm_source_epoch m) fork (gs_candidates ?g) \<and>
      (\<exists>rp. resolve_parent parent fork ?g = Some rp)"
  proof (cases parent)
    case None
    then show ?thesis using assms(7) by (simp add: source_epoch_matches_parent_def resolve_parent_def)
  next
    case (Some pid)
    then obtain c where "c \<in> set (bt_values (gs_candidates ?g))" "bc_id c = pid" "tip_epoch c = pm_source_epoch m"
      using assms(7) by (auto simp: graph_def materialize_candidate_graph_simps)
    then have "bt_get (gs_candidates ?g) pid = Some c" using graph_wf_value [OF inv(1)] by blast
    then show ?thesis
      using Some \<open>tip_epoch c = pm_source_epoch m\<close>
      by (simp add: source_epoch_matches_parent_def resolve_parent_def)
  qed
  then show False
    using graph_step.materialize [OF mem assms(3) unblocked] materialize_loop_normal
    unfolding final_graph_def by blast
qed

text \<open>A pre-materialized branch \<open>M\<close> of two commits, and a new commit \<open>c9\<close> on top of it.\<close>

definition ex_premade :: MaterializedCandidate where
  "ex_premade =
     \<lparr> mc_branch = \<lparr> bc_id = ''M'', fork_epoch = 4, tip_epoch = 6, tip_priority = Ordinary,
         tip_committer = [1], tip_digest = [5], app_witnesses = [] \<rparr>,
       mc_commit_message_ids = [''m1'', ''m2''], mc_consumed_proposal_ids = [] \<rparr>"

definition ex_c9 :: PeeledMessage where
  "ex_c9 = ex_msg ''c9'' [2] 6 (Commit ''N'' (Some ''M'') 4 7 Ordinary [3] [])"

definition ex_tip :: BranchCandidate where
  "ex_tip = \<lparr> bc_id = ''N'', fork_epoch = 4, tip_epoch = 7, tip_priority = Ordinary, tip_committer = [2],
     tip_digest = [3], app_witnesses = [] \<rparr>"

lemma ex_premade_graph:
  "mc_branch ex_premade \<in> set (mg_candidates (materialize_candidate_graph (ex_input [ex_c9]) (pass_uniq (ex_input [ex_c9])) [ex_premade]))"
  "ex_tip \<in> set (mg_candidates (materialize_candidate_graph (ex_input [ex_c9]) (pass_uniq (ex_input [ex_c9])) [ex_premade]))"
  by code_simp+

theorem materialization_complete_witness:
  "''N'' \<in> set (mg_branch_ids (materialize_candidate_graph (ex_input [ex_c9]) (pass_uniq (ex_input [ex_c9])) [ex_premade]))"
proof (rule materialization_complete)
  show "pm_kind ex_c9 = Commit ''N'' (Some ''M'') 4 7 Ordinary [3] []" by code_simp
  show "ex_c9 \<in> set (pass_uniq (ex_input [ex_c9]))" by code_simp
  show "retained_anchor_epoch (in_state (ex_input [ex_c9])) \<le> 4" by code_simp
  show "sat_sub (current_tip_epoch (in_state (ex_input [ex_c9]))) 4
      \<le> max_rewind_commits (pol_convergence (in_policy (ex_input [ex_c9])))" by code_simp
  show "pm_source_epoch ex_c9 < 7" by code_simp
  have "bc_id (mc_branch ex_premade) = ''M'' \<and> tip_epoch (mc_branch ex_premade) = pm_source_epoch ex_c9" by code_simp
  then show "case Some ''M'' of None \<Rightarrow> pm_source_epoch ex_c9 = 4
      | Some pid \<Rightarrow> \<exists>c \<in> set (mg_candidates (materialize_candidate_graph (ex_input [ex_c9]) (pass_uniq (ex_input [ex_c9])) [ex_premade])).
          bc_id c = pid \<and> tip_epoch c = pm_source_epoch ex_c9"
    using ex_premade_graph(1) by auto
qed

text \<open>
  C12: A materialized branch is a chain of admitted commits on a given start.  For any candidates of the
  input and any pre-materialized candidates, the commit path of every candidate of the graph is the path
  of a start with the candidate's fork epoch (the fork itself or a candidate of the input, with no
  commits, or a pre-materialized candidate, with its commits) followed by ids of new commit messages of
  the pass that are at or above the retained anchor, within the rewind horizon and epoch-increasing.
  Every appended commit raises the tip by at least one epoch, so a branch cannot carry more new commits
  than epochs between its start and its tip.
\<close>

theorem materialized_paths_admissible:
  fixes inp mats
  defines "graph \<equiv> materialize_candidate_graph inp (pass_uniq inp) mats"
  assumes "c \<in> set (mg_candidates graph)"
  shows "\<exists>q added e. bt_get (mg_commit_path graph) (bc_id c) = Some (q @ added)
       \<and> (q = [] \<and> e = fork_epoch c
          \<or> (\<exists>s \<in> set (candidate_branches inp). q = [] \<and> fork_epoch s = fork_epoch c \<and> e = tip_epoch s)
          \<or> (\<exists>x \<in> set mats. q = mc_commit_message_ids x \<and> fork_epoch (mc_branch x) = fork_epoch c
               \<and> e = tip_epoch (mc_branch x)))
       \<and> set added \<subseteq> pm_message_id ` {m \<in> set (pass_uniq inp). commit_admissible inp m}
       \<and> unat e + length added \<le> unat (tip_epoch c)"
proof -
  let ?g = "final_graph inp (pass_uniq inp) mats"
  note inv = final_graph_invariants [where inp = inp and uniq = "pass_uniq inp" and mats = mats]
  have "c \<in> set (bt_values (gs_candidates ?g))"
    using assms(2) by (simp add: graph_def materialize_candidate_graph_simps)
  then have c: "bt_get (gs_candidates ?g) (bc_id c) = Some c" by (rule graph_wf_value [OF inv(1)])
  obtain p where p: "bt_get (commit_path_by_branch ?g) (bc_id c) = Some p"
    using graph_wf_path [OF inv(1) c] .
  have "commit_chain inp mats (admissible_ids inp (commit_messages (pass_uniq inp))) c p"
    using inv(3) c p by (simp add: chain_inv_def)
  then obtain q added e where q: "p = q @ added" "chain_start inp mats (fork_epoch c) q e"
      "set added \<subseteq> admissible_ids inp (commit_messages (pass_uniq inp))" "unat e + length added \<le> unat (tip_epoch c)"
    unfolding commit_chain_def by blast
  have "admissible_ids inp (commit_messages (pass_uniq inp)) \<subseteq> pm_message_id ` {m \<in> set (pass_uniq inp). commit_admissible inp m}"
    by (auto simp: admissible_ids_def)
  then have "set added \<subseteq> pm_message_id ` {m \<in> set (pass_uniq inp). commit_admissible inp m}" using q(3) by (rule subset_trans [rotated])
  moreover have "bt_get (mg_commit_path graph) (bc_id c) = Some (q @ added)"
    using p q(1) by (simp add: graph_def materialize_candidate_graph_simps)
  ultimately show ?thesis using q(2,4) unfolding chain_start_def by blast
qed

theorem materialized_paths_admissible_witness:
  "\<exists>q added. bt_get (mg_commit_path (materialize_candidate_graph (ex_input [ex_c9]) (pass_uniq (ex_input [ex_c9])) [ex_premade])) ''N''
       = Some (q @ added)
     \<and> set added \<subseteq> pm_message_id ` {m \<in> set (pass_uniq (ex_input [ex_c9])). commit_admissible (ex_input [ex_c9]) m}"
proof -
  have "bc_id ex_tip = ''N''" by (simp add: ex_tip_def)
  then show ?thesis using materialized_paths_admissible [OF ex_premade_graph(2)] by auto
qed

end
