(* ===== verification/Canonical_Disposition.thy ===== *)
theory Canonical_Disposition
  imports Canonical_Graph
begin

text \<open>
  What a canonicalization pass decides about each message.  The handlers of
  \<^verbatim>\<open>canonicalization.rs\<close> append to the result; here each handler is shown to append the entry
  of a \<open>disposition\<close> that depends on the message alone, so that a pass is the concatenation
  of its messages' dispositions.  The properties on status, outbound gating and application
  messages follow.
\<close>

section \<open>Dispositions\<close>

datatype disposition =
    AcceptCommit string
  | AcceptProposal string
  | AcceptApp string
  | Invalidate InvalidatedAppMessage
  | Drop DroppedMessage
  | Undecided

definition commit_disposition where
  "commit_disposition inp sel cids bids m bid fork =
     (if fork < retained_anchor_epoch (in_state inp) then Drop (dropped m BeyondAnchor)
      else if sat_sub (current_tip_epoch (in_state inp)) fork
                > max_rewind_commits (pol_convergence (in_policy inp))
      then Drop (dropped m BeyondRollbackHorizon)
      else if pm_message_id m \<in> set cids then Undecided
      else if Some bid = sel then AcceptCommit (pm_message_id m)
      else if bid \<in> set bids \<and> sel \<noteq> None then Drop (dropped m InvalidAgainstCandidateState)
      else Undecided)"

definition proposal_disposition where
  "proposal_disposition inp sel consumed path bids m bid =
     (if pm_source_epoch m < retained_anchor_epoch (in_state inp) then Drop (dropped m BeyondAnchor)
      else if pm_message_id m \<in> set consumed then AcceptProposal (pm_message_id m)
      else if bid \<in> set bids \<and> bid \<notin> set path \<and> sel \<noteq> None
      then Drop (dropped m InvalidAgainstCandidateState)
      else Undecided)"

definition app_disposition where
  "app_disposition inp sel m epoch branches payload =
     (if epoch < retained_anchor_epoch (in_state inp)
      then Invalidate (invalidated_app m epoch InvBeyondAnchor payload)
      else if app_message_expired (current_tip_epoch (in_state inp)) (in_policy inp) epoch
      then Invalidate (invalidated_app m epoch InvBeyondAppRetention payload)
      else if sel \<in> Some ` set branches then AcceptApp (pm_message_id m)
      else if branches = []
      then Invalidate (invalidated_app m epoch UndecryptableInCanonicalState payload)
      else Invalidate (invalidated_app m epoch LosingBranch payload))"

definition disposition where
  "disposition inp sel cids consumed path bids m =
     (case pm_kind m of
        Commit bid _ fork _ _ _ _ \<Rightarrow> commit_disposition inp sel cids bids m bid fork
      | Proposal bid \<Rightarrow> proposal_disposition inp sel consumed path bids m bid
      | AppMessage epoch branches payload \<Rightarrow> app_disposition inp sel m epoch branches payload)"

fun accept_commit_of :: "disposition \<Rightarrow> string list" where
  "accept_commit_of (AcceptCommit i) = [i]" | "accept_commit_of _ = []"

fun accept_proposal_of :: "disposition \<Rightarrow> string list" where
  "accept_proposal_of (AcceptProposal i) = [i]" | "accept_proposal_of _ = []"

fun accept_app_of :: "disposition \<Rightarrow> string list" where
  "accept_app_of (AcceptApp i) = [i]" | "accept_app_of _ = []"

fun invalidate_of :: "disposition \<Rightarrow> InvalidatedAppMessage list" where
  "invalidate_of (Invalidate i) = [i]" | "invalidate_of _ = []"

fun drop_of :: "disposition \<Rightarrow> DroppedMessage list" where
  "drop_of (Drop i) = [i]" | "drop_of _ = []"

definition apply_dispositions :: "disposition list \<Rightarrow> CanonicalizationResult \<Rightarrow> CanonicalizationResult" where
  "apply_dispositions ds r =
     r \<lparr> accepted_commits := accepted_commits r @ concat (map accept_commit_of ds),
         accepted_proposals := accepted_proposals r @ concat (map accept_proposal_of ds),
         accepted_app_messages := accepted_app_messages r @ concat (map accept_app_of ds),
         invalidated_app_messages := invalidated_app_messages r @ concat (map invalidate_of ds),
         dropped_messages := dropped_messages r @ concat (map drop_of ds) \<rparr>"

lemmas push_defs = push_dropped_def push_invalidated_def
lemmas disposition_defs = disposition_def commit_disposition_def proposal_disposition_def app_disposition_def

lemma apply_dispositions_selected [simp]: "selected_branch_id (apply_dispositions ds r) = selected_branch_id r"
  by (simp add: apply_dispositions_def)

lemma apply_dispositions_Nil [simp]: "apply_dispositions [] r = r"
  by (simp add: apply_dispositions_def)

lemma apply_dispositions_append:
  "apply_dispositions es (apply_dispositions ds r) = apply_dispositions (ds @ es) r"
  by (simp add: apply_dispositions_def)

lemma apply_Drop: "apply_dispositions [Drop d] r = push_dropped d r"
  by (simp add: apply_dispositions_def push_defs)

lemma apply_Invalidate: "apply_dispositions [Invalidate d] r = push_invalidated d r"
  by (simp add: apply_dispositions_def push_defs)

lemma apply_AcceptCommit:
  "apply_dispositions [AcceptCommit i] r = r \<lparr> accepted_commits := accepted_commits r @ [i] \<rparr>"
  by (simp add: apply_dispositions_def)

lemma apply_AcceptProposal:
  "apply_dispositions [AcceptProposal i] r = r \<lparr> accepted_proposals := accepted_proposals r @ [i] \<rparr>"
  by (simp add: apply_dispositions_def)

lemma apply_AcceptApp:
  "apply_dispositions [AcceptApp i] r = r \<lparr> accepted_app_messages := accepted_app_messages r @ [i] \<rparr>"
  by (simp add: apply_dispositions_def)

lemma apply_Undecided: "apply_dispositions [Undecided] r = r"
  by (simp add: apply_dispositions_def)

lemmas apply_singles = apply_Drop apply_Invalidate apply_AcceptCommit apply_AcceptProposal
  apply_AcceptApp apply_Undecided

lemma handle_message_disposition:
  "handle_message inp cids consumed path bids m r =
   apply_dispositions [disposition inp (selected_branch_id r) cids consumed path bids m] r"
proof (cases "pm_kind m")
  case (Commit bid parent fork resulting prio digest cons)
  then show ?thesis
    by (auto simp: handle_message_def handle_commit_def disposition_def commit_disposition_def apply_singles)
next
  case (Proposal bid)
  then show ?thesis
    by (auto simp: handle_message_def handle_proposal_def disposition_def proposal_disposition_def apply_singles)
next
  case (AppMessage epoch branches payload)
  then show ?thesis
    by (cases "selected_branch_id r")
      (auto simp: handle_message_def handle_app_message_def disposition_def app_disposition_def apply_singles)
qed

lemma fold_handle_message:
  "fold (handle_message inp cids consumed path bids) ms r =
   apply_dispositions (map (disposition inp (selected_branch_id r) cids consumed path bids) ms) r"
proof (induction ms arbitrary: r)
  case (Cons m ms)
  show ?case
    using handle_message_disposition [of inp cids consumed path bids m r]
    by (simp add: Cons.IH apply_dispositions_append)
qed simp

section \<open>Losing materialized commits\<close>

fun losing_drops :: "string list \<Rightarrow> string set \<Rightarrow> DroppedMessage list" where
  "losing_drops [] known = []"
| "losing_drops (i # is) known =
     (if i \<in> known then losing_drops is known
      else \<lparr> dm_message_id = i, dm_kind = KCommit, dm_reason = InvalidAgainstCandidateState \<rparr>
           # losing_drops is (insert i known))"

definition losing_ids :: "string option \<Rightarrow> (string, string list) btmap \<Rightarrow> string list" where
  "losing_ids sel by_branch =
     (case sel of None \<Rightarrow> [] | Some s \<Rightarrow> concat (map snd (filter (\<lambda>e. fst e \<noteq> s) by_branch)))"

lemma losing_drops_append:
  "losing_drops (is @ js) known =
     losing_drops is known @ losing_drops js (known \<union> dm_message_id ` set (losing_drops is known))"
  by (induction "is" known rule: losing_drops.induct) auto

lemma losing_drops_ids: "known \<union> dm_message_id ` set (losing_drops is known) = known \<union> set is"
  by (induction "is" known rule: losing_drops.induct) auto

lemma fold_drop_losing_commit:
  "fold drop_losing_commit ids r =
     r \<lparr> dropped_messages := dropped_messages r @ losing_drops ids (dm_message_id ` set (dropped_messages r)) \<rparr>"
proof (induction ids arbitrary: r)
  case (Cons i ids)
  show ?case
  proof (cases "i \<in> dm_message_id ` set (dropped_messages r)")
    case True
    then show ?thesis using Cons.IH [of r] by (simp add: drop_losing_commit_def)
  next
    case False
    let ?d = "\<lparr> dm_message_id = i, dm_kind = KCommit, dm_reason = InvalidAgainstCandidateState \<rparr>"
    have "fold drop_losing_commit (i # ids) r = fold drop_losing_commit ids (push_dropped ?d r)"
      using False by (simp add: drop_losing_commit_def)
    then show ?thesis using False by (simp add: Cons.IH push_defs)
  qed
qed simp

lemma drop_losing_fold:
  "fold (\<lambda>(bid, commit_ids) r. if bid = s then r else fold drop_losing_commit commit_ids r) es r =
     r \<lparr> dropped_messages := dropped_messages r @
           losing_drops (concat (map snd (filter (\<lambda>e. fst e \<noteq> s) es))) (dm_message_id ` set (dropped_messages r)) \<rparr>"
proof (induction es arbitrary: r)
  case (Cons e es)
  show ?case
    by (cases e) (simp add: Cons.IH fold_drop_losing_commit losing_drops_append image_Un Un_commute)
qed simp

lemma drop_losing_materialized:
  "drop_losing_materialized_candidate_commits by_branch r =
     r \<lparr> dropped_messages := dropped_messages r @
           losing_drops (losing_ids (selected_branch_id r) by_branch) (dm_message_id ` set (dropped_messages r)) \<rparr>"
  by (simp add: drop_losing_materialized_candidate_commits_def losing_ids_def drop_losing_fold
      split: option.splits)

section \<open>The fields of a result\<close>

definition pass_seen :: "CanonicalizationInput \<Rightarrow> AlreadySeen list" where
  "pass_seen inp = fst (dedup_messages (seen_message_ids (in_state inp)) (pending_messages inp))"

definition pass_graph :: "CanonicalizationInput \<Rightarrow> MaterializedCandidate list \<Rightarrow> MaterializedGraph" where
  "pass_graph inp mats =
     attach_app_witnesses (materialize_candidate_graph inp (pass_uniq inp) mats) (pass_uniq inp) (in_policy inp)"

definition pass_dispositions ::
  "CanonicalizationInput \<Rightarrow> MaterializedGraph \<Rightarrow> string option \<Rightarrow> PeeledMessage list \<Rightarrow> disposition list" where
  "pass_dispositions inp g sel uniq =
     map (disposition inp sel (bs_of_list (get_selected (mg_commit_path g) sel))
       (get_selected (mg_consumed g) sel) (get_selected (mg_branch_path g) sel) (mg_branch_ids g)) uniq"

lemma canonicalize_internal_eq:
  "canonicalize_internal hex inp mats =
     finish_result inp (dispose_messages inp (pass_graph inp mats) (pass_uniq inp)
       (initial_result hex inp (pass_seen inp) (mg_candidates (pass_graph inp mats))))"
  by (simp add: canonicalize_internal_def pass_graph_def pass_uniq_def pass_seen_def Let_def
      split: prod.splits)

lemma dispose_messages_eq:
  "dispose_messages inp g uniq r0 =
     (let sel = selected_branch_id r0; ds = pass_dispositions inp g sel uniq;
          r2 = apply_dispositions ds (r0 \<lparr> accepted_commits := get_selected (mg_commit_path g) sel \<rparr>)
      in r2 \<lparr> dropped_messages := dropped_messages r2 @
           losing_drops (losing_ids sel (mg_materialized g)) (dm_message_id ` set (dropped_messages r2)) \<rparr>)"
  by (simp add: dispose_messages_def Let_def fold_handle_message drop_losing_materialized pass_dispositions_def)

lemma initial_result_simps [simp]:
  "accepted_proposals (initial_result hex inp seen cs) = []"
  "accepted_app_messages (initial_result hex inp seen cs) = []"
  "invalidated_app_messages (initial_result hex inp seen cs) = []"
  "dropped_messages (initial_result hex inp seen cs) = []"
  "already_seen (initial_result hex inp seen cs) = seen"
  "queued_outbound_intents (initial_result hex inp seen cs) = []"
  "publishable_outbound_messages (initial_result hex inp seen cs) = []"
  "MissingRetainedAnchor \<notin> set (errors (initial_result hex inp seen cs))"
  by (simp_all add: initial_result_def Let_def)

lemma selected_branch_id_initial:
  "selected_branch_id (initial_result hex inp seen cs) =
     map_option bc_id (select_canonical_branch (current_tip_epoch (in_state inp)) cs
       (pol_convergence (in_policy inp)))"
  by (simp add: initial_result_def Let_def)

lemma dispose_messages_simps:
  fixes inp g uniq r0
  defines "sel \<equiv> selected_branch_id r0"
  defines "ds \<equiv> pass_dispositions inp g sel uniq"
  defines "drops \<equiv> dropped_messages r0 @ concat (map drop_of ds)"
  defines "r \<equiv> dispose_messages inp g uniq r0"
  shows "selected_branch_id r = sel" "errors r = errors r0" "already_seen r = already_seen r0"
    "queued_outbound_intents r = queued_outbound_intents r0"
    "publishable_outbound_messages r = publishable_outbound_messages r0"
    "accepted_commits r = get_selected (mg_commit_path g) sel @ concat (map accept_commit_of ds)"
    "accepted_proposals r = accepted_proposals r0 @ concat (map accept_proposal_of ds)"
    "accepted_app_messages r = accepted_app_messages r0 @ concat (map accept_app_of ds)"
    "invalidated_app_messages r = invalidated_app_messages r0 @ concat (map invalidate_of ds)"
    "dropped_messages r = drops @ losing_drops (losing_ids sel (mg_materialized g)) (dm_message_id ` set drops)"
  unfolding r_def ds_def sel_def drops_def
  by (simp_all add: dispose_messages_eq Let_def apply_dispositions_def)

lemma finish_result_simps:
  "selected_branch_id (finish_result inp r) = selected_branch_id r"
  "accepted_commits (finish_result inp r) = accepted_commits r"
  "accepted_proposals (finish_result inp r) = sort (accepted_proposals r)"
  "accepted_app_messages (finish_result inp r) = sort (accepted_app_messages r)"
  "invalidated_app_messages (finish_result inp r) = sort_key invalidated_key (invalidated_app_messages r)"
  "dropped_messages (finish_result inp r) = sort_key dropped_key (dropped_messages r)"
  "already_seen (finish_result inp r) = sort_key already_seen_key (already_seen r)"
  "errors (finish_result inp r) = sort_key error_rank (errors r)"
  "convergence_status (finish_result inp r) = convergence_status_for_result inp (pending_messages inp) r"
  "queued_outbound_intents (finish_result inp r) = sort_key intent_key
     (if convergence_status_for_result inp (pending_messages inp) r = Settled
      then queued_outbound_intents r else outbound_intents inp)"
  "publishable_outbound_messages (finish_result inp r) = sort_key intent_key
     (if convergence_status_for_result inp (pending_messages inp) r = Settled
      then outbound_intents inp else publishable_outbound_messages r)"
  by (simp_all add: finish_result_def sort_result_def Let_def)

lemmas pass_simps = canonicalize_internal_eq finish_result_simps dispose_messages_simps

definition disposed_ids :: "CanonicalizationResult \<Rightarrow> string set" where
  "disposed_ids r = set (accepted_commits r) \<union> set (accepted_proposals r) \<union> set (accepted_app_messages r)
     \<union> dm_message_id ` set (dropped_messages r) \<union> ia_message_id ` set (invalidated_app_messages r)
     \<union> as_message_id ` set (already_seen r)"

lemma set_resolved_ids: "set (resolved_ids r) = disposed_ids r"
  by (auto simp: resolved_ids_def disposed_ids_def)

lemma disposed_ids_finish [simp]: "disposed_ids (finish_result inp r) = disposed_ids r"
  by (simp add: disposed_ids_def finish_result_simps)

section \<open>Deduplication\<close>

lemma dedup_uniq:
  "inj_on pm_message_id (set ms) \<Longrightarrow>
   set (snd (dedup_messages obs ms)) = {m \<in> set ms. pm_message_id m \<notin> set obs}"
proof (induction obs ms rule: dedup_messages.induct)
  case (2 obs m ms)
  then have inj: "inj_on pm_message_id (set ms)" by (auto simp: inj_on_def)
  have same: "x = m" if "x \<in> set ms" "pm_message_id x = pm_message_id m" for x
    using 2(3) that by (auto simp: inj_on_def)
  show ?case
    using 2(1) [OF _ inj] 2(2) [OF _ inj] same
    by (auto simp: set_insort_insert split: prod.splits)
qed simp

lemma dedup_mset:
  "mset (map (\<lambda>m. \<lparr> as_message_id = pm_message_id m, as_kind = kind_name (pm_kind m) \<rparr>) ms) =
   mset (fst (dedup_messages obs ms)) +
   mset (map (\<lambda>m. \<lparr> as_message_id = pm_message_id m, as_kind = kind_name (pm_kind m) \<rparr>)
     (snd (dedup_messages obs ms)))"
  by (induction obs ms rule: dedup_messages.induct) (auto split: prod.splits)

lemma pass_uniq_set:
  "inj_on pm_message_id (set (pending_messages inp)) \<Longrightarrow>
   set (pass_uniq inp) = {m \<in> set (pending_messages inp). pm_message_id m \<notin> set (seen_message_ids (in_state inp))}"
  by (simp add: pass_uniq_def dedup_uniq)

section \<open>Application messages\<close>

definition app_reason ::
  "CanonicalizationInput \<Rightarrow> string option \<Rightarrow> u64 \<Rightarrow> string list \<Rightarrow> InvalidatedAppMessageReason option" where
  "app_reason inp sel epoch branches =
     (if epoch < retained_anchor_epoch (in_state inp) then Some InvBeyondAnchor
      else if app_message_expired (current_tip_epoch (in_state inp)) (in_policy inp) epoch
      then Some InvBeyondAppRetention
      else if sel \<in> Some ` set branches then None
      else if branches = [] then Some UndecryptableInCanonicalState
      else Some LosingBranch)"

lemma app_disposition_reason:
  "app_disposition inp sel m epoch branches payload =
     (case app_reason inp sel epoch branches of
        None \<Rightarrow> AcceptApp (pm_message_id m)
      | Some reason \<Rightarrow> Invalidate (invalidated_app m epoch reason payload))"
  by (simp add: app_disposition_def app_reason_def)

lemma accept_app_of_disposition:
  "i \<in> set (accept_app_of (disposition inp sel cids cons path bids m)) \<Longrightarrow> i = pm_message_id m"
  by (auto simp: disposition_defs split: PeeledMessageKind.splits if_splits)

lemma invalidate_of_disposition:
  "x \<in> set (invalidate_of (disposition inp sel cids cons path bids m)) \<Longrightarrow> ia_message_id x = pm_message_id m"
  by (auto simp: disposition_defs invalidated_app_def split: PeeledMessageKind.splits if_splits)

text \<open>Among messages with different ids, the entries that carry an id come from its own message.\<close>

lemma concat_filter_by_id:
  assumes "distinct (map f ms)" "m \<in> set ms"
    and "\<And>k x. k \<in> set ms \<Longrightarrow> x \<in> set (h k) \<Longrightarrow> idf x = f k"
  shows "filter (\<lambda>x. idf x = f m) (concat (map h ms)) = h m"
  using assms
proof (induction ms)
  case (Cons k ks)
  have rest: "filter (\<lambda>x. idf x = f m) (concat (map h ks)) = []" if "f m \<notin> f ` set ks"
    using that Cons.prems(3) by (fastforce simp: filter_empty_conv image_iff)
  show ?case
  proof (cases "m = k")
    case True
    then have "filter (\<lambda>x. idf x = f m) (h k) = h m" using Cons.prems(3) by (auto simp: filter_id_conv)
    then show ?thesis using rest Cons.prems(1) True by simp
  next
    case False
    then have mk: "m \<in> set ks" using Cons.prems by auto
    then have "f m \<noteq> f k" using Cons.prems(1) by (force simp: image_iff)
    then have "filter (\<lambda>x. idf x = f m) (h k) = []"
      using Cons.prems(3) [of k] by (auto simp: filter_empty_conv)
    then show ?thesis using Cons mk by simp
  qed
qed simp

lemma filter_sort_key_short:
  assumes "length (filter P xs) \<le> 1" shows "filter P (sort_key f xs) = filter P xs"
proof -
  have m: "mset (filter P (sort_key f xs)) = mset (filter P xs)" by (simp only: mset_filter mset_sort)
  show ?thesis
  proof (cases "filter P xs")
    case Nil
    then show ?thesis by (simp add: filter_empty_conv)
  next
    case (Cons x ys)
    then have "mset (filter P (sort_key f xs)) = {#x#}" using m assms by simp
    then show ?thesis using Cons assms by (simp only: mset_single_iff) simp
  qed
qed

lemma length_of_disposition:
  "length (accept_app_of d) \<le> 1" "length (invalidate_of d) \<le> 1"
  by (cases d; simp)+

text \<open>
  C9: Every new application message gets exactly one disposition, the one of its epoch
  and branches.  It is delivered if its epoch is at or above the retained anchor, within the
  retention window of the current tip, and it decrypts on the selected branch; otherwise the
  result has exactly one invalidation entry for it, with the first reason that applies, and the
  message is not delivered.
\<close>

theorem app_message_disposition_unique:
  fixes hex inp mats
  defines "r \<equiv> canonicalize_with_materialized_candidates hex inp mats"
  assumes "inj_on pm_message_id (set (pending_messages inp))"
    and "m \<in> set (pending_messages inp)" "pm_message_id m \<notin> set (seen_message_ids (in_state inp))"
    and "pm_kind m = AppMessage epoch branches payload"
  shows "filter (\<lambda>i. i = pm_message_id m) (accepted_app_messages r) =
           (if epoch \<ge> retained_anchor_epoch (in_state inp)
               \<and> \<not> app_message_expired (current_tip_epoch (in_state inp)) (in_policy inp) epoch
               \<and> selected_branch_id r \<in> Some ` set branches
            then [pm_message_id m] else [])
       \<and> filter (\<lambda>x. ia_message_id x = pm_message_id m) (invalidated_app_messages r) =
           (case app_reason inp (selected_branch_id r) epoch branches of
              None \<Rightarrow> [] | Some reason \<Rightarrow> [invalidated_app m epoch reason payload])"
proof -
  let ?g = "pass_graph inp mats" and ?u = "pass_uniq inp" and ?s = "selected_branch_id r"
  let ?d = "disposition inp ?s (bs_of_list (get_selected (mg_commit_path ?g) ?s))
       (get_selected (mg_consumed ?g) ?s) (get_selected (mg_branch_path ?g) ?s) (mg_branch_ids ?g)"
  have m: "m \<in> set ?u" using assms by (simp add: pass_uniq_set)
  have dm: "?d m = app_disposition inp ?s m epoch branches payload"
    using assms(5) by (simp add: disposition_def)
  have acc: "accepted_app_messages r = sort (concat (map (\<lambda>m. accept_app_of (?d m)) ?u))"
    by (simp add: r_def canonicalize_with_materialized_candidates_def pass_simps pass_dispositions_def comp_def)
  have inv: "invalidated_app_messages r =
      sort_key invalidated_key (concat (map (\<lambda>m. invalidate_of (?d m)) ?u))"
    by (simp add: r_def canonicalize_with_materialized_candidates_def pass_simps pass_dispositions_def comp_def)
  have a: "filter (\<lambda>i. i = pm_message_id m) (concat (map (\<lambda>m. accept_app_of (?d m)) ?u)) = accept_app_of (?d m)"
    using concat_filter_by_id [where idf = "\<lambda>i. i" and h = "\<lambda>m. accept_app_of (?d m)", OF pass_uniq_distinct m]
      accept_app_of_disposition by blast
  have i: "filter (\<lambda>x. ia_message_id x = pm_message_id m) (concat (map (\<lambda>m. invalidate_of (?d m)) ?u)) = invalidate_of (?d m)"
    using concat_filter_by_id [where idf = ia_message_id and h = "\<lambda>m. invalidate_of (?d m)", OF pass_uniq_distinct m]
      invalidate_of_disposition by blast
  have fa: "filter (\<lambda>i. i = pm_message_id m) (accepted_app_messages r) = accept_app_of (?d m)"
    using filter_sort_key_short [of "\<lambda>i. i = pm_message_id m" _ "\<lambda>x. x"] a length_of_disposition(1)
    unfolding acc by (metis (no_types, lifting))
  have fi: "filter (\<lambda>x. ia_message_id x = pm_message_id m) (invalidated_app_messages r) = invalidate_of (?d m)"
    using filter_sort_key_short [of "\<lambda>x. ia_message_id x = pm_message_id m" _ invalidated_key] i
      length_of_disposition(2) unfolding inv by (metis (no_types, lifting))
  show ?thesis
    unfolding fa fi dm app_disposition_reason by (simp add: app_reason_def not_less not_le)
qed

lemma canonicalize_selected:
  "selected_branch_id (canonicalize_internal hex inp mats) =
     map_option bc_id (select_canonical_branch (current_tip_epoch (in_state inp))
       (mg_candidates (pass_graph inp mats)) (pol_convergence (in_policy inp)))"
  by (simp add: pass_simps selected_branch_id_initial)

lemma ex_pass_selected: "selected_branch_id (canonicalize_internal hex ex_pass []) = Some ''A''"
  unfolding canonicalize_selected by code_simp

lemma ex_pass_inj: "inj_on pm_message_id (set (pending_messages ex_pass))"
  by (simp add: ex_input_def ex_msg_def ex_c1_def ex_c2_def ex_p1_def ex_a1_def ex_a2_def)

theorem app_message_disposition_unique_witness:
  "filter (\<lambda>i. i = ''a1'') (accepted_app_messages (canonicalize_with_materialized_candidates ex_hex ex_pass [])) = [''a1'']"
proof -
  have m: "ex_a1 \<in> set (pending_messages ex_pass)" "pm_message_id ex_a1 \<notin> set (seen_message_ids (in_state ex_pass))"
    by code_simp+
  have k: "pm_kind ex_a1 = AppMessage 5 [''A''] None" "pm_message_id ex_a1 = ''a1''" by code_simp+
  have e: "(5 :: u64) \<ge> retained_anchor_epoch (in_state ex_pass)
      \<and> \<not> app_message_expired (current_tip_epoch (in_state ex_pass)) (in_policy ex_pass) 5"
    by code_simp
  show ?thesis
    using app_message_disposition_unique [OF ex_pass_inj m k(1), of ex_hex "[]"] e k(2)
    by (simp add: canonicalize_with_materialized_candidates_def ex_pass_selected)
qed

section \<open>Status and outbound gating\<close>

lemma status_not_blocked:
  "MissingRetainedAnchor \<notin> set (errors r) \<Longrightarrow> convergence_status_for_result inp ms r \<noteq> Blocked"
  by (auto simp: convergence_status_for_result_def has_blocking_convergence_error_def Let_def)

lemma pass_errors: "MissingRetainedAnchor \<notin> set (errors (dispose_messages inp g uniq (initial_result hex inp seen cs)))"
  by (simp add: dispose_messages_simps)

text \<open>
  C10: Outbound traffic is released exactly by a settled pass.  A pass reports \<^verbatim>\<open>Syncing\<close> while
  the quiescence window is open and never \<^verbatim>\<open>Blocked\<close>; it reports \<^verbatim>\<open>Settled\<close> iff the window is
  closed and every pending message other than a proposal has a disposition in the result; all
  outbound intents are publishable if the pass settled and all of them stay queued otherwise.
\<close>

theorem outbound_released_iff_settled:
  fixes hex inp mats
  defines "r \<equiv> canonicalize_with_materialized_candidates hex inp mats"
    and "open_window \<equiv> sat_sub (now_ms inp) (last_convergence_relevant_input_ms (in_state inp))
           < settlement_quiescence_ms (in_policy inp)"
  shows "convergence_status r \<noteq> Blocked
       \<and> (convergence_status r = Syncing \<longleftrightarrow> open_window)
       \<and> (convergence_status r = Settled \<longleftrightarrow> \<not> open_window \<and>
            (\<forall>m \<in> set (pending_messages inp). is_proposal m \<or> pm_message_id m \<in> disposed_ids r))
       \<and> publishable_outbound_messages r =
           (if convergence_status r = Settled then sort_key intent_key (outbound_intents inp) else [])
       \<and> queued_outbound_intents r =
           (if convergence_status r = Settled then [] else sort_key intent_key (outbound_intents inp))"
proof -
  let ?d = "dispose_messages inp (pass_graph inp mats) (pass_uniq inp)
      (initial_result hex inp (pass_seen inp) (mg_candidates (pass_graph inp mats)))"
  have r: "r = finish_result inp ?d"
    by (simp add: r_def canonicalize_with_materialized_candidates_def canonicalize_internal_eq)
  have nb: "convergence_status r \<noteq> Blocked"
    unfolding r finish_result_simps by (rule status_not_blocked) (rule pass_errors)
  have st: "convergence_status r = convergence_status_for_result inp (pending_messages inp) ?d"
    by (simp add: r finish_result_simps)
  have ids: "set (resolved_ids ?d) = disposed_ids r" by (simp add: r set_resolved_ids)
  have "convergence_status r = Syncing \<longleftrightarrow> open_window"
    by (simp add: st convergence_status_for_result_def open_window_def Let_def)
  moreover have "convergence_status r = Settled \<longleftrightarrow> \<not> open_window \<and>
      (\<forall>m \<in> set (pending_messages inp). is_proposal m \<or> pm_message_id m \<in> disposed_ids r)"
    using pass_errors [of inp "pass_graph inp mats" "pass_uniq inp" hex "pass_seen inp"]
    unfolding st convergence_status_for_result_def ids
    by (auto simp: open_window_def Let_def has_blocking_convergence_error_def)
  moreover have "publishable_outbound_messages r =
      (if convergence_status r = Settled then sort_key intent_key (outbound_intents inp) else [])"
    "queued_outbound_intents r =
      (if convergence_status r = Settled then [] else sort_key intent_key (outbound_intents inp))"
    by (simp_all add: st) (simp_all add: r finish_result_simps dispose_messages_simps)
  ultimately show ?thesis using nb by blast
qed

theorem outbound_released_iff_settled_witness:
  "convergence_status (canonicalize_with_materialized_candidates ex_hex (ex_input []) []) = Settled
   \<and> publishable_outbound_messages (canonicalize_with_materialized_candidates ex_hex (ex_input []) []) = [SendAppMessage ''hi'']"
proof -
  have w: "\<not> sat_sub (now_ms (ex_input [])) (last_convergence_relevant_input_ms (in_state (ex_input [])))
      < settlement_quiescence_ms (in_policy (ex_input []))"
    "pending_messages (ex_input []) = []" "outbound_intents (ex_input []) = [SendAppMessage ''hi'']"
    by code_simp+
  show ?thesis
    using outbound_released_iff_settled [of ex_hex "ex_input []" "[]"] w by simp
qed

section \<open>Accepted and dropped commits\<close>

lemma attach_frame [simp]:
  "mg_commit_path (attach_app_witnesses g ms p) = mg_commit_path g"
  "mg_branch_path (attach_app_witnesses g ms p) = mg_branch_path g"
  "mg_consumed (attach_app_witnesses g ms p) = mg_consumed g"
  "mg_materialized (attach_app_witnesses g ms p) = mg_materialized g"
  "mg_branch_ids (attach_app_witnesses g ms p) = mg_branch_ids g"
  by (simp_all add: attach_app_witnesses_def)

lemma materialized_by_branch_loop:
  "materialized_commit_ids_by_branch (materialize_loop inp ms g) = materialized_commit_ids_by_branch g"
  by (rule materialize_loop_invariant
      [where P = "\<lambda>h. materialized_commit_ids_by_branch h = materialized_commit_ids_by_branch g"])
    (auto simp: insert_commit_def elim: graph_stepE)

lemma pass_materialized_empty [simp]: "mg_materialized (pass_graph inp []) = []"
  by (simp add: pass_graph_def materialize_candidate_graph_def Let_def materialized_by_branch_loop initial_graph_def)

lemma path_inv_selected: "path_inv ids g \<Longrightarrow> set (get_selected (commit_path_by_branch g) sel) \<subseteq> ids"
  by (cases sel; cases "bt_get (commit_path_by_branch g) (the sel)")
    (auto simp: path_inv_def get_selected_def get_or_default_def)

lemma selected_path_admissible:
  "set (get_selected (mg_commit_path (pass_graph inp [])) sel) \<subseteq> admissible_ids inp (pass_uniq inp)"
proof -
  let ?ms = "commit_messages (pass_uniq inp)"
  let ?g = "materialize_loop inp ?ms (initial_graph (candidate_branches inp))"
  have "graph_wf ?g \<and> path_inv (admissible_ids inp ?ms) ?g"
    by (rule materialize_loop_invariant [where P = "\<lambda>g. graph_wf g \<and> path_inv (admissible_ids inp ?ms) g"])
      (auto simp: graph_wf_initial path_inv_initial intro: graph_wf_step path_inv_step)
  then have "set (get_selected (commit_path_by_branch ?g) sel) \<subseteq> admissible_ids inp ?ms"
    using path_inv_selected by blast
  also have "\<dots> \<subseteq> admissible_ids inp (pass_uniq inp)" by (auto simp: admissible_ids_def)
  finally show ?thesis by (simp add: pass_graph_def materialize_candidate_graph_def Let_def)
qed

lemma drop_of_id:
  "d \<in> set (drop_of (disposition inp sel cids cons path bids m)) \<Longrightarrow> dm_message_id d = pm_message_id m"
  by (auto simp: disposition_defs dropped_def split: PeeledMessageKind.splits if_splits)

lemma accept_commit_of_id:
  "i \<in> set (accept_commit_of (disposition inp sel cids cons path bids m)) \<Longrightarrow>
   i = pm_message_id m \<and> drop_of (disposition inp sel cids cons path bids m) = []"
  by (auto simp: disposition_defs split: PeeledMessageKind.splits if_splits)

lemma admissible_not_dropped:
  "commit_admissible inp m \<Longrightarrow> pm_message_id m \<in> set cids \<Longrightarrow>
   drop_of (disposition inp sel cids cons path bids m) = []"
  by (auto simp: commit_admissible_def disposition_def commit_disposition_def split: PeeledMessageKind.splits)

text \<open>
  C22: A pass over pending messages never both accepts and drops a commit: with unique
  message ids and no pre-materialized candidates, no accepted commit id occurs among the
  dropped messages.
\<close>

theorem accepted_commits_not_dropped:
  fixes hex inp
  defines "r \<equiv> canonicalize hex inp"
  assumes "inj_on pm_message_id (set (pending_messages inp))"
  shows "set (accepted_commits r) \<inter> dm_message_id ` set (dropped_messages r) = {}"
proof -
  let ?g = "pass_graph inp []" and ?u = "pass_uniq inp" and ?s = "selected_branch_id r"
  let ?p = "get_selected (mg_commit_path ?g) ?s"
  let ?d = "disposition inp ?s (bs_of_list ?p) (get_selected (mg_consumed ?g) ?s)
      (get_selected (mg_branch_path ?g) ?s) (mg_branch_ids ?g)"
  have acc: "accepted_commits r = ?p @ concat (map (\<lambda>m. accept_commit_of (?d m)) ?u)"
    by (simp add: r_def canonicalize_def pass_simps pass_dispositions_def comp_def)
  have drp: "set (dropped_messages r) = (\<Union>m \<in> set ?u. set (drop_of (?d m)))"
    by (auto simp: r_def canonicalize_def pass_simps pass_dispositions_def losing_ids_def split: option.splits)
  have inj: "inj_on pm_message_id (set ?u)" using pass_uniq_distinct [of inp] by (simp add: distinct_map)
  have "False" if i: "i \<in> set (accepted_commits r)" and d: "d \<in> set (dropped_messages r)" "dm_message_id d = i" for i d
  proof -
    obtain m where m: "m \<in> set ?u" "d \<in> set (drop_of (?d m))" using d(1) drp by auto
    then have im: "i = pm_message_id m" using drop_of_id d(2) by blast
    consider "i \<in> set ?p" | k where "k \<in> set ?u" "i \<in> set (accept_commit_of (?d k))"
      using i acc by auto
    then show False
    proof cases
      case 1
      then obtain k where "k \<in> set ?u" "commit_admissible inp k" "pm_message_id k = i"
        using selected_path_admissible [of inp ?s] by (auto simp: admissible_ids_def)
      then have "commit_admissible inp m" using inj im m(1) by (auto simp: inj_on_def)
      then show False using admissible_not_dropped [of inp m "bs_of_list ?p"] m(2) im 1 by auto
    next
      case 2
      then have "k = m" using accept_commit_of_id im inj m(1) by (metis inj_onD)
      then show False using accept_commit_of_id 2(2) m(2) by fastforce
    qed
  qed
  then show ?thesis by blast
qed

theorem accepted_commits_not_dropped_witness:
  "set (accepted_commits (canonicalize ex_hex ex_pass)) \<inter>
     dm_message_id ` set (dropped_messages (canonicalize ex_hex ex_pass)) = {}"
  using accepted_commits_not_dropped [OF ex_pass_inj] .

definition ex_mat :: "string \<Rightarrow> bytes \<Rightarrow> string list \<Rightarrow> MaterializedCandidate" where
  "ex_mat bid digest ids =
     \<lparr> mc_branch = \<lparr> bc_id = bid, fork_epoch = 4, tip_epoch = 6, tip_priority = Ordinary,
         tip_committer = [1], tip_digest = digest, app_witnesses = [] \<rparr>,
       mc_commit_message_ids = ids, mc_consumed_proposal_ids = [] \<rparr>"

text \<open>
  With pre-materialized candidates the two lists can overlap.  Branches \<open>A\<close> (commits c1, c2) and \<open>B\<close>
  (commits c1, c3) fork after c1; the pass selects \<open>A\<close>, accepts c1 and c2, and still reports c1 as
  dropped, because \<^verbatim>\<open>drop_losing_materialized_candidate_commits\<close> does not look at the accepted commits.
\<close>

lemma shared_prefix_commit_also_dropped:
  fixes hex
  defines "r \<equiv> canonicalize_with_materialized_candidates hex (ex_input [])
      [ex_mat ''A'' [1] [''c1'', ''c2''], ex_mat ''B'' [2] [''c1'', ''c3'']]"
  shows "accepted_commits r = [''c1'', ''c2'']
       \<and> map dm_message_id (dropped_messages r) = [''c1'', ''c3'']
       \<and> dm_reason ` set (dropped_messages r) = {InvalidAgainstCandidateState}"
proof -
  let ?ms = "[ex_mat ''A'' [1] [''c1'', ''c2''], ex_mat ''B'' [2] [''c1'', ''c3'']]"
  have sel: "selected_branch_id (canonicalize_internal hex (ex_input []) ?ms) = Some ''A''"
    unfolding canonicalize_selected by code_simp
  have u: "pass_uniq (ex_input []) = []" by code_simp
  have g: "get_selected (mg_commit_path (pass_graph (ex_input []) ?ms)) (Some ''A'') = [''c1'', ''c2'']"
    "losing_ids (Some ''A'') (mg_materialized (pass_graph (ex_input []) ?ms)) = [''c1'', ''c3'']"
    by code_simp+
  have d: "sort_key dropped_key (losing_drops [''c1'', ''c3''] {}) = losing_drops [''c1'', ''c3''] {}"
    by code_simp
  have s0: "selected_branch_id (initial_result hex (ex_input []) (pass_seen (ex_input []))
      (mg_candidates (pass_graph (ex_input []) ?ms))) = Some ''A''"
    using sel by (simp add: pass_simps)
  have "accepted_commits r = [''c1'', ''c2'']"
    by (simp add: r_def canonicalize_with_materialized_candidates_def pass_simps u s0 g pass_dispositions_def)
  moreover have "dropped_messages r = losing_drops [''c1'', ''c3''] {}"
    by (simp add: r_def canonicalize_with_materialized_candidates_def pass_simps u s0 g pass_dispositions_def
        d del: losing_drops.simps)
  ultimately show ?thesis by simp
qed

end
