(* ===== verification/Canonical_Order.thy ===== *)
theory Canonical_Order
  imports Canonical_Disposition
begin

text \<open>
  Input-order independence of the canonicalization pass: replicas that hold the same
  pending messages, candidates and intents in different orders compute the same result.
\<close>

section \<open>Candidates that differ in the order of their witnesses\<close>

definition cand_eqv :: "BranchCandidate \<Rightarrow> BranchCandidate \<Rightarrow> bool" where
  "cand_eqv a b \<longleftrightarrow> b = a \<lparr> app_witnesses := app_witnesses b \<rparr> \<and> mset (app_witnesses a) = mset (app_witnesses b)"

lemma cand_eqv_fields:
  assumes "cand_eqv a b"
  shows "bc_id b = bc_id a" "fork_epoch b = fork_epoch a" "tip_epoch b = tip_epoch a"
    "tip_priority b = tip_priority a" "tip_committer b = tip_committer a" "tip_digest b = tip_digest a"
  using assms unfolding cand_eqv_def by (cases a; cases b; simp)+

lemma cand_eqv_score: "cand_eqv a b \<Longrightarrow> score b p = score a p"
  by (rule score_cong_witnesses) (auto simp: cand_eqv_fields, auto simp: cand_eqv_def dest: mset_eq_setD)

lemma cand_eqv_eligible: "cand_eqv a b \<Longrightarrow> is_branch_eligible t b p = is_branch_eligible t a p"
  by (simp add: is_branch_eligible_def cand_eqv_fields)

lemma witness_key_inj: "inj (\<lambda>w :: AppWitness. (w_epoch w, w_sender w))"
  by (auto simp: inj_def intro: AppWitness.equality)

lemma cand_eqv_evaluate: "cand_eqv a b \<Longrightarrow> evaluate_candidate t p b = evaluate_candidate t p a"
proof -
  assume e: "cand_eqv a b"
  have "sort_key (\<lambda>w. (w_epoch w, w_sender w)) (app_witnesses b) = sort_key (\<lambda>w. (w_epoch w, w_sender w)) (app_witnesses a)"
    using e witness_key_inj by (intro sort_key_mset_cong) (auto simp: cand_eqv_def intro: inj_on_subset)
  then show ?thesis
    using e by (simp add: evaluate_candidate_def cand_eqv_fields cand_eqv_score cand_eqv_eligible)
qed

lemma list_all2_insort_key:
  assumes "list_all2 R xs ys" "R x y" "\<And>a b. R a b \<Longrightarrow> f b = f a"
  shows "list_all2 R (insort_key f x xs) (insort_key f y ys)"
  using assms by (induction rule: list_all2_induct) auto

lemma list_all2_sort_key:
  assumes "list_all2 R xs ys" "\<And>a b. R a b \<Longrightarrow> f b = f a"
  shows "list_all2 R (sort_key f xs) (sort_key f ys)"
  using assms by (induction rule: list_all2_induct) (auto intro: list_all2_insort_key)

lemma list_all2_filter_cong:
  assumes "list_all2 R xs ys" "\<And>a b. R a b \<Longrightarrow> P b = P a"
  shows "list_all2 R (filter P xs) (filter P ys)"
  using assms by (induction rule: list_all2_induct) auto

lemma rel_max_by:
  assumes "list_all2 R xs ys" "\<And>a b a' b'. R a a' \<Longrightarrow> R b b' \<Longrightarrow> c a' b' = c a b"
  shows "rel_option R (max_by c xs) (max_by c ys)"
proof -
  have "list_all2 R us vs \<Longrightarrow> R x y \<Longrightarrow> R (fold (max_by_step c) us x) (fold (max_by_step c) vs y)" for us vs x y
  proof (induction us vs arbitrary: x y rule: list_all2_induct)
    case (Cons u us v vs)
    then have "R (max_by_step c u x) (max_by_step c v y)" using assms(2) by (auto simp: max_by_step_def)
    then show ?case using Cons by simp
  qed simp
  then show ?thesis using assms(1) by (cases xs; cases ys) auto
qed

lemma compare_candidates_eqv:
  "cand_eqv a a' \<Longrightarrow> cand_eqv b b' \<Longrightarrow> compare_candidates p a' b' = compare_candidates p a b"
  by (simp add: compare_candidates_def cand_eqv_score)

lemma select_eqv:
  assumes "list_all2 cand_eqv cs ds"
  shows "rel_option cand_eqv (select_canonical_branch t cs p) (select_canonical_branch t ds p)"
  unfolding select_canonical_branch_def
  by (rule rel_max_by [OF list_all2_filter_cong [OF assms]])
    (simp_all add: cand_eqv_eligible compare_candidates_eqv)

lemma runner_up_eqv:
  assumes "list_all2 cand_eqv cs ds" "cand_eqv w w'"
  shows "rel_option cand_eqv (runner_up t cs p w) (runner_up t ds p w')"
proof -
  have "list_all2 cand_eqv
      (filter (\<lambda>c. bc_id c \<noteq> bc_id w) (filter (\<lambda>c. is_branch_eligible t c p) cs))
      (filter (\<lambda>c. bc_id c \<noteq> bc_id w') (filter (\<lambda>c. is_branch_eligible t c p) ds))"
    unfolding cand_eqv_fields(1) [OF assms(2)]
    by (intro list_all2_filter_cong assms(1)) (simp_all add: cand_eqv_eligible cand_eqv_fields)
  then show ?thesis
    unfolding runner_up_def by (rule rel_max_by) (simp add: compare_candidates_eqv)
qed

lemma evaluations_eqv:
  "list_all2 cand_eqv cs ds \<Longrightarrow> map (evaluate_candidate t p) ds = map (evaluate_candidate t p) cs"
  by (induction rule: list_all2_induct) (auto simp: cand_eqv_evaluate)

lemma traced_eqv:
  assumes "list_all2 cand_eqv cs ds"
  shows "select_canonical_branch_traced hex t ds p = select_canonical_branch_traced hex t cs p"
proof -
  let ?cs = "sort_key bc_id cs" and ?ds = "sort_key bc_id ds"
  have sorted: "list_all2 cand_eqv ?cs ?ds"
    by (rule list_all2_sort_key [OF assms]) (simp add: cand_eqv_fields)
  note ev = evaluations_eqv [OF sorted, of t p]
  show ?thesis
  proof (cases "select_canonical_branch t cs p")
    case None
    then have "select_canonical_branch t ds p = None" using select_eqv [OF assms, of t p] by simp
    then show ?thesis using None ev by (simp add: select_canonical_branch_traced_def Let_def del: map_map)
  next
    case (Some w)
    then obtain w' where w': "select_canonical_branch t ds p = Some w'" "cand_eqv w w'"
      using select_eqv [OF assms, of t p] by (auto simp: option_rel_Some1)
    have "rel_option cand_eqv (runner_up t ?cs p w) (runner_up t ?ds p w')"
      by (rule runner_up_eqv [OF sorted w'(2)])
    then have "(case runner_up t ?ds p w' of None \<Rightarrow> []
         | Some other \<Rightarrow> build_rule_trace hex (score w' p) (score other p) (bc_id w') (bc_id other)) =
        (case runner_up t ?cs p w of None \<Rightarrow> []
         | Some other \<Rightarrow> build_rule_trace hex (score w p) (score other p) (bc_id w) (bc_id other))"
      using w'(2) by (cases "runner_up t ?cs p w"; cases "runner_up t ?ds p w'")
        (auto simp: cand_eqv_fields cand_eqv_score)
    then show ?thesis
      using Some w' ev by (simp add: select_canonical_branch_traced_def cand_eqv_fields Let_def)
  qed
qed

section \<open>Witness attachment\<close>

definition add_witnesses :: "AppWitness list \<Rightarrow> BranchCandidate \<Rightarrow> BranchCandidate" where
  "add_witnesses ws c = c \<lparr> app_witnesses := app_witnesses c @ ws \<rparr>"

definition witnesses_of :: "CanonicalizationPolicy \<Rightarrow> PeeledMessage \<Rightarrow> BranchCandidate \<Rightarrow> AppWitness list" where
  "witnesses_of p m c =
     (case pm_kind m of
        AppMessage epoch branches _ \<Rightarrow>
          if app_message_expired (tip_epoch c) p epoch then []
          else map (\<lambda>_. \<lparr> w_epoch = epoch, w_sender = pm_sender m \<rparr>) (filter (\<lambda>b. b = bc_id c) branches)
      | _ \<Rightarrow> [])"

lemma add_witnesses_simps [simp]:
  "bc_id (add_witnesses ws c) = bc_id c" "tip_epoch (add_witnesses ws c) = tip_epoch c"
  "add_witnesses [] c = c" "add_witnesses vs (add_witnesses ws c) = add_witnesses (ws @ vs) c"
  by (simp_all add: add_witnesses_def)

lemma push_witness_map:
  "distinct (map bc_id cs) \<Longrightarrow> push_witness p w bid cs =
     map (\<lambda>c. if bc_id c = bid \<and> \<not> app_message_expired (tip_epoch c) p (w_epoch w)
              then add_witnesses [w] c else c) cs"
proof (induction cs)
  case (Cons c cs)
  show ?case
  proof (cases "bc_id c = bid")
    case True
    then have "map (\<lambda>c. if bc_id c = bid \<and> \<not> app_message_expired (tip_epoch c) p (w_epoch w)
        then add_witnesses [w] c else c) cs = cs"
      using Cons.prems by (intro map_idI) (auto simp: image_iff)
    then show ?thesis using True by (simp add: add_witnesses_def)
  next
    case False
    then show ?thesis using Cons by simp
  qed
qed simp

lemma map_bc_id_push_witness: "map bc_id (push_witness p w bid cs) = map bc_id cs"
  by (induction cs) auto

lemma fold_push_witness:
  "distinct (map bc_id cs) \<Longrightarrow> fold (push_witness p w) bs cs =
     map (\<lambda>c. add_witnesses (if app_message_expired (tip_epoch c) p (w_epoch w) then []
              else map (\<lambda>_. w) (filter (\<lambda>b. b = bc_id c) bs)) c) cs"
proof (induction bs arbitrary: cs)
  case (Cons b bs)
  have d: "distinct (map bc_id (push_witness p w b cs))"
    using Cons.prems by (simp only: map_bc_id_push_witness)
  show ?case
    using Cons.IH [OF d] Cons.prems by (auto simp: push_witness_map)
qed (simp cong: if_cong)

lemma attach_message_map:
  "distinct (map bc_id cs) \<Longrightarrow> attach_message p m cs = map (\<lambda>c. add_witnesses (witnesses_of p m c) c) cs"
  by (cases "pm_kind m")
    (simp_all add: attach_message_def witnesses_of_def fold_push_witness if_distrib cong: if_cong)

lemma witnesses_of_add [simp]: "witnesses_of p m (add_witnesses ws c) = witnesses_of p m c"
  by (cases "pm_kind m") (simp_all add: witnesses_of_def)

lemma fold_attach_message:
  "distinct (map bc_id cs) \<Longrightarrow> fold (attach_message p) ms cs =
     map (\<lambda>c. add_witnesses (concat (map (\<lambda>m. witnesses_of p m c) ms)) c) cs"
proof (induction ms arbitrary: cs)
  case (Cons m ms)
  have "distinct (map bc_id (attach_message p m cs))"
    using Cons.prems by (simp add: attach_message_map comp_def)
  then show ?case using Cons by (simp add: attach_message_map comp_def)
qed simp

lemma mset_concat_map_cong:
  "mset xs = mset ys \<Longrightarrow> mset (concat (map f xs)) = mset (concat (map f ys))"
proof -
  assume "mset xs = mset ys"
  moreover have "mset (concat (map f zs)) = \<Sum>\<^sub># (image_mset (\<lambda>x. mset (f x)) (mset zs))" for zs
    by (induction zs) auto
  ultimately show ?thesis by simp
qed

lemma attach_eqv:
  assumes "distinct (map bc_id cs)" "mset ms = mset ns"
  shows "list_all2 cand_eqv (fold (attach_message p) ms cs) (fold (attach_message p) ns cs)"
proof -
  have "cand_eqv (add_witnesses (concat (map (\<lambda>m. witnesses_of p m c) ms)) c)
      (add_witnesses (concat (map (\<lambda>m. witnesses_of p m c) ns)) c)" for c
    using mset_concat_map_cong [OF assms(2), of "\<lambda>m. witnesses_of p m c"]
    by (simp add: cand_eqv_def add_witnesses_def del: mset_concat)
  then show ?thesis
    using assms(1) by (simp add: fold_attach_message list_all2_map1 list_all2_map2 list_all2_same)
qed

section \<open>The graph depends on the message multiset only\<close>

lemma commit_step_cong:
  assumes "in_state i = in_state j" "in_policy i = in_policy j"
  shows "commit_step i = commit_step j"
proof (intro ext)
  show "commit_step i m gp = commit_step j m gp" for m gp
    using assms by (cases "pm_kind m") (simp_all add: commit_step_def commit_blocked_def)
qed

lemma materialize_loop_cong:
  assumes "in_state i = in_state j" "in_policy i = in_policy j"
  shows "materialize_loop i ms g = materialize_loop j ms g"
proof -
  have pass: "commit_pass i = commit_pass j"
    by (simp add: commit_pass_def [abs_def] commit_step_cong [OF assms])
  have "inp = i \<Longrightarrow> materialize_loop inp ms g = materialize_loop j ms g" for inp
  proof (induction inp ms g rule: materialize_loop.induct)
    case (1 inp ms g)
    then show ?case
      by (simp add: materialize_loop.simps [of i ms g] materialize_loop.simps [of j ms g] pass)
  qed
  then show ?thesis by simp
qed

lemma commit_messages_cong:
  assumes "mset ms = mset ns" "distinct (map pm_message_id ms)"
  shows "commit_messages ms = commit_messages ns"
proof -
  have "inj_on (\<lambda>m. (pm_source_epoch m, pm_message_id m)) (set (filter is_commit ms))"
    using assms(2) by (auto simp: distinct_map inj_on_def)
  moreover have "mset (filter is_commit ms) = mset (filter is_commit ns)" using assms(1) by simp
  ultimately show ?thesis unfolding commit_messages_def by (intro sort_key_mset_cong)
qed

lemma fold_insert_materialized:
  fixes g
  defines "b \<equiv> \<lambda>m. bc_id (mc_branch m)"
  shows "fold insert_materialized ms g =
    g \<lparr> gs_candidates := bt_extend (map (\<lambda>m. (b m, mc_branch m)) ms) (gs_candidates g),
        commit_path_by_branch := bt_extend (map (\<lambda>m. (b m, mc_commit_message_ids m)) ms) (commit_path_by_branch g),
        branch_path_by_branch := bt_extend (map (\<lambda>m. (b m, [b m])) ms) (branch_path_by_branch g),
        consumed_proposal_ids_by_branch :=
          bt_extend (map (\<lambda>m. (b m, bs_of_list (mc_consumed_proposal_ids m))) ms) (consumed_proposal_ids_by_branch g),
        materialized_commit_ids_by_branch :=
          bt_extend (map (\<lambda>m. (b m, bs_of_list (mc_commit_message_ids m))) ms) (materialized_commit_ids_by_branch g) \<rparr>"
  unfolding b_def by (induction ms arbitrary: g) (simp_all add: insert_materialized_def Let_def)

lemma bt_extend_map_permute:
  assumes "bt_inv m" "mset xs = mset ys" "distinct (map k xs)"
  shows "bt_extend (map (\<lambda>x. (k x, v x)) xs) m = bt_extend (map (\<lambda>x. (k x, v x)) ys) m"
  using assms by (intro bt_extend_permute) (simp_all add: comp_def)

lemma initial_graph_permute:
  assumes "mset cs = mset ds" "distinct (map bc_id cs)"
  shows "initial_graph cs = initial_graph ds"
  unfolding initial_graph_def
  by (simp add: bt_extend_map_permute [OF bt_inv_Nil assms])

lemma materialized_permute:
  assumes "graph_wf g" "bt_inv (materialized_commit_ids_by_branch g)"
    and "mset ms = mset ns" "distinct (map (\<lambda>m. bc_id (mc_branch m)) ms)"
  shows "fold insert_materialized ms g = fold insert_materialized ns g"
  unfolding fold_insert_materialized using assms(1,2)
  by (simp add: graph_wf_def bt_extend_map_permute [OF _ assms(3,4)])

section \<open>Equivalent inputs\<close>

definition input_eqv :: "CanonicalizationInput \<Rightarrow> CanonicalizationInput \<Rightarrow> bool" where
  "input_eqv i j \<longleftrightarrow>
     in_state j = in_state i \<and> in_policy j = in_policy i \<and> now_ms j = now_ms i \<and>
     mset (pending_messages j) = mset (pending_messages i) \<and>
     mset (outbound_intents j) = mset (outbound_intents i) \<and>
     mset (candidate_branches j) = mset (candidate_branches i)"

definition equivalent_inputs ::
  "CanonicalizationInput \<Rightarrow> MaterializedCandidate list \<Rightarrow> CanonicalizationInput \<Rightarrow> MaterializedCandidate list \<Rightarrow> bool" where
  "equivalent_inputs i mats j mats' \<longleftrightarrow>
     input_eqv i j \<and> inj_on pm_message_id (set (pending_messages i)) \<and>
     distinct (map bc_id (candidate_branches i)) \<and>
     mset mats' = mset mats \<and> distinct (map (\<lambda>m. bc_id (mc_branch m)) mats)"

lemma state_policy:
  assumes "equivalent_inputs i mats j mats'"
  shows "in_state j = in_state i" "in_policy j = in_policy i"
  using assms by (simp_all add: equivalent_inputs_def input_eqv_def)

lemma pending_set:
  assumes "equivalent_inputs i mats j mats'"
  shows "set (pending_messages j) = set (pending_messages i)"
  using assms by (auto simp: equivalent_inputs_def input_eqv_def dest: mset_eq_setD)

lemma uniq_mset:
  assumes "equivalent_inputs i mats j mats'"
  shows "mset (pass_uniq j) = mset (pass_uniq i)"
proof -
  have "inj_on pm_message_id (set (pending_messages i))" using assms by (simp add: equivalent_inputs_def)
  then have "set (pass_uniq j) = set (pass_uniq i)"
    using pending_set [OF assms] by (simp add: pass_uniq_set state_policy [OF assms])
  moreover have "distinct (pass_uniq k)" for k using pass_uniq_distinct [of k] by (simp add: distinct_map)
  ultimately show ?thesis by (simp add: set_eq_iff_mset_eq_distinct)
qed

lemma seen_mset:
  assumes "equivalent_inputs i mats j mats'"
  shows "mset (pass_seen j) = mset (pass_seen i)"
proof -
  let ?f = "\<lambda>m. \<lparr> as_message_id = pm_message_id m, as_kind = kind_name (pm_kind m) \<rparr>"
  have s: "mset (map ?f (pending_messages k)) = mset (pass_seen k) + mset (map ?f (pass_uniq k))" for k
    unfolding pass_seen_def pass_uniq_def by (rule dedup_mset)
  have p: "mset (map ?f (pending_messages j)) = mset (map ?f (pending_messages i))"
    using assms by (simp add: equivalent_inputs_def input_eqv_def)
  have u: "mset (map ?f (pass_uniq j)) = mset (map ?f (pass_uniq i))"
    using uniq_mset [OF assms] by simp
  have "mset (pass_seen j) + mset (map ?f (pass_uniq j)) = mset (pass_seen i) + mset (map ?f (pass_uniq i))"
    using p unfolding s .
  then show ?thesis unfolding u by (simp only: add_right_cancel)
qed

lemma graph_eq:
  assumes "equivalent_inputs i mats j mats'"
  shows "materialize_candidate_graph j (pass_uniq j) mats' = materialize_candidate_graph i (pass_uniq i) mats"
proof -
  have c: "commit_messages (pass_uniq j) = commit_messages (pass_uniq i)"
    using commit_messages_cong [OF uniq_mset [OF assms] pass_uniq_distinct] .
  have g: "initial_graph (candidate_branches j) = initial_graph (candidate_branches i)"
    using initial_graph_permute [of "candidate_branches i" "candidate_branches j"] assms
    by (simp add: equivalent_inputs_def input_eqv_def)
  have inv: "bt_inv (materialized_commit_ids_by_branch (initial_graph cs))" for cs
    by (simp add: initial_graph_def)
  have m: "fold insert_materialized mats' (initial_graph (candidate_branches i)) =
      fold insert_materialized mats (initial_graph (candidate_branches i))"
    using materialized_permute [OF graph_wf_initial inv, of mats mats'] assms
    by (simp add: equivalent_inputs_def)
  show ?thesis
    by (simp add: materialize_candidate_graph_def c g m materialize_loop_cong [OF state_policy [OF assms]])
qed

lemma graph_wf_ids:
  assumes "graph_wf g"
  shows "map bc_id (bt_values (gs_candidates g)) = bt_keys (gs_candidates g)"
proof -
  have "bc_id (snd e) = fst e" if "e \<in> set (gs_candidates g)" for e
  proof -
    have "bt_get (gs_candidates g) (fst e) = Some (snd e)"
      using that assms by (simp add: graph_wf_def flip: bt_in_set_iff)
    then show ?thesis using assms unfolding graph_wf_def by blast
  qed
  then show ?thesis by (simp add: bt_values_def bt_keys_def)
qed

lemma graph_distinct: "distinct (map bc_id (mg_candidates (materialize_candidate_graph i (pass_uniq i) mats)))"
proof -
  let ?g = "materialize_loop i (commit_messages (pass_uniq i)) (fold insert_materialized mats (initial_graph (candidate_branches i)))"
  have wf: "graph_wf ?g" by (simp add: graph_wf_loop graph_wf_fold_materialized graph_wf_initial)
  have "distinct (map fst (gs_candidates ?g))" using wf by (simp add: graph_wf_def bt_inv_distinct)
  then show ?thesis
    using graph_wf_ids [OF wf] by (simp add: materialize_candidate_graph_def Let_def bt_keys_def)
qed

lemma pass_graph_eqv:
  assumes "equivalent_inputs i mats j mats'"
  shows "list_all2 cand_eqv (mg_candidates (pass_graph i mats)) (mg_candidates (pass_graph j mats'))"
  "mg_commit_path (pass_graph j mats') = mg_commit_path (pass_graph i mats)"
  "mg_branch_path (pass_graph j mats') = mg_branch_path (pass_graph i mats)"
  "mg_consumed (pass_graph j mats') = mg_consumed (pass_graph i mats)"
  "mg_materialized (pass_graph j mats') = mg_materialized (pass_graph i mats)"
  "mg_branch_ids (pass_graph j mats') = mg_branch_ids (pass_graph i mats)"
proof -
  show "list_all2 cand_eqv (mg_candidates (pass_graph i mats)) (mg_candidates (pass_graph j mats'))"
    unfolding pass_graph_def graph_eq [OF assms] state_policy [OF assms]
    using attach_eqv [OF graph_distinct uniq_mset [OF assms, symmetric]] by (simp add: attach_app_witnesses_def)
qed (simp_all add: pass_graph_def graph_eq [OF assms])

lemma rel_option_map_eq:
  "rel_option cand_eqv x y \<Longrightarrow> (\<And>a b. cand_eqv a b \<Longrightarrow> f b = f a) \<Longrightarrow> map_option f y = map_option f x"
  by (cases x; cases y) auto

lemma initial_eqv:
  assumes "equivalent_inputs i mats j mats'"
  shows "initial_result hex j (pass_seen j) (mg_candidates (pass_graph j mats')) =
   (initial_result hex i (pass_seen i) (mg_candidates (pass_graph i mats))) \<lparr> already_seen := pass_seen j \<rparr>"
proof -
  let ?t = "current_tip_epoch (in_state i)" and ?p = "pol_convergence (in_policy i)"
  note eqv = pass_graph_eqv(1) [OF assms]
  note sel = select_eqv [OF eqv, of ?t ?p]
  note fields = rel_option_map_eq [OF sel, of bc_id] rel_option_map_eq [OF sel, of tip_epoch]
    rel_option_map_eq [OF sel, of fork_epoch]
  have none: "(select_canonical_branch ?t (mg_candidates (pass_graph j mats')) ?p = None) =
      (select_canonical_branch ?t (mg_candidates (pass_graph i mats)) ?p = None)"
    using sel by (cases "select_canonical_branch ?t (mg_candidates (pass_graph i mats)) ?p") (auto simp: option_rel_Some1)
  have len: "length (mg_candidates (pass_graph j mats')) = length (mg_candidates (pass_graph i mats))"
    "length (filter (\<lambda>c. is_branch_eligible ?t c ?p) (mg_candidates (pass_graph j mats'))) =
     length (filter (\<lambda>c. is_branch_eligible ?t c ?p) (mg_candidates (pass_graph i mats)))"
    using list_all2_lengthD [OF eqv]
      list_all2_lengthD [OF list_all2_filter_cong [OF eqv, of "\<lambda>c. is_branch_eligible ?t c ?p"]]
    by (simp_all add: cand_eqv_eligible)
  show ?thesis
    by (simp add: initial_result_def Let_def state_policy [OF assms] fields cand_eqv_fields none len
        traced_eqv [OF eqv])
qed

section \<open>Equivalent results\<close>

definition res_eqv :: "CanonicalizationResult \<Rightarrow> CanonicalizationResult \<Rightarrow> bool" where
  "res_eqv r s \<longleftrightarrow>
     s = r \<lparr> accepted_commits := accepted_commits s, accepted_proposals := accepted_proposals s,
             accepted_app_messages := accepted_app_messages s,
             invalidated_app_messages := invalidated_app_messages s,
             dropped_messages := dropped_messages s, already_seen := already_seen s \<rparr> \<and>
     mset (accepted_commits s) = mset (accepted_commits r) \<and>
     mset (accepted_proposals s) = mset (accepted_proposals r) \<and>
     mset (accepted_app_messages s) = mset (accepted_app_messages r) \<and>
     mset (invalidated_app_messages s) = mset (invalidated_app_messages r) \<and>
     mset (dropped_messages s) = mset (dropped_messages r) \<and>
     mset (already_seen s) = mset (already_seen r)"

lemma disposition_cong:
  assumes "in_state j = in_state i" "in_policy j = in_policy i"
  shows "disposition j = disposition i"
proof (intro ext)
  show "disposition j sel cids cons path bids m = disposition i sel cids cons path bids m"
    for sel cids cons path bids m
    using assms by (cases "pm_kind m") (simp_all add: disposition_defs)
qed

lemma apply_dispositions_eqv:
  assumes "mset ds = mset es"
  shows "res_eqv (apply_dispositions ds r) (apply_dispositions es (r \<lparr> already_seen := s \<rparr>)) \<longleftrightarrow>
         mset s = mset (already_seen r)"
  using mset_concat_map_cong [OF assms, of accept_commit_of] mset_concat_map_cong [OF assms, of accept_proposal_of]
    mset_concat_map_cong [OF assms, of accept_app_of] mset_concat_map_cong [OF assms, of invalidate_of]
    mset_concat_map_cong [OF assms, of drop_of]
  by (simp add: res_eqv_def apply_dispositions_def del: mset_concat)

lemma add_drops_eqv:
  assumes "res_eqv r s"
  shows "res_eqv (r \<lparr> dropped_messages := dropped_messages r @ losing_drops ids (dm_message_id ` set (dropped_messages r)) \<rparr>)
    (s \<lparr> dropped_messages := dropped_messages s @ losing_drops ids (dm_message_id ` set (dropped_messages s)) \<rparr>)"
proof -
  have "set (dropped_messages s) = set (dropped_messages r)"
    using assms mset_eq_setD [of "dropped_messages s" "dropped_messages r"] by (simp add: res_eqv_def)
  then show ?thesis using assms by (cases r; cases s) (simp add: res_eqv_def)
qed

lemma seen_commits_swap:
  "r \<lparr> already_seen := s, accepted_commits := c \<rparr> = (r :: CanonicalizationResult) \<lparr> accepted_commits := c, already_seen := s \<rparr>"
  by (cases r) simp

lemma dispose_eqv:
  assumes "equivalent_inputs i mats j mats'"
  shows "res_eqv
    (dispose_messages i (pass_graph i mats) (pass_uniq i) (initial_result hex i (pass_seen i) (mg_candidates (pass_graph i mats))))
    (dispose_messages j (pass_graph j mats') (pass_uniq j) (initial_result hex j (pass_seen j) (mg_candidates (pass_graph j mats'))))"
proof -
  let ?r = "initial_result hex i (pass_seen i) (mg_candidates (pass_graph i mats))"
  let ?sel = "selected_branch_id ?r"
  let ?p = "get_selected (mg_commit_path (pass_graph i mats)) ?sel"
  have ds: "mset (pass_dispositions i (pass_graph i mats) ?sel (pass_uniq i)) =
      mset (pass_dispositions j (pass_graph j mats') ?sel (pass_uniq j))"
    by (simp add: pass_dispositions_def disposition_cong [OF state_policy [OF assms]]
        pass_graph_eqv(2-6) [OF assms] uniq_mset [OF assms])
  have "res_eqv (apply_dispositions (pass_dispositions i (pass_graph i mats) ?sel (pass_uniq i)) (?r \<lparr> accepted_commits := ?p \<rparr>))
     (apply_dispositions (pass_dispositions j (pass_graph j mats') ?sel (pass_uniq j))
        (?r \<lparr> accepted_commits := ?p, already_seen := pass_seen j \<rparr>))"
    using apply_dispositions_eqv [OF ds, of "?r \<lparr> accepted_commits := ?p \<rparr>" "pass_seen j"] seen_mset [OF assms] by simp
  from add_drops_eqv [OF this, of "losing_ids ?sel (mg_materialized (pass_graph i mats))"]
  show ?thesis
    unfolding dispose_messages_eq initial_eqv [OF assms]
    by (simp add: Let_def pass_graph_eqv(2-6) [OF assms] seen_commits_swap)
qed

lemma sort_key_inj_cong: "mset xs = mset ys \<Longrightarrow> inj f \<Longrightarrow> sort_key f xs = sort_key f ys"
  by (rule sort_key_mset_cong) (auto intro: inj_on_subset)

lemma kind_rank_inj: "kind_rank a = kind_rank b \<Longrightarrow> a = b"
  by (cases a; cases b) auto

lemma drop_rank_inj: "drop_rank a = drop_rank b \<Longrightarrow> a = b"
  by (cases a; cases b) auto

lemma invalidation_rank_inj: "invalidation_rank a = invalidation_rank b \<Longrightarrow> a = b"
  by (cases a; cases b) auto

lemma result_keys_inj:
  "inj invalidated_key" "inj dropped_key" "inj already_seen_key" "inj intent_key"
proof -
  show "inj invalidated_key"
    by (auto simp: inj_def invalidated_key_def dest: invalidation_rank_inj intro: InvalidatedAppMessage.equality)
  show "inj dropped_key"
    by (auto simp: inj_def dropped_key_def dest: kind_rank_inj drop_rank_inj intro: DroppedMessage.equality)
  show "inj already_seen_key"
    by (auto simp: inj_def already_seen_key_def dest: kind_rank_inj intro: AlreadySeen.equality)
  have "intent_key a = intent_key b \<Longrightarrow> a = b" for a b by (cases a; cases b) auto
  then show "inj intent_key" by (auto simp: inj_def)
qed

lemma disposed_ids_eqv:
  assumes "res_eqv r s" shows "disposed_ids s = disposed_ids r" "errors s = errors r"
proof -
  show "disposed_ids s = disposed_ids r"
    using assms mset_eq_setD [of "accepted_commits s"] mset_eq_setD [of "accepted_proposals s"]
      mset_eq_setD [of "accepted_app_messages s"] mset_eq_setD [of "dropped_messages s"]
      mset_eq_setD [of "invalidated_app_messages s"] mset_eq_setD [of "already_seen s"]
    by (simp add: res_eqv_def disposed_ids_def)
  show "errors s = errors r" using assms by (cases r; cases s) (simp add: res_eqv_def)
qed

lemma finish_eqv:
  assumes "res_eqv r s" "input_eqv i j"
  shows "finish_result j s = (finish_result i r) \<lparr> accepted_commits := accepted_commits s \<rparr>"
proof -
  have pend: "set (pending_messages j) = set (pending_messages i)"
    using assms(2) by (auto simp: input_eqv_def dest: mset_eq_setD)
  have st: "convergence_status_for_result j (pending_messages j) s = convergence_status_for_result i (pending_messages i) r"
    using assms(2) disposed_ids_eqv [OF assms(1)] pend
    by (auto simp: convergence_status_for_result_def has_blocking_convergence_error_def set_resolved_ids input_eqv_def Let_def)
  have sorts: "sort (accepted_proposals s) = sort (accepted_proposals r)"
    "sort (accepted_app_messages s) = sort (accepted_app_messages r)"
    "sort_key invalidated_key (invalidated_app_messages s) = sort_key invalidated_key (invalidated_app_messages r)"
    "sort_key dropped_key (dropped_messages s) = sort_key dropped_key (dropped_messages r)"
    "sort_key already_seen_key (already_seen s) = sort_key already_seen_key (already_seen r)"
    "sort_key intent_key (outbound_intents j) = sort_key intent_key (outbound_intents i)"
    using assms result_keys_inj by (auto simp: res_eqv_def input_eqv_def intro: sort_key_inj_cong)
  have same: "previous_tip s = previous_tip r" "selected_tip s = selected_tip r"
    "selected_fork_epoch s = selected_fork_epoch r" "selected_branch_id s = selected_branch_id r"
    "candidate_count s = candidate_count r" "eligible_count s = eligible_count r"
    "queued_outbound_intents s = queued_outbound_intents r"
    "publishable_outbound_messages s = publishable_outbound_messages r"
    "errors s = errors r" "selection_trace s = selection_trace r"
    using assms(1) by (cases r; cases s; simp add: res_eqv_def)+
  show ?thesis
    by (rule CanonicalizationResult.equality)
      (simp_all add: finish_result_def sort_result_def Let_def sorts same st)
qed

section \<open>Order independence\<close>

definition commit_branch :: "PeeledMessage \<Rightarrow> string option" where
  "commit_branch m = (case pm_kind m of Commit bid _ _ _ _ _ _ \<Rightarrow> Some bid | _ \<Rightarrow> None)"

definition unique_commit_branches :: "PeeledMessage list \<Rightarrow> bool" where
  "unique_commit_branches ms \<longleftrightarrow>
     (\<forall>m \<in> set ms. \<forall>n \<in> set ms. commit_branch m \<noteq> None \<longrightarrow> commit_branch m = commit_branch n \<longrightarrow> m = n)"

lemma accept_commit_of_branch:
  "accept_commit_of (disposition inp sel cids cons path bids m) \<noteq> [] \<Longrightarrow> commit_branch m = sel \<and> sel \<noteq> None"
  by (auto simp: disposition_defs commit_branch_def split: PeeledMessageKind.splits if_splits)

lemma length_concat_le_1:
  assumes "distinct ms" "\<And>m. length (f m) \<le> 1"
    and "\<And>m n. m \<in> set ms \<Longrightarrow> n \<in> set ms \<Longrightarrow> f m \<noteq> [] \<Longrightarrow> f n \<noteq> [] \<Longrightarrow> m = n"
  shows "length (concat (map f ms)) \<le> 1"
  using assms(1,3)
proof (induction ms)
  case (Cons m ms)
  show ?case
  proof (cases "f m = []")
    case True
    then show ?thesis using Cons by simp
  next
    case False
    then have "concat (map f ms) = []" using Cons.prems by (fastforce simp: concat_eq_Nil_conv)
    then have "length (concat (map f ms)) = 0" by (simp only: list.size)
    moreover have "length (concat (map f (m # ms))) = length (f m) + length (concat (map f ms))" by simp
    ultimately show ?thesis using assms(2) [of m] by linarith
  qed
qed simp

lemma mset_short_eq: "mset xs = mset ys \<Longrightarrow> length xs \<le> 1 \<Longrightarrow> xs = ys"
  by (cases xs) auto

lemma accepted_commits_eq:
  assumes e: "equivalent_inputs i mats j mats'" and u: "unique_commit_branches (pending_messages i)"
  shows "accepted_commits (canonicalize_internal hex j mats') = accepted_commits (canonicalize_internal hex i mats)"
proof -
  let ?ri = "initial_result hex i (pass_seen i) (mg_candidates (pass_graph i mats))"
  let ?sel = "selected_branch_id ?ri" and ?g = "pass_graph i mats"
  let ?f = "\<lambda>m. accept_commit_of (disposition i ?sel (bs_of_list (get_selected (mg_commit_path ?g) ?sel))
      (get_selected (mg_consumed ?g) ?sel) (get_selected (mg_branch_path ?g) ?sel) (mg_branch_ids ?g) m)"
  have sub: "set (pass_uniq i) \<subseteq> set (pending_messages i)"
    using e by (auto simp: equivalent_inputs_def pass_uniq_set)
  have i: "accepted_commits (canonicalize_internal hex i mats) =
      get_selected (mg_commit_path ?g) ?sel @ concat (map ?f (pass_uniq i))"
    by (simp add: pass_simps pass_dispositions_def comp_def)
  have j: "accepted_commits (canonicalize_internal hex j mats') =
      get_selected (mg_commit_path ?g) ?sel @ concat (map ?f (pass_uniq j))"
    by (simp add: pass_simps initial_eqv [OF e] pass_graph_eqv(2-6) [OF e] pass_dispositions_def comp_def
        disposition_cong [OF state_policy [OF e]])
  have "distinct (pass_uniq i)" using pass_uniq_distinct [of i] by (simp add: distinct_map)
  moreover have "length (?f m) \<le> 1" for m
    by (cases "disposition i ?sel (bs_of_list (get_selected (mg_commit_path ?g) ?sel))
      (get_selected (mg_consumed ?g) ?sel) (get_selected (mg_branch_path ?g) ?sel) (mg_branch_ids ?g) m") auto
  moreover have "m = n" if "m \<in> set (pass_uniq i)" "n \<in> set (pass_uniq i)" "?f m \<noteq> []" "?f n \<noteq> []" for m n
  proof -
    have "commit_branch m = ?sel" "commit_branch n = ?sel" "?sel \<noteq> None"
      using that(3,4) accept_commit_of_branch by blast+
    then show ?thesis using u sub that(1,2) unfolding unique_commit_branches_def by (metis subsetD)
  qed
  ultimately have short: "length (concat (map ?f (pass_uniq i))) \<le> 1" by (rule length_concat_le_1)
  have "mset (concat (map ?f (pass_uniq i))) = mset (concat (map ?f (pass_uniq j)))"
    by (rule mset_concat_map_cong) (rule uniq_mset [OF e, symmetric])
  from mset_short_eq [OF this short] show ?thesis by (simp only: i j)
qed

text \<open>
  C1: Canonicalization is independent of the order of its inputs.  Two replicas with the
  same state, policy and clock, whose pending messages, outbound intents, candidate branches
  and pre-materialized candidates are permutations of each other, with message ids that
  identify messages and branch ids that identify branches, compute the same result in every
  field except possibly the order of \<^verbatim>\<open>accepted_commits\<close>; if moreover no two pending commits
  claim the same branch id, the results are equal.
\<close>

theorem canonicalize_order_independent:
  fixes hex i mats j mats'
  defines "r \<equiv> canonicalize_with_materialized_candidates hex i mats"
    and "s \<equiv> canonicalize_with_materialized_candidates hex j mats'"
  assumes "input_eqv i j" "inj_on pm_message_id (set (pending_messages i))"
    and "distinct (map bc_id (candidate_branches i))"
    and "mset mats' = mset mats" "distinct (map (\<lambda>m. bc_id (mc_branch m)) mats)"
  shows "s = r \<lparr> accepted_commits := accepted_commits s \<rparr>
       \<and> mset (accepted_commits s) = mset (accepted_commits r)
       \<and> (unique_commit_branches (pending_messages i) \<longrightarrow> s = r)"
proof -
  have e: "equivalent_inputs i mats j mats'" using assms by (simp add: equivalent_inputs_def)
  note d = dispose_eqv [OF e, of hex]
  have up: "s = r \<lparr> accepted_commits := accepted_commits s \<rparr>"
    using finish_eqv [OF d assms(3)]
    by (simp add: r_def s_def canonicalize_with_materialized_candidates_def canonicalize_internal_eq finish_result_simps)
  moreover have "mset (accepted_commits s) = mset (accepted_commits r)"
    using d by (simp add: r_def s_def canonicalize_with_materialized_candidates_def canonicalize_internal_eq
        finish_result_simps res_eqv_def)
  moreover have "s = r" if "unique_commit_branches (pending_messages i)"
  proof -
    have "accepted_commits s = accepted_commits r"
      using accepted_commits_eq [OF e that] by (simp add: r_def s_def canonicalize_with_materialized_candidates_def)
    then show ?thesis using up by simp
  qed
  ultimately show ?thesis by blast
qed

theorem canonicalize_order_independent_witness:
  "canonicalize_with_materialized_candidates ex_hex (ex_input [ex_a2, ex_c2, ex_a1, ex_p1, ex_c1]) [] =
   canonicalize_with_materialized_candidates ex_hex (ex_input [ex_c1, ex_c2, ex_p1, ex_a1, ex_a2]) []"
proof -
  have "input_eqv ex_pass (ex_input [ex_a2, ex_c2, ex_a1, ex_p1, ex_c1])"
    by (simp add: input_eqv_def ex_input_def)
  moreover have "distinct (map bc_id (candidate_branches ex_pass))" by (simp add: ex_input_def)
  moreover have "unique_commit_branches (pending_messages ex_pass)"
    by (simp add: unique_commit_branches_def commit_branch_def ex_input_def ex_msg_def ex_c1_def ex_c2_def
        ex_p1_def ex_a1_def ex_a2_def)
  ultimately show ?thesis
    using canonicalize_order_independent [of ex_pass "ex_input [ex_a2, ex_c2, ex_a1, ex_p1, ex_c1]" "[]" "[]" ex_hex]
      ex_pass_inj by simp
qed

end
