(* ===== verification/Epoch_State.thy ===== *)
theory Epoch_State
  imports Prelude
begin

text \<open>
  The per-group commit lifecycle, after \<^verbatim>\<open>crates/traits/src/engine_state.rs\<close>: the states
  \<^verbatim>\<open>Stable\<close>, \<^verbatim>\<open>PendingPublish\<close>, \<^verbatim>\<open>Merging\<close>, \<^verbatim>\<open>Recovering\<close> and \<^verbatim>\<open>Unrecoverable\<close>, the fallible
  transitions between them, and the state of a pending welcome.  The messages buffered by
  \<^verbatim>\<open>Recovering\<close> are opaque payload, a type variable.
\<close>

type_synonym EpochId = u64
type_synonym GroupId = bytes
type_synonym MemberId = bytes
type_synonym StagedCommitHandle = bytes
type_synonym PendingStateRef = u64

section \<open>States\<close>

datatype PendingPublish =
  PendingPublish (pp_epoch: EpochId) (pp_pending: StagedCommitHandle) (pp_pending_ref: PendingStateRef)

datatype 'm EpochState =
    Stable EpochId
  | EPendingPublish PendingPublish
  | Merging EpochId
  | Recovering EpochId "'m list"
  | Unrecoverable EpochId

record InvalidTransition =
  it_from :: string
  it_to :: string
  it_reason :: string

fun es_epoch :: "'m EpochState \<Rightarrow> EpochId" where
  "es_epoch (Stable e) = e"
| "es_epoch (EPendingPublish p) = pp_epoch p"
| "es_epoch (Merging e) = e"
| "es_epoch (Recovering e _) = e"
| "es_epoch (Unrecoverable e) = e"

fun es_can_ingest :: "'m EpochState \<Rightarrow> bool" where
  "es_can_ingest (Stable _) = True"
| "es_can_ingest (Recovering _ _) = True"
| "es_can_ingest _ = False"

fun es_is_unrecoverable :: "'m EpochState \<Rightarrow> bool" where
  "es_is_unrecoverable (Unrecoverable _) = True"
| "es_is_unrecoverable _ = False"

fun es_is_stable :: "'m EpochState \<Rightarrow> bool" where
  "es_is_stable (Stable _) = True"
| "es_is_stable _ = False"

fun es_name :: "'m EpochState \<Rightarrow> string" where
  "es_name (Stable _) = ''Stable''"
| "es_name (EPendingPublish _) = ''PendingPublish''"
| "es_name (Merging _) = ''Merging''"
| "es_name (Recovering _ _) = ''Recovering''"
| "es_name (Unrecoverable _) = ''Unrecoverable''"

section \<open>Transitions\<close>

fun es_begin_pending ::
  "'m EpochState \<Rightarrow> EpochId \<Rightarrow> StagedCommitHandle \<Rightarrow> PendingStateRef \<Rightarrow> InvalidTransition + 'm EpochState" where
  "es_begin_pending (Stable _) new_epoch pending pref = Inr (EPendingPublish (PendingPublish new_epoch pending pref))"
| "es_begin_pending other new_epoch pending pref =
     Inl \<lparr> it_from = es_name other, it_to = ''PendingPublish'', it_reason = ''begin_pending requires Stable'' \<rparr>"

fun es_confirm_publish :: "'m EpochState \<Rightarrow> InvalidTransition + 'm EpochState" where
  "es_confirm_publish (EPendingPublish p) = Inr (Merging (pp_epoch p))"
| "es_confirm_publish other =
     Inl \<lparr> it_from = es_name other, it_to = ''Merging'', it_reason = ''confirm_publish requires PendingPublish'' \<rparr>"

fun es_rollback_pending :: "'m EpochState \<Rightarrow> EpochId \<Rightarrow> InvalidTransition + 'm EpochState" where
  "es_rollback_pending (EPendingPublish p) prior = Inr (Stable prior)"
| "es_rollback_pending other prior =
     Inl \<lparr> it_from = es_name other, it_to = ''Stable'', it_reason = ''rollback_pending requires PendingPublish'' \<rparr>"

fun es_merge_to_stable :: "'m EpochState \<Rightarrow> EpochId \<Rightarrow> InvalidTransition + 'm EpochState" where
  "es_merge_to_stable (Merging _) nxt = Inr (Stable nxt)"
| "es_merge_to_stable other nxt =
     Inl \<lparr> it_from = es_name other, it_to = ''Stable'', it_reason = ''merge_to_stable requires Merging'' \<rparr>"

definition es_detect_fork :: "'m EpochState \<Rightarrow> 'm list \<Rightarrow> 'm EpochState" where
  "es_detect_fork s buffered = Recovering (es_epoch s) buffered"

definition es_to_unrecoverable :: "'m EpochState \<Rightarrow> 'm EpochState" where
  "es_to_unrecoverable s = Unrecoverable (es_epoch s)"

fun es_repair_to_stable :: "'m EpochState \<Rightarrow> EpochId \<Rightarrow> InvalidTransition + 'm EpochState" where
  "es_repair_to_stable (Unrecoverable _) epoch = Inr (Stable epoch)"
| "es_repair_to_stable other epoch =
     Inl \<lparr> it_from = es_name other, it_to = ''Stable'', it_reason = ''repair_to_stable requires Unrecoverable'' \<rparr>"

section \<open>Welcomes\<close>

datatype WelcomeState = WNone | WPending bytes GroupId | WActive

definition ws_pending :: "bytes \<Rightarrow> GroupId \<Rightarrow> WelcomeState" where
  "ws_pending welcome gid = WPending welcome gid"

fun ws_activate :: "WelcomeState \<Rightarrow> InvalidTransition + WelcomeState" where
  "ws_activate (WPending _ _) = Inr WActive"
| "ws_activate WNone = Inl \<lparr> it_from = ''None'', it_to = ''Active'', it_reason = ''activate requires Pending'' \<rparr>"
| "ws_activate WActive = Inl \<lparr> it_from = ''Active'', it_to = ''Active'', it_reason = ''activate requires Pending'' \<rparr>"

section \<open>Sequences of transitions\<close>

fun_cases es_begin_pendingE: "es_begin_pending s e h r = Inr s'"

text \<open>
  One constructor per transition method.  A refused transition leaves the state as it was: the
  methods consume a clone and their callers store the result only when there is one.
\<close>

datatype 'm EpochOp =
    BeginPending EpochId StagedCommitHandle PendingStateRef
  | ConfirmPublish
  | RollbackPending EpochId
  | MergeToStable EpochId
  | DetectFork "'m list"
  | ToUnrecoverable
  | RepairToStable EpochId

fun es_apply :: "'m EpochOp \<Rightarrow> 'm EpochState \<Rightarrow> InvalidTransition + 'm EpochState" where
  "es_apply (BeginPending e h r) s = es_begin_pending s e h r"
| "es_apply ConfirmPublish s = es_confirm_publish s"
| "es_apply (RollbackPending e) s = es_rollback_pending s e"
| "es_apply (MergeToStable e) s = es_merge_to_stable s e"
| "es_apply (DetectFork ms) s = Inr (es_detect_fork s ms)"
| "es_apply ToUnrecoverable s = Inr (es_to_unrecoverable s)"
| "es_apply (RepairToStable e) s = es_repair_to_stable s e"

definition es_next :: "'m EpochOp \<Rightarrow> 'm EpochState \<Rightarrow> 'm EpochState" where
  "es_next op s = (case es_apply op s of Inl _ \<Rightarrow> s | Inr s' \<Rightarrow> s')"

fun es_run :: "'m EpochOp list \<Rightarrow> 'm EpochState \<Rightarrow> 'm EpochState" where
  "es_run [] s = s"
| "es_run (op # ops) s = es_run ops (es_next op s)"

definition es_halted_at :: "EpochId \<Rightarrow> 'm EpochState \<Rightarrow> bool" where
  "es_halted_at e s = (case s of Recovering e' _ \<Rightarrow> e' = e | Unrecoverable e' \<Rightarrow> e' = e | _ \<Rightarrow> False)"

lemma es_halted_next:
  "es_halted_at e s \<Longrightarrow> \<forall>e'. RepairToStable e' \<noteq> op \<Longrightarrow> es_halted_at e (es_next op s)"
  by (cases op; cases s) (auto simp: es_halted_at_def es_next_def es_detect_fork_def es_to_unrecoverable_def)

lemma es_halted_run:
  "es_halted_at e s \<Longrightarrow> \<forall>e'. RepairToStable e' \<notin> set ops \<Longrightarrow> es_halted_at e (es_run ops s)"
  by (induction ops arbitrary: s) (auto intro: es_halted_next)

lemma es_run_append: "es_run (ops @ ops') s = es_run ops' (es_run ops s)"
  by (induction ops arbitrary: s) auto



end
