(* ===== verification/Epoch_Manager.thy ===== *)
theory Epoch_Manager
  imports Epoch_State
begin

text \<open>
  The epoch manager, after \<^verbatim>\<open>crates/cgka-engine/src/epoch_manager.rs\<close>: the owner of every
  group's \<open>EpochState\<close>, of the pending publishes and of the epochs this client committed
  from.  Hash maps are partial functions; a mutating method returns its result together with
  the manager after the call, whatever the result is.  The audit context of a pending publish
  is opaque payload, a type variable.
\<close>

section \<open>State\<close>

datatype PendingKind = CreateGroup | GroupEvolution

record 'a PendingMeta =
  pmeta_group_id :: GroupId
  pmeta_prior_epoch :: EpochId
  pmeta_kind :: PendingKind
  pmeta_audit_context :: "'a option"

datatype EpochError =
    UnknownPending
  | UnknownGroup GroupId
  | EInvalidTransition InvalidTransition

record ('m, 'a) EpochManager =
  em_states :: "GroupId \<rightharpoonup> 'm EpochState"
  em_pending_counter :: u64
  em_pending :: "PendingStateRef \<rightharpoonup> 'a PendingMeta"
  em_committed_from :: "GroupId \<rightharpoonup> EpochId list"

definition em_new :: "('m, 'a) EpochManager" where
  "em_new = \<lparr> em_states = Map.empty, em_pending_counter = 0, em_pending = Map.empty,
     em_committed_from = Map.empty \<rparr>"

section \<open>Queries\<close>

definition em_epoch :: "('m, 'a) EpochManager \<Rightarrow> GroupId \<Rightarrow> EpochId option" where
  "em_epoch m g = map_option es_epoch (em_states m g)"

definition em_can_ingest :: "('m, 'a) EpochManager \<Rightarrow> GroupId \<Rightarrow> bool" where
  "em_can_ingest m g = (case em_states m g of None \<Rightarrow> True | Some s \<Rightarrow> es_can_ingest s)"

definition em_we_committed_from :: "('m, 'a) EpochManager \<Rightarrow> GroupId \<Rightarrow> EpochId \<Rightarrow> bool" where
  "em_we_committed_from m g e = (case em_committed_from m g of None \<Rightarrow> False | Some s \<Rightarrow> e \<in> set s)"

definition em_group_for_pending :: "('m, 'a) EpochManager \<Rightarrow> PendingStateRef \<Rightarrow> GroupId option" where
  "em_group_for_pending m r = map_option pmeta_group_id (em_pending m r)"

definition em_kind_for_pending :: "('m, 'a) EpochManager \<Rightarrow> PendingStateRef \<Rightarrow> PendingKind option" where
  "em_kind_for_pending m r = map_option pmeta_kind (em_pending m r)"

definition em_audit_context_for_pending :: "('m, 'a) EpochManager \<Rightarrow> PendingStateRef \<Rightarrow> 'a option" where
  "em_audit_context_for_pending m r = Option.bind (em_pending m r) pmeta_audit_context"

definition em_is_unrecoverable :: "('m, 'a) EpochManager \<Rightarrow> GroupId \<Rightarrow> bool" where
  "em_is_unrecoverable m g = (case em_states m g of None \<Rightarrow> False | Some s \<Rightarrow> es_is_unrecoverable s)"

section \<open>Mutations\<close>

definition em_next_pending_ref :: "('m, 'a) EpochManager \<Rightarrow> PendingStateRef \<times> ('m, 'a) EpochManager" where
  "em_next_pending_ref m =
     (let c = em_pending_counter m + 1 in (c, m \<lparr> em_pending_counter := c \<rparr>))"

definition em_set_stable :: "GroupId \<Rightarrow> EpochId \<Rightarrow> ('m, 'a) EpochManager \<Rightarrow> ('m, 'a) EpochManager" where
  "em_set_stable g e m = m \<lparr> em_states := (em_states m)(g \<mapsto> Stable e) \<rparr>"

definition em_record_committed_from ::
  "GroupId \<Rightarrow> EpochId \<Rightarrow> ('m, 'a) EpochManager \<Rightarrow> ('m, 'a) EpochManager" where
  "em_record_committed_from g e m =
     m \<lparr> em_committed_from := (em_committed_from m)
           (g \<mapsto> insort_insert e (case em_committed_from m g of None \<Rightarrow> [] | Some s \<Rightarrow> s)) \<rparr>"

definition em_begin_pending ::
  "GroupId \<Rightarrow> EpochId \<Rightarrow> EpochId \<Rightarrow> StagedCommitHandle \<Rightarrow> PendingStateRef \<Rightarrow> PendingKind \<Rightarrow> 'a option \<Rightarrow>
   ('m, 'a) EpochManager \<Rightarrow> (EpochError + unit) \<times> ('m, 'a) EpochManager" where
  "em_begin_pending g pre new pending pref kind audit m =
     (let prev = (case em_states m g of None \<Rightarrow> Stable pre | Some s \<Rightarrow> s) in
      case es_begin_pending prev new pending pref of
        Inl err \<Rightarrow> (Inl (EInvalidTransition err), m)
      | Inr new_state \<Rightarrow>
          (let m1 = em_record_committed_from g pre m in
           (Inr (), m1 \<lparr> em_states := (em_states m1)(g \<mapsto> new_state),
                         em_pending := (em_pending m1)(pref \<mapsto>
                           \<lparr> pmeta_group_id = g, pmeta_prior_epoch = pre, pmeta_kind = kind,
                             pmeta_audit_context = audit \<rparr>) \<rparr>)))"

definition em_confirm_publish ::
  "PendingStateRef \<Rightarrow> ('m, 'a) EpochManager \<Rightarrow> (EpochError + GroupId \<times> EpochId) \<times> ('m, 'a) EpochManager" where
  "em_confirm_publish r m =
     (case em_pending m r of
        None \<Rightarrow> (Inl UnknownPending, m)
      | Some meta \<Rightarrow>
          (let g = pmeta_group_id meta in
           case em_states m g of
             None \<Rightarrow> (Inl (UnknownGroup g), m)
           | Some prev \<Rightarrow>
               (case es_confirm_publish prev of
                  Inl err \<Rightarrow> (Inl (EInvalidTransition err), m)
                | Inr merging \<Rightarrow>
                    (case es_merge_to_stable merging (es_epoch merging) of
                       Inl err \<Rightarrow> (Inl (EInvalidTransition err), m)
                     | Inr st \<Rightarrow>
                         (Inr (g, es_epoch merging),
                          m \<lparr> em_pending := (em_pending m)(r := None),
                              em_states := (em_states m)(g \<mapsto> st) \<rparr>)))))"

definition em_rollback_publish ::
  "PendingStateRef \<Rightarrow> ('m, 'a) EpochManager \<Rightarrow> (EpochError + GroupId \<times> EpochId) \<times> ('m, 'a) EpochManager" where
  "em_rollback_publish r m =
     (case em_pending m r of
        None \<Rightarrow> (Inl UnknownPending, m)
      | Some meta \<Rightarrow>
          (let g = pmeta_group_id meta; prior = pmeta_prior_epoch meta in
           case em_states m g of
             None \<Rightarrow> (Inl (UnknownGroup g), m)
           | Some prev \<Rightarrow>
               (case es_rollback_pending prev prior of
                  Inl err \<Rightarrow> (Inl (EInvalidTransition err), m)
                | Inr st \<Rightarrow>
                    (Inr (g, prior),
                     m \<lparr> em_pending := (em_pending m)(r := None),
                         em_states := (em_states m)(g \<mapsto> st) \<rparr>))))"

definition em_prune_committed_from_before ::
  "GroupId \<Rightarrow> EpochId \<Rightarrow> ('m, 'a) EpochManager \<Rightarrow> ('m, 'a) EpochManager" where
  "em_prune_committed_from_before g oldest m =
     (case em_committed_from m g of
        None \<Rightarrow> m
      | Some epochs \<Rightarrow>
          (let retained = filter (\<lambda>e. oldest \<le> e) epochs in
           m \<lparr> em_committed_from := (em_committed_from m)(g := (if retained = [] then None else Some retained)) \<rparr>))"

definition em_detect_fork :: "GroupId \<Rightarrow> 'm list \<Rightarrow> ('m, 'a) EpochManager \<Rightarrow> ('m, 'a) EpochManager" where
  "em_detect_fork g buffered m =
     (let prev = (case em_states m g of None \<Rightarrow> Stable 0 | Some s \<Rightarrow> s) in
      m \<lparr> em_states := (em_states m)(g \<mapsto> es_detect_fork prev buffered) \<rparr>)"

definition em_mark_unrecoverable :: "GroupId \<Rightarrow> ('m, 'a) EpochManager \<Rightarrow> ('m, 'a) EpochManager" where
  "em_mark_unrecoverable g m =
     (let prev = (case em_states m g of None \<Rightarrow> Stable 0 | Some s \<Rightarrow> s) in
      m \<lparr> em_states := (em_states m)(g \<mapsto> es_to_unrecoverable prev) \<rparr>)"

section \<open>Runs\<close>

text \<open>
  The mutators in any order.  A pending publish uses the reference allocated for it, as
  \<^verbatim>\<open>begin_pending\<close> requires of its caller; allocations stay below the \<^verbatim>\<open>u64\<close> range.
\<close>

inductive em_step :: "('m, 'a) EpochManager \<Rightarrow> ('m, 'a) EpochManager \<Rightarrow> bool" where
  set_stable: "em_step m (em_set_stable g e m)"
| begin_p:
    "em_pending_counter m \<noteq> - 1 \<Longrightarrow> em_next_pending_ref m = (r, m1) \<Longrightarrow>
     em_step m (snd (em_begin_pending g pre new h r kind audit m1))"
| allocate: "em_pending_counter m \<noteq> - 1 \<Longrightarrow> em_step m (snd (em_next_pending_ref m))"
| confirm: "em_step m (snd (em_confirm_publish r m))"
| rollback: "em_step m (snd (em_rollback_publish r m))"
| record_from: "em_step m (em_record_committed_from g e m)"
| prune: "em_step m (em_prune_committed_from_before g e m)"
| fork: "em_step m (em_detect_fork g ms m)"
| halt: "em_step m (em_mark_unrecoverable g m)"

inductive em_reachable :: "('m, 'a) EpochManager \<Rightarrow> bool" where
  init: "em_reachable em_new"
| step: "em_reachable m \<Longrightarrow> em_step m m' \<Longrightarrow> em_reachable m'"

definition em_inv :: "('m, 'a) EpochManager \<Rightarrow> bool" where
  "em_inv m \<longleftrightarrow>
     (\<forall>g p. em_states m g = Some (EPendingPublish p) \<longrightarrow>
        (\<exists>meta. em_pending m (pp_pending_ref p) = Some meta \<and> pmeta_group_id meta = g)) \<and>
     (\<forall>r meta. em_pending m r = Some meta \<longrightarrow> r \<le> em_pending_counter m) \<and>
     (\<forall>g es. em_committed_from m g = Some es \<longrightarrow> bs_inv es \<and> es \<noteq> [])"

lemmas em_op_defs = em_set_stable_def em_begin_pending_def em_next_pending_ref_def em_confirm_publish_def
  em_rollback_publish_def em_record_committed_from_def em_prune_committed_from_before_def
  em_detect_fork_def em_mark_unrecoverable_def es_detect_fork_def es_to_unrecoverable_def

lemma em_begin_pending_cases:
  obtains err where "em_begin_pending g pre new h r kind audit m = (Inl err, m)"
  | m' where "em_begin_pending g pre new h r kind audit m = (Inr (), m')"
      "em_states m' = (em_states m)(g \<mapsto> EPendingPublish (PendingPublish new h r))"
      "em_pending m' = (em_pending m)(r \<mapsto> \<lparr> pmeta_group_id = g, pmeta_prior_epoch = pre,
          pmeta_kind = kind, pmeta_audit_context = audit \<rparr>)"
      "em_pending_counter m' = em_pending_counter m"
      "em_committed_from m' = em_committed_from (em_record_committed_from g pre m)"
      "case em_states m g of None \<Rightarrow> True | Some s \<Rightarrow> es_is_stable s"
proof (cases "es_begin_pending (case em_states m g of None \<Rightarrow> Stable pre | Some s \<Rightarrow> s) new h r")
  case (Inl err)
  then show thesis using that(1) by (simp add: em_begin_pending_def)
next
  case (Inr s)
  then have "s = EPendingPublish (PendingPublish new h r)" "case em_states m g of None \<Rightarrow> True | Some s \<Rightarrow> es_is_stable s"
    by (auto elim!: es_begin_pendingE split: option.splits)
  note s = this
  show thesis
    by (rule that(2) [of "snd (em_begin_pending g pre new h r kind audit m)"])
      (use Inr s in \<open>simp_all add: em_begin_pending_def em_record_committed_from_def Let_def\<close>)
qed

text \<open>\<open>em_settle r g s\<close> is what confirming and rolling back have in common: the reference is
  consumed and the group's state is replaced.\<close>

definition em_settle :: "PendingStateRef \<Rightarrow> GroupId \<Rightarrow> EpochId \<Rightarrow> ('m, 'a) EpochManager \<Rightarrow> ('m, 'a) EpochManager" where
  "em_settle r g e m = m \<lparr> em_pending := (em_pending m)(r := None), em_states := (em_states m)(g \<mapsto> Stable e) \<rparr>"

lemma em_confirm_publish_cases:
  obtains err where "em_confirm_publish r m = (Inl err, m)"
  | meta p where "em_pending m r = Some meta" "em_states m (pmeta_group_id meta) = Some (EPendingPublish p)"
      "em_confirm_publish r m = (Inr (pmeta_group_id meta, pp_epoch p), em_settle r (pmeta_group_id meta) (pp_epoch p) m)"
proof (cases "em_pending m r")
  case None
  then show thesis using that(1) by (simp add: em_confirm_publish_def)
next
  case (Some meta)
  show thesis
  proof (cases "\<exists>p. em_states m (pmeta_group_id meta) = Some (EPendingPublish p)")
    case True
    then obtain p where p: "em_states m (pmeta_group_id meta) = Some (EPendingPublish p)" by blast
    then have "em_confirm_publish r m =
        (Inr (pmeta_group_id meta, pp_epoch p), em_settle r (pmeta_group_id meta) (pp_epoch p) m)"
      using Some by (simp add: em_confirm_publish_def em_settle_def Let_def)
    then show thesis by (rule that(2) [OF Some p])
  next
    case False
    then have "\<exists>err. em_confirm_publish r m = (Inl err, m)"
    proof (cases "em_states m (pmeta_group_id meta)")
      case (Some s)
      then show ?thesis using False \<open>em_pending m r = Some meta\<close>
        by (cases s) (auto simp: em_confirm_publish_def)
    qed (use Some in \<open>simp add: em_confirm_publish_def\<close>)
    then show thesis using that(1) by blast
  qed
qed

lemma em_rollback_publish_cases:
  obtains err where "em_rollback_publish r m = (Inl err, m)"
  | meta p where "em_pending m r = Some meta" "em_states m (pmeta_group_id meta) = Some (EPendingPublish p)"
      "em_rollback_publish r m =
         (Inr (pmeta_group_id meta, pmeta_prior_epoch meta), em_settle r (pmeta_group_id meta) (pmeta_prior_epoch meta) m)"
proof (cases "em_pending m r")
  case None
  then show thesis using that(1) by (simp add: em_rollback_publish_def)
next
  case (Some meta)
  show thesis
  proof (cases "\<exists>p. em_states m (pmeta_group_id meta) = Some (EPendingPublish p)")
    case True
    then obtain p where p: "em_states m (pmeta_group_id meta) = Some (EPendingPublish p)" by blast
    then have "em_rollback_publish r m =
        (Inr (pmeta_group_id meta, pmeta_prior_epoch meta),
         em_settle r (pmeta_group_id meta) (pmeta_prior_epoch meta) m)"
      using Some by (simp add: em_rollback_publish_def em_settle_def Let_def)
    then show thesis by (rule that(2) [OF Some p])
  next
    case False
    then have "\<exists>err. em_rollback_publish r m = (Inl err, m)"
    proof (cases "em_states m (pmeta_group_id meta)")
      case (Some s)
      then show ?thesis using False \<open>em_pending m r = Some meta\<close>
        by (cases s) (auto simp: em_rollback_publish_def)
    qed (use Some in \<open>simp add: em_rollback_publish_def\<close>)
    then show thesis using that(1) by blast
  qed
qed

section \<open>The invariant\<close>

lemma em_inv_new: "em_inv em_new"
  by (simp add: em_inv_def em_new_def)

lemma em_inv_settle:
  assumes "em_inv m" "em_pending m r = Some meta"
  shows "em_inv (em_settle r (pmeta_group_id meta) e m)"
  unfolding em_inv_def
proof (intro conjI allI impI)
  let ?m = "em_settle r (pmeta_group_id meta) e m"
  fix g p
  assume "em_states ?m g = Some (EPendingPublish p)"
  then have g: "g \<noteq> pmeta_group_id meta" "em_states m g = Some (EPendingPublish p)"
    by (auto simp: em_settle_def split: if_splits)
  then obtain k where k: "em_pending m (pp_pending_ref p) = Some k" "pmeta_group_id k = g"
    using assms(1) unfolding em_inv_def by blast
  then have "pp_pending_ref p \<noteq> r" using assms(2) g(1) by auto
  then show "\<exists>k. em_pending ?m (pp_pending_ref p) = Some k \<and> pmeta_group_id k = g"
    using k by (simp add: em_settle_def)
qed (use assms(1) in \<open>auto simp: em_inv_def em_settle_def split: if_splits\<close>)

lemma em_inv_replace:
  assumes "em_inv m" "\<And>p. s \<noteq> EPendingPublish p"
  shows "em_inv (m \<lparr> em_states := (em_states m)(g \<mapsto> s) \<rparr>)"
  using assms by (auto simp: em_inv_def)

lemma em_inv_record: "em_inv m \<Longrightarrow> em_inv (em_record_committed_from g e m)"
proof -
  have "insort_insert e es \<noteq> []" for es :: "EpochId list"
    using set_insort_insert [of e es] by auto
  then show "em_inv m \<Longrightarrow> ?thesis"
    by (cases "em_committed_from m g") (auto simp: em_inv_def em_record_committed_from_def)
qed

lemma em_inv_prune: "em_inv m \<Longrightarrow> em_inv (em_prune_committed_from_before g e m)"
  by (cases "em_committed_from m g")
    (auto simp: em_inv_def em_prune_committed_from_before_def Let_def bs_inv_def sorted_wrt_filter)

lemma em_next_ref_fresh:
  assumes "em_inv m" "em_pending_counter m \<noteq> - 1" "em_next_pending_ref m = (r, m1)"
  shows "em_pending m r = None" "em_pending_counter m1 = r" "em_inv m1"
    "em_states m1 = em_states m" "em_pending m1 = em_pending m" "em_committed_from m1 = em_committed_from m"
proof -
  have r: "r = em_pending_counter m + 1" and m1: "m1 = m \<lparr> em_pending_counter := r \<rparr>"
    using assms(3) by (auto simp: em_next_pending_ref_def Let_def)
  have lt: "em_pending_counter m < r"
    using word_less_succ(1) [OF assms(2)] r by simp
  show "em_pending m r = None" using assms(1) lt by (force simp: em_inv_def)
  show "em_inv m1" using assms(1) lt by (auto simp: em_inv_def m1 intro: less_imp_le order_trans)
qed (use assms(3) in \<open>auto simp: em_next_pending_ref_def Let_def\<close>)

lemma em_inv_begin:
  assumes "em_inv m" "r \<le> em_pending_counter m" "em_pending m r = None"
  shows "em_inv (snd (em_begin_pending g pre new h r kind audit m))"
proof (cases rule: em_begin_pending_cases [of g pre new h r kind audit m])
  case (1 err)
  then show ?thesis using assms(1) by simp
next
  case (2 m')
  have cf: "\<forall>g es. em_committed_from m' g = Some es \<longrightarrow> bs_inv es \<and> es \<noteq> []"
    using em_inv_record [OF assms(1)] 2(5) by (simp add: em_inv_def)
  have "em_pending m' (pp_pending_ref p) = em_pending m (pp_pending_ref p)"
    if "em_states m k = Some (EPendingPublish p)" for k p
    using assms(1,3) that 2(3) unfolding em_inv_def by fastforce
  then have "\<exists>meta. em_pending m' (pp_pending_ref p) = Some meta \<and> pmeta_group_id meta = k"
    if "em_states m' k = Some (EPendingPublish p)" for k p
    using that assms(1) unfolding 2(2) em_inv_def by (cases "k = g") (auto simp: 2(3))
  then show ?thesis
    using cf assms(1,2) 2(1,3,4) by (auto simp: em_inv_def split: if_splits)
qed

lemma em_inv_step: "em_step m m' \<Longrightarrow> em_inv m \<Longrightarrow> em_inv m'"
proof (induction rule: em_step.induct)
  case (begin_p m r m1 g pre new h kind audit)
  then show ?case using em_next_ref_fresh [OF begin_p(3,1,2)] by (intro em_inv_begin) simp_all
next
  case (allocate m)
  then show ?case using em_next_ref_fresh(3) [of m] by (cases "em_next_pending_ref m") auto
next
  case (confirm m r)
  then show ?case by (cases rule: em_confirm_publish_cases [of r m]) (auto intro: em_inv_settle)
next
  case (rollback m r)
  then show ?case by (cases rule: em_rollback_publish_cases [of r m]) (auto intro: em_inv_settle)
qed (auto simp: em_set_stable_def em_detect_fork_def em_mark_unrecoverable_def es_detect_fork_def
    es_to_unrecoverable_def Let_def intro: em_inv_replace em_inv_record em_inv_prune)

lemma em_inv_reachable: "em_reachable m \<Longrightarrow> em_inv m"
  by (induction rule: em_reachable.induct) (auto simp: em_inv_new intro: em_inv_step)

section \<open>A staged publish\<close>

text \<open>
  What a publish staged for \<open>g\<close> under its own reference keeps along every run: the entry of the
  reference is the recorded one until it is consumed, and no state carries the reference but that of
  \<open>g\<close>, with the staged epoch and handle.
\<close>

definition staged_inv :: "GroupId \<Rightarrow> PendingPublish \<Rightarrow> 'a PendingMeta \<Rightarrow> ('m, 'a) EpochManager \<Rightarrow> bool" where
  "staged_inv g p meta m \<longleftrightarrow>
     pp_pending_ref p \<le> em_pending_counter m
     \<and> (em_pending m (pp_pending_ref p) = None \<or> em_pending m (pp_pending_ref p) = Some meta)
     \<and> (\<forall>k q. em_states m k = Some (EPendingPublish q) \<longrightarrow> pp_pending_ref q = pp_pending_ref p \<longrightarrow> k = g \<and> q = p)"

lemma staged_inv_settle: "staged_inv g p meta m \<Longrightarrow> staged_inv g p meta (em_settle r k e m)"
  by (auto simp: staged_inv_def em_settle_def split: if_splits)

lemma staged_inv_replace:
  "staged_inv g p meta m \<Longrightarrow> (\<And>q. st \<noteq> EPendingPublish q) \<Longrightarrow>
   staged_inv g p meta (m \<lparr> em_states := (em_states m)(k \<mapsto> st) \<rparr>)"
  by (auto simp: staged_inv_def split: if_splits)

lemma staged_inv_frame:
  assumes "em_states m' = em_states m" "em_pending m' = em_pending m" "em_pending_counter m \<le> em_pending_counter m'"
  shows "staged_inv g p meta m \<Longrightarrow> staged_inv g p meta m'"
  using assms by (auto simp: staged_inv_def)

lemma staged_inv_begin:
  assumes "staged_inv g p meta m" "em_pending_counter m \<noteq> - 1" "em_next_pending_ref m = (r, m1)"
  shows "staged_inv g p meta (snd (em_begin_pending k pre new h r kind audit m1))"
proof -
  have r: "r = em_pending_counter m + 1" "m1 = m \<lparr> em_pending_counter := r \<rparr>"
    using assms(3) by (auto simp: em_next_pending_ref_def Let_def)
  have lt: "em_pending_counter m < r" using word_less_succ(1) [OF assms(2)] r by simp
  then have ne: "r \<noteq> pp_pending_ref p" using assms(1) by (auto simp: staged_inv_def)
  have m1: "staged_inv g p meta m1" using assms(1) lt r by (intro staged_inv_frame [of m1 m]) auto
  show ?thesis
  proof (cases rule: em_begin_pending_cases [of k pre new h r kind audit m1])
    case (2 m')
    then show ?thesis using m1 ne by (auto simp: staged_inv_def split: if_splits)
  qed (use m1 in simp)
qed

lemma staged_inv_step: "em_step m m' \<Longrightarrow> staged_inv g p meta m \<Longrightarrow> staged_inv g p meta m'"
proof (induction rule: em_step.induct)
  case (set_stable m k e)
  then show ?case unfolding em_set_stable_def by (rule staged_inv_replace) simp
next
  case (begin_p m r m1 k pre new h kind audit)
  show ?case by (rule staged_inv_begin [OF begin_p(3,1,2)])
next
  case (allocate m)
  have "em_pending_counter m \<le> em_pending_counter m + 1"
    using word_less_succ(1) [OF allocate(1)] by simp
  then show ?case by (intro staged_inv_frame [OF _ _ _ allocate(2)]) (simp_all add: em_next_pending_ref_def Let_def)
next
  case (confirm m r)
  show ?case
    by (cases rule: em_confirm_publish_cases [of r m]) (use confirm staged_inv_settle in simp_all)
next
  case (rollback m r)
  show ?case
    by (cases rule: em_rollback_publish_cases [of r m]) (use rollback staged_inv_settle in simp_all)
next
  case (record_from m k e)
  show ?case by (rule staged_inv_frame [OF _ _ _ record_from]) (simp_all add: em_record_committed_from_def)
next
  case (prune m k e)
  show ?case
    by (rule staged_inv_frame [OF _ _ _ prune]) (simp_all add: em_prune_committed_from_before_def Let_def split: option.split)
next
  case (fork m k ms)
  then show ?case unfolding em_detect_fork_def Let_def by (rule staged_inv_replace) (simp add: es_detect_fork_def)
next
  case (halt m k)
  then show ?case
    unfolding em_mark_unrecoverable_def Let_def by (rule staged_inv_replace) (simp add: es_to_unrecoverable_def)
qed

lemma staged_inv_steps: "em_step\<^sup>*\<^sup>* m m' \<Longrightarrow> staged_inv g p meta m \<Longrightarrow> staged_inv g p meta m'"
  by (induction rule: rtranclp_induct) (auto intro: staged_inv_step)

lemma em_reachable_steps: "em_step\<^sup>*\<^sup>* m m' \<Longrightarrow> em_reachable m \<Longrightarrow> em_reachable m'"
  by (induction rule: rtranclp_induct) (auto intro: em_reachable.step)

lemma staged_inv_staged:
  assumes "em_inv m" "em_pending_counter m \<noteq> - 1" "em_next_pending_ref m = (r, m1)"
    and "em_begin_pending g pre new h r kind audit m1 = (Inr (), m2)"
  shows "em_states m2 = (em_states m)(g \<mapsto> EPendingPublish (PendingPublish new h r))"
    and "staged_inv g (PendingPublish new h r)
      \<lparr> pmeta_group_id = g, pmeta_prior_epoch = pre, pmeta_kind = kind, pmeta_audit_context = audit \<rparr> m2"
proof -
  note fresh = em_next_ref_fresh [OF assms(1-3)]
  have m2: "em_states m2 = (em_states m)(g \<mapsto> EPendingPublish (PendingPublish new h r))"
    "em_pending m2 = (em_pending m)(r \<mapsto> \<lparr> pmeta_group_id = g, pmeta_prior_epoch = pre,
        pmeta_kind = kind, pmeta_audit_context = audit \<rparr>)" "em_pending_counter m2 = r"
    using assms(4) fresh(2,4,5) by (cases rule: em_begin_pending_cases [of g pre new h r kind audit m1]; simp)+
  have "pp_pending_ref q \<noteq> r" if "em_states m k = Some (EPendingPublish q)" for k q
    using assms(1) fresh(1) that unfolding em_inv_def by fastforce
  then show "staged_inv g (PendingPublish new h r)
      \<lparr> pmeta_group_id = g, pmeta_prior_epoch = pre, pmeta_kind = kind, pmeta_audit_context = audit \<rparr> m2"
    by (auto simp: staged_inv_def m2 split: if_splits)
  show "em_states m2 = (em_states m)(g \<mapsto> EPendingPublish (PendingPublish new h r))" by (rule m2(1))
qed

section \<open>Properties\<close>


definition ex_em0 :: "(unit, unit) EpochManager" where
  "ex_em0 = em_set_stable [7] 3 em_new"

definition ex_em1 :: "(unit, unit) EpochManager" where
  "ex_em1 = snd (em_next_pending_ref ex_em0)"

definition ex_em :: "(unit, unit) EpochManager" where
  "ex_em = snd (em_begin_pending [7] 3 4 [1] 1 GroupEvolution None ex_em1)"

lemmas ex_em_defs = ex_em_def ex_em1_def ex_em0_def

lemma ex_em0_reachable: "em_reachable ex_em0"
  unfolding ex_em0_def by (rule em_reachable.step [OF em_reachable.init em_step.set_stable])

lemma ex_em_begun:
  "em_next_pending_ref ex_em0 = (1, ex_em1)" "em_pending_counter ex_em0 \<noteq> - 1"
  "em_begin_pending [7] 3 4 [1] 1 GroupEvolution None ex_em1 = (Inr (), ex_em)"
  by (simp_all add: ex_em_defs em_op_defs em_new_def)

lemma ex_em_pending: "em_states ex_em [7] = Some (EPendingPublish (PendingPublish 4 [1] 1))"
  by (simp add: ex_em_defs em_op_defs em_new_def)


text \<open>
  C24: The fallible operations are atomic: when \<^verbatim>\<open>begin_pending\<close>, \<^verbatim>\<open>confirm_publish\<close> or
  \<^verbatim>\<open>rollback_publish\<close> returns an error, every map of the manager is as before the call.
\<close>

theorem epoch_manager_errors_atomic:
  "(\<forall>e. fst (em_begin_pending g pre new h r kind audit m) = Inl e \<longrightarrow>
      snd (em_begin_pending g pre new h r kind audit m) = m)
   \<and> (\<forall>e. fst (em_confirm_publish r m) = Inl e \<longrightarrow> snd (em_confirm_publish r m) = m)
   \<and> (\<forall>e. fst (em_rollback_publish r m) = Inl e \<longrightarrow> snd (em_rollback_publish r m) = m)"
proof (intro conjI allI impI)
  fix e
  assume "fst (em_begin_pending g pre new h r kind audit m) = Inl e"
  then show "snd (em_begin_pending g pre new h r kind audit m) = m"
    by (cases rule: em_begin_pending_cases [of g pre new h r kind audit m]) auto
next
  fix e
  assume "fst (em_confirm_publish r m) = Inl e"
  then show "snd (em_confirm_publish r m) = m" by (cases rule: em_confirm_publish_cases [of r m]) auto
next
  fix e
  assume "fst (em_rollback_publish r m) = Inl e"
  then show "snd (em_rollback_publish r m) = m" by (cases rule: em_rollback_publish_cases [of r m]) auto
qed

theorem epoch_manager_errors_atomic_witness:
  "snd (em_begin_pending [7] 4 5 [2] 2 GroupEvolution None ex_em) = ex_em"
proof -
  have "fst (em_begin_pending [7] 4 5 [2] 2 GroupEvolution None ex_em) = Inl (EInvalidTransition
      \<lparr> it_from = ''PendingPublish'', it_to = ''PendingPublish'', it_reason = ''begin_pending requires Stable'' \<rparr>)"
    by (simp add: em_begin_pending_def ex_em_pending)
  then show ?thesis
    using epoch_manager_errors_atomic [where g = "[7]" and pre = 4 and new = 5 and h = "[2]" and r = 2
        and kind = GroupEvolution and audit = None and m = ex_em] by blast
qed

text \<open>
  A failed publish is undone.  From a stable group, staging with a fresh reference and
  rolling that reference back succeeds and restores the states and the pending publishes; the
  committed-from record keeps the epoch, as fork detection requires.
\<close>

lemma begin_then_rollback_restores:
  assumes "em_states m g = Some (Stable pre)" "em_pending m r = None"
  shows "\<exists>m1 m2. em_begin_pending g pre new h r kind audit m = (Inr (), m1)
     \<and> em_rollback_publish r m1 = (Inr (g, pre), m2)
     \<and> em_states m2 = em_states m \<and> em_pending m2 = em_pending m
     \<and> em_we_committed_from m2 g pre"
proof -
  let ?m1 = "snd (em_begin_pending g pre new h r kind audit m)"
  have m1: "em_begin_pending g pre new h r kind audit m = (Inr (), ?m1)"
    "em_states ?m1 = (em_states m)(g \<mapsto> EPendingPublish (PendingPublish new h r))"
    "em_pending ?m1 = (em_pending m)(r \<mapsto> \<lparr> pmeta_group_id = g, pmeta_prior_epoch = pre,
        pmeta_kind = kind, pmeta_audit_context = audit \<rparr>)"
    "em_we_committed_from ?m1 g pre"
    using assms(1)
    by (simp_all add: em_begin_pending_def em_record_committed_from_def em_we_committed_from_def set_insort_insert Let_def)
  have "em_rollback_publish r ?m1 = (Inr (g, pre), em_settle r g pre ?m1)"
    by (simp add: em_rollback_publish_def m1(2,3) em_settle_def Let_def)
  moreover have "em_states (em_settle r g pre ?m1) = em_states m" "em_pending (em_settle r g pre ?m1) = em_pending m"
    using assms by (auto simp: em_settle_def m1(2,3) fun_eq_iff)
  moreover have "em_we_committed_from (em_settle r g pre ?m1) g pre"
    using m1(4) by (simp add: em_we_committed_from_def em_settle_def)
  ultimately show ?thesis using m1(1) by blast
qed

end
