(* ===== verification/Bounded_Id_Set.thy ===== *)
theory Bounded_Id_Set
  imports Prelude
begin

text \<open>
  The bounded FIFO cache of message ids, after \<^verbatim>\<open>crates/cgka-engine/src/bounded_id_set.rs\<close>,
  and its client, the cached hex snapshot of
  \<^verbatim>\<open>seen_message_ids_hex_for_convergence\<close> in \<^verbatim>\<open>distributed_convergence.rs\<close>.  The locale
  \<open>generation_set\<close> is the contract between the two: a set with a wrapping generation counter
  that moves exactly when the membership does.
\<close>

section \<open>The cache\<close>

definition DEDUP_CACHE_CAPACITY :: nat where
  "DEDUP_CACHE_CAPACITY = 100000"

record 'a BoundedIdSet =
  bis_members :: "'a set"
  bis_order :: "'a list"
  bis_capacity :: nat
  bis_generation :: u64

text \<open>\<^verbatim>\<open>with_capacity\<close> panics on zero; the panic is \<open>None\<close>.\<close>

definition bis_with_capacity :: "nat \<Rightarrow> 'a BoundedIdSet option" where
  "bis_with_capacity capacity =
     (if capacity > 0
      then Some \<lparr> bis_members = {}, bis_order = [], bis_capacity = capacity, bis_generation = 0 \<rparr>
      else None)"

definition bis_contains :: "'a \<Rightarrow> 'a BoundedIdSet \<Rightarrow> bool" where
  "bis_contains x s \<longleftrightarrow> x \<in> bis_members s"

fun bis_evict :: "nat \<Rightarrow> 'a list \<Rightarrow> 'a set \<Rightarrow> 'a list \<times> 'a set" where
  "bis_evict capacity [] members = ([], members)"
| "bis_evict capacity (x # xs) members =
     (if length (x # xs) > capacity then bis_evict capacity xs (members - {x}) else (x # xs, members))"

definition bis_insert :: "'a \<Rightarrow> 'a BoundedIdSet \<Rightarrow> 'a BoundedIdSet" where
  "bis_insert x s =
     (if x \<in> bis_members s then s
      else (let members = insert x (bis_members s); order = bis_order s @ [x];
                e = bis_evict (bis_capacity s) order members
            in s \<lparr> bis_members := snd e, bis_order := fst e, bis_generation := bis_generation s + 1 \<rparr>))"

section \<open>Invariant and refinement\<close>

definition bis_inv :: "'a BoundedIdSet \<Rightarrow> bool" where
  "bis_inv s \<longleftrightarrow> bis_members s = set (bis_order s) \<and> distinct (bis_order s) \<and>
     length (bis_order s) \<le> bis_capacity s \<and> bis_capacity s > 0"

text \<open>The abstract cache is a queue of distinct ids that forgets its head when it is full.\<close>

definition fifo_insert :: "nat \<Rightarrow> 'a \<Rightarrow> 'a list \<Rightarrow> 'a list" where
  "fifo_insert capacity x q =
     (if x \<in> set q then q else if length q < capacity then q @ [x] else tl q @ [x])"

lemma bis_evict_drop:
  "distinct q \<Longrightarrow> bis_evict capacity q (set q) =
     (drop (length q - capacity) q, set (drop (length q - capacity) q))"
proof (induction q)
  case (Cons x q)
  show ?case
  proof (cases "length (x # q) > capacity")
    case True
    have "set (x # q) - {x} = set q" using Cons.prems by auto
    then have "bis_evict capacity (x # q) (set (x # q)) = bis_evict capacity q (set q)"
      using True by (simp only: bis_evict.simps if_True)
    moreover have "drop (length (x # q) - capacity) (x # q) = drop (length q - capacity) q"
      using True by (simp add: Suc_diff_le)
    ultimately show ?thesis using Cons by (simp only: distinct.simps)
  qed simp
qed simp

lemma bis_insert_order:
  assumes "bis_inv s"
  shows "bis_order (bis_insert x s) = fifo_insert (bis_capacity s) x (bis_order s)"
    and "bis_members (bis_insert x s) = set (fifo_insert (bis_capacity s) x (bis_order s))"
proof -
  let ?q = "bis_order s @ [x]" and ?c = "bis_capacity s"
  have "bis_order (bis_insert x s) = fifo_insert ?c x (bis_order s) \<and>
      bis_members (bis_insert x s) = set (fifo_insert ?c x (bis_order s))"
  proof (cases "x \<in> bis_members s")
    case True
    then show ?thesis using assms by (simp add: bis_insert_def fifo_insert_def bis_inv_def)
  next
    case False
    then have d: "distinct ?q" and m: "insert x (bis_members s) = set ?q"
      using assms by (auto simp: bis_inv_def)
    have "drop (length ?q - ?c) ?q = fifo_insert ?c x (bis_order s)"
    proof (cases "length (bis_order s) < ?c")
      case True
      then show ?thesis using False assms by (simp add: fifo_insert_def bis_inv_def)
    next
      case full: False
      then have "length (bis_order s) = ?c" using assms by (simp add: bis_inv_def)
      then show ?thesis
        using False assms by (cases "bis_order s") (auto simp: fifo_insert_def bis_inv_def)
    qed
    then show ?thesis
      using False bis_evict_drop [OF d, of ?c] by (simp add: bis_insert_def m Let_def)
  qed
  then show "bis_order (bis_insert x s) = fifo_insert ?c x (bis_order s)"
    "bis_members (bis_insert x s) = set (fifo_insert ?c x (bis_order s))" by blast+
qed

lemma bis_insert_capacity [simp]: "bis_capacity (bis_insert x s) = bis_capacity s"
  by (simp add: bis_insert_def Let_def)

lemma fifo_insert_props:
  assumes "distinct q" "length q \<le> c" "c > 0"
  shows "distinct (fifo_insert c x q)" "length (fifo_insert c x q) \<le> c" "x \<in> set (fifo_insert c x q)"
  using assms by (cases q; auto simp: fifo_insert_def)+

lemma bis_inv_insert: "bis_inv s \<Longrightarrow> bis_inv (bis_insert x s)"
  using fifo_insert_props [of "bis_order s" "bis_capacity s" x] bis_insert_order [of s x]
  by (simp add: bis_inv_def)

lemma bis_inv_fold: "bis_inv s \<Longrightarrow> bis_inv (fold bis_insert xs s)"
  by (induction xs arbitrary: s) (auto intro: bis_inv_insert)

lemma bis_fold_capacity [simp]: "bis_capacity (fold bis_insert xs s) = bis_capacity s"
  by (induction xs arbitrary: s) auto

lemma bis_inv_new: "bis_with_capacity c = Some s \<Longrightarrow> bis_inv s"
  by (auto simp: bis_with_capacity_def bis_inv_def split: if_splits)

lemma bis_fold_order:
  "bis_inv s \<Longrightarrow> bis_order (fold bis_insert xs s) = fold (fifo_insert (bis_capacity s)) xs (bis_order s)"
  by (induction xs arbitrary: s) (simp_all add: bis_inv_insert bis_insert_order)

section \<open>The generation contract\<close>

locale generation_set =
  fixes ins :: "'a \<Rightarrow> 's \<Rightarrow> 's" and members :: "'s \<Rightarrow> 'a set" and gen :: "'s \<Rightarrow> u64" and inv :: "'s \<Rightarrow> bool"
  assumes inv_ins: "inv s \<Longrightarrow> inv (ins x s)"
    and ins_known: "x \<in> members s \<Longrightarrow> ins x s = s"
    and gen_fresh: "inv s \<Longrightarrow> x \<notin> members s \<Longrightarrow> gen (ins x s) = gen s + 1"
begin

lemma gen_fold:
  "inv s \<Longrightarrow> \<exists>k \<le> length xs. gen (fold ins xs s) = gen s + of_nat k \<and> (k = 0 \<longrightarrow> fold ins xs s = s)"
proof (induction xs arbitrary: s)
  case (Cons x xs)
  obtain k where k: "k \<le> length xs" "gen (fold ins xs (ins x s)) = gen (ins x s) + of_nat k"
      "k = 0 \<longrightarrow> fold ins xs (ins x s) = ins x s"
    using Cons.IH [OF inv_ins [OF Cons.prems]] by blast
  show ?case
  proof (cases "x \<in> members s")
    case True
    then show ?thesis using k ins_known by (intro exI [of _ k]) auto
  next
    case False
    then show ?thesis
      using k gen_fresh [OF Cons.prems False] by (intro exI [of _ "Suc k"]) simp
  qed
qed simp

text \<open>Fewer than \<open>2 ^ 64\<close> insertions cannot bring the counter back without having been no-ops.\<close>

lemma gen_unchanged:
  assumes "inv s" "length xs < 2 ^ 64" "gen (fold ins xs s) = gen s"
  shows "fold ins xs s = s"
proof -
  obtain k where k: "k \<le> length xs" "gen (fold ins xs s) = gen s + of_nat k" "k = 0 \<longrightarrow> fold ins xs s = s"
    using gen_fold [OF assms(1), of xs] by blast
  then have "of_nat k = (0 :: u64)" using assms(3) by simp
  then have "k mod 2 ^ 64 = 0" by (simp add: word_of_nat_eq_0_iff dvd_eq_mod_eq_0)
  then have "k = 0" using k(1) assms(2) by simp
  then show ?thesis using k(3) by blast
qed

end

interpretation bis: generation_set bis_insert bis_members bis_generation bis_inv
  by unfold_locales (rule bis_inv_insert, assumption, simp_all add: bis_insert_def Let_def)

section \<open>The hex snapshot\<close>

record SeenCache =
  sc_seen :: "bytes BoundedIdSet"
  sc_hex_cache :: "(u64 \<times> string list) option"

text \<open>The encoded ids are collected into an ordered set, so the iteration order of the hash set does not matter.\<close>
definition seen_message_ids_hex_for_convergence ::
  "(bytes \<Rightarrow> string) \<Rightarrow> SeenCache \<Rightarrow> string list \<times> SeenCache" where
  "seen_message_ids_hex_for_convergence hex c =
     (let generation = bis_generation (sc_seen c) in
      case sc_hex_cache c of
        Some (cached, snapshot) \<Rightarrow>
          if cached = generation then (snapshot, c)
          else (let fresh = sorted_list_of_set (hex ` bis_members (sc_seen c))
                in (fresh, c \<lparr> sc_hex_cache := Some (generation, fresh) \<rparr>))
      | None \<Rightarrow>
          (let fresh = sorted_list_of_set (hex ` bis_members (sc_seen c))
           in (fresh, c \<lparr> sc_hex_cache := Some (generation, fresh) \<rparr>)))"

definition sc_insert :: "bytes \<Rightarrow> SeenCache \<Rightarrow> SeenCache" where
  "sc_insert x c = c \<lparr> sc_seen := bis_insert x (sc_seen c) \<rparr>"

lemma sc_insert_fold:
  "fold sc_insert xs c = c \<lparr> sc_seen := fold bis_insert xs (sc_seen c) \<rparr>"
  by (induction xs arbitrary: c) (simp_all add: sc_insert_def)

section \<open>Properties\<close>

text \<open>
  C25: The deduplication cache is a bounded FIFO set.  After any sequence of insertions into
  a new cache of capacity \<open>c\<close>, its order queue is that of the abstract queue that appends new ids
  and forgets its oldest id when full, its hash set is the set of that queue, it holds at most
  \<open>c\<close> ids, and the id inserted last is present.
\<close>

theorem bounded_id_set_refines_fifo:
  assumes "bis_with_capacity c = Some s"
  shows "bis_order (fold bis_insert xs s) = fold (fifo_insert c) xs []
       \<and> bis_members (fold bis_insert xs s) = set (fold (fifo_insert c) xs [])
       \<and> card (bis_members (fold bis_insert xs s)) \<le> c
       \<and> bis_contains x (bis_insert x (fold bis_insert xs s))"
proof -
  have s: "bis_inv s" "bis_order s = []" "bis_capacity s = c"
    using assms bis_inv_new [OF assms] by (auto simp: bis_with_capacity_def split: if_splits)
  let ?t = "fold bis_insert xs s"
  have t: "bis_inv ?t" "bis_order ?t = fold (fifo_insert c) xs []"
    using s bis_inv_fold bis_fold_order [OF s(1), of xs] by simp_all
  have "x \<in> bis_members (bis_insert x ?t)"
    using bis_insert_order(2) [OF t(1), of x] fifo_insert_props(3) [of "bis_order ?t" "bis_capacity ?t" x] t(1)
    by (auto simp: bis_inv_def)
  moreover have "card (bis_members ?t) \<le> c"
    using t(1) s(3) by (simp add: bis_inv_def distinct_card)
  ultimately show ?thesis using t by (simp add: bis_inv_def bis_contains_def)
qed

theorem bounded_id_set_refines_fifo_witness:
  "\<exists>s. bis_with_capacity 2 = Some s
     \<and> bis_order (fold bis_insert [1, 2, 1, 3] s) = [2, 3 :: nat]
     \<and> bis_contains 4 (bis_insert 4 (fold bis_insert [1, 2, 1, 3] s))"
proof -
  let ?s = "\<lparr> bis_members = {}, bis_order = [], bis_capacity = 2, bis_generation = 0 \<rparr> :: nat BoundedIdSet"
  have n: "bis_with_capacity 2 = Some ?s" by (simp add: bis_with_capacity_def)
  have "fold (fifo_insert 2) [1, 2, 1, 3] [] = [2, 3 :: nat]" by (simp add: fifo_insert_def)
  then show ?thesis
    using bounded_id_set_refines_fifo [OF n, of "[1, 2, 1, 3]" 4] n by (intro exI [of _ ?s]) simp
qed

text \<open>
  The cached hex snapshot is never stale.  After a snapshot has been taken, and after any
  further insertions (fewer than \<open>2 ^ 64\<close> of them, so that the wrapping generation counter cannot
  return to its old value), the next snapshot lists exactly the encodings of the ids the cache
  holds at that moment, although it is recomputed only when the generation moved.
\<close>

lemma hex_snapshot_current:
  assumes "bis_inv (sc_seen c)" "length xs < 2 ^ 64"
    and "sc_hex_cache c = None \<or>
         sc_hex_cache c = Some (bis_generation (sc_seen c), sorted_list_of_set (hex ` bis_members (sc_seen c)))"
  shows "fst (seen_message_ids_hex_for_convergence hex (fold sc_insert xs c)) =
         sorted_list_of_set (hex ` bis_members (sc_seen (fold sc_insert xs c)))"
proof -
  let ?t = "fold bis_insert xs (sc_seen c)"
  show ?thesis
  proof (cases "bis_generation ?t = bis_generation (sc_seen c)")
    case True
    then have "?t = sc_seen c" by (rule bis.gen_unchanged [OF assms(1,2)])
    then have "fold sc_insert xs c = c" by (simp add: sc_insert_fold)
    then show ?thesis using assms(3) by (auto simp: seen_message_ids_hex_for_convergence_def Let_def)
  next
    case False
    then show ?thesis
      using assms(3) by (auto simp: sc_insert_fold seen_message_ids_hex_for_convergence_def Let_def)
  qed
qed

definition ex_seen :: SeenCache where
  "ex_seen = \<lparr> sc_seen = \<lparr> bis_members = {}, bis_order = [], bis_capacity = 2, bis_generation = 0 \<rparr>,
     sc_hex_cache = None \<rparr>"

end
