(* ===== verification/Engine_Metrics.thy ===== *)
theory Engine_Metrics
  imports Canonicalization Epoch_State
begin

text \<open>
  The reorg telemetry of the engine, after \<^verbatim>\<open>crates/cgka-engine/src/engine_metrics.rs\<close>:
  fixed-bucket histograms, the per-group record of the last applied branch and the
  classification of a settle as a forward advance or a post-settle reorg.  Counters are
  \<^verbatim>\<open>u64\<close> words.  Percentiles and rates are floating-point reports and are left out.
\<close>

section \<open>Histograms\<close>

definition LATENESS_BUCKET_BOUNDS_MS :: "u64 list" where
  "LATENESS_BUCKET_BOUNDS_MS =
     [1, 2, 5, 10, 20, 30, 50, 75, 100, 150, 200, 300, 500, 750, 1000, 1500, 2000, 3000, 5000, 7500,
      10000, 15000, 20000, 30000]"

definition REWIND_DEPTH_BUCKET_BOUNDS :: "u64 list" where
  "REWIND_DEPTH_BUCKET_BOUNDS = [1, 2, 3, 4, 5, 6, 8, 10, 16, 32]"

record BucketHistogram =
  bh_bounds :: "u64 list"
  bh_counts :: "u64 list"
  bh_overflow :: u64

record HistogramSnapshot =
  hs_buckets :: "(u64 \<times> u64) list"
  hs_overflow_count :: u64

definition bh_new :: "u64 list \<Rightarrow> BucketHistogram" where
  "bh_new bounds = \<lparr> bh_bounds = bounds, bh_counts = replicate (length bounds) 0, bh_overflow = 0 \<rparr>"

fun first_bucket :: "u64 \<Rightarrow> u64 list \<Rightarrow> nat option" where
  "first_bucket sample [] = None"
| "first_bucket sample (b # bs) = (if sample \<le> b then Some 0 else map_option Suc (first_bucket sample bs))"

definition bh_record :: "u64 \<Rightarrow> BucketHistogram \<Rightarrow> BucketHistogram" where
  "bh_record sample h =
     (case first_bucket sample (bh_bounds h) of
        Some idx \<Rightarrow> h \<lparr> bh_counts := (bh_counts h)[idx := bh_counts h ! idx + 1] \<rparr>
      | None \<Rightarrow> h \<lparr> bh_overflow := bh_overflow h + 1 \<rparr>)"

definition bh_snapshot :: "BucketHistogram \<Rightarrow> HistogramSnapshot" where
  "bh_snapshot h = \<lparr> hs_buckets = zip (bh_bounds h) (bh_counts h), hs_overflow_count = bh_overflow h \<rparr>"

definition hs_sample_count :: "HistogramSnapshot \<Rightarrow> u64" where
  "hs_sample_count s = sum_list (map snd (hs_buckets s)) + hs_overflow_count s"

section \<open>The recorder\<close>

record LastAppliedBranch =
  lab_tip_epoch :: u64
  lab_branch_id :: string
  lab_settled_at_ms :: u64
  lab_settled_since_apply :: bool

record EngineMetrics =
  em_settles :: u64
  em_post_settle_reorgs :: u64
  em_reorg_rewind_depth :: BucketHistogram
  em_reorg_lateness_ms :: BucketHistogram
  em_last_applied :: "GroupId \<rightharpoonup> LastAppliedBranch"

record EngineMetricsSnapshot =
  ems_settles :: u64
  ems_post_settle_reorgs :: u64
  ems_reorg_rewind_depth :: HistogramSnapshot
  ems_reorg_lateness_ms :: HistogramSnapshot

definition EngineMetrics_default :: EngineMetrics where
  "EngineMetrics_default =
     \<lparr> em_settles = 0, em_post_settle_reorgs = 0,
       em_reorg_rewind_depth = bh_new REWIND_DEPTH_BUCKET_BOUNDS,
       em_reorg_lateness_ms = bh_new LATENESS_BUCKET_BOUNDS_MS,
       em_last_applied = Map.empty \<rparr>"

definition post_settle_reorg :: "LastAppliedBranch option \<Rightarrow> u64 \<Rightarrow> string \<Rightarrow> bool" where
  "post_settle_reorg applied fork branch =
     (case applied of None \<Rightarrow> False
      | Some prior \<Rightarrow> lab_settled_since_apply prior \<and> branch \<noteq> lab_branch_id prior
          \<and> fork < lab_tip_epoch prior)"

definition note_applied_selection ::
  "GroupId \<Rightarrow> ConvergenceStatus \<Rightarrow> u64 \<Rightarrow> u64 \<Rightarrow> string \<Rightarrow> u64 \<Rightarrow> EngineMetrics \<Rightarrow> EngineMetrics" where
  "note_applied_selection g status fork tip branch now m =
     (let settled = (status = Settled);
          m1 = (if settled then m \<lparr> em_settles := em_settles m + 1 \<rparr> else m);
          m2 = (if settled \<and> post_settle_reorg (em_last_applied m1 g) fork branch
                then (let prior = the (em_last_applied m1 g);
                          rewind_depth = lab_tip_epoch prior - fork;
                          lateness = sat_sub now (lab_settled_at_ms prior)
                      in m1 \<lparr> em_post_settle_reorgs := em_post_settle_reorgs m1 + 1,
                              em_reorg_rewind_depth := bh_record rewind_depth (em_reorg_rewind_depth m1),
                              em_reorg_lateness_ms := bh_record lateness (em_reorg_lateness_ms m1) \<rparr>)
                else m1)
      in m2 \<lparr> em_last_applied := (em_last_applied m2)(g \<mapsto>
           \<lparr> lab_tip_epoch = tip, lab_branch_id = branch,
             lab_settled_at_ms = now, lab_settled_since_apply = settled \<rparr>) \<rparr>)"

definition metrics_snapshot :: "EngineMetrics \<Rightarrow> EngineMetricsSnapshot" where
  "metrics_snapshot m =
     \<lparr> ems_settles = em_settles m, ems_post_settle_reorgs = em_post_settle_reorgs m,
       ems_reorg_rewind_depth = bh_snapshot (em_reorg_rewind_depth m),
       ems_reorg_lateness_ms = bh_snapshot (em_reorg_lateness_ms m) \<rparr>"

section \<open>Sample counts\<close>

definition bh_inv :: "BucketHistogram \<Rightarrow> bool" where
  "bh_inv h \<longleftrightarrow> length (bh_counts h) = length (bh_bounds h)"

definition bh_total :: "BucketHistogram \<Rightarrow> u64" where
  "bh_total h = hs_sample_count (bh_snapshot h)"

lemma first_bucket_bound: "first_bucket s bs = Some i \<Longrightarrow> i < length bs"
  by (induction bs arbitrary: i) (auto split: if_splits)

lemma sum_list_update_inc:
  "i < length cs \<Longrightarrow> sum_list (cs[i := cs ! i + 1]) = sum_list cs + (1 :: u64)"
  by (induction cs arbitrary: i) (auto split: nat.splits)

lemma bh_total_eq: "bh_inv h \<Longrightarrow> bh_total h = sum_list (bh_counts h) + bh_overflow h"
  by (simp add: bh_total_def hs_sample_count_def bh_snapshot_def bh_inv_def)

lemma bh_inv_record: "bh_inv h \<Longrightarrow> bh_inv (bh_record s h)"
  by (auto simp: bh_inv_def bh_record_def split: option.splits)

lemma bh_total_record:
  assumes "bh_inv h" shows "bh_total (bh_record s h) = bh_total h + 1"
proof (cases "first_bucket s (bh_bounds h)")
  case None
  then show ?thesis
    using assms bh_inv_record [OF assms, of s] by (simp add: bh_total_eq bh_record_def)
next
  case (Some i)
  then have "i < length (bh_counts h)" using first_bucket_bound assms by (auto simp: bh_inv_def)
  then show ?thesis
    using Some assms bh_inv_record [OF assms, of s] by (simp add: bh_total_eq bh_record_def sum_list_update_inc)
qed

lemma bh_new_simps [simp]: "bh_inv (bh_new bs)" "bh_total (bh_new bs) = 0"
  by (simp_all add: bh_inv_def bh_new_def bh_total_eq sum_list_replicate)

definition metrics_inv :: "EngineMetrics \<Rightarrow> bool" where
  "metrics_inv m \<longleftrightarrow>
     bh_inv (em_reorg_rewind_depth m) \<and> bh_inv (em_reorg_lateness_ms m) \<and>
     bh_total (em_reorg_rewind_depth m) = em_post_settle_reorgs m \<and>
     bh_total (em_reorg_lateness_ms m) = em_post_settle_reorgs m"

record Selection =
  sel_group :: GroupId
  sel_status :: ConvergenceStatus
  sel_fork :: u64
  sel_tip :: u64
  sel_branch :: string
  sel_now :: u64

definition note_selection :: "Selection \<Rightarrow> EngineMetrics \<Rightarrow> EngineMetrics" where
  "note_selection s m =
     note_applied_selection (sel_group s) (sel_status s) (sel_fork s) (sel_tip s) (sel_branch s) (sel_now s) m"

lemma metrics_inv_default: "metrics_inv EngineMetrics_default"
  by (simp add: metrics_inv_def EngineMetrics_default_def)

lemma metrics_inv_note: "metrics_inv m \<Longrightarrow> metrics_inv (note_selection s m)"
  by (simp add: metrics_inv_def note_selection_def note_applied_selection_def Let_def bh_inv_record bh_total_record)

lemma note_counts:
  "em_settles (note_selection s m) = em_settles m + (if sel_status s = Settled then 1 else 0)"
  "em_post_settle_reorgs (note_selection s m) = em_post_settle_reorgs m +
     (if sel_status s = Settled \<and> post_settle_reorg (em_last_applied m (sel_group s)) (sel_fork s) (sel_branch s)
      then 1 else 0)"
  by (simp_all add: note_selection_def note_applied_selection_def Let_def)

lemma metrics_fold:
  assumes "metrics_inv m" "unat (em_settles m) + length ss < 2 ^ 64"
    "unat (em_post_settle_reorgs m) \<le> unat (em_settles m)"
  shows "metrics_inv (fold note_selection ss m) \<and>
    unat (em_settles (fold note_selection ss m)) =
      unat (em_settles m) + length (filter (\<lambda>s. sel_status s = Settled) ss) \<and>
    unat (em_post_settle_reorgs (fold note_selection ss m)) \<le> unat (em_settles (fold note_selection ss m))"
  using assms
proof (induction ss arbitrary: m)
  case (Cons s ss)
  let ?m = "note_selection s m"
  have max: "unat (- 1 :: u64) = 2 ^ 64 - 1" by (simp add: unat_minus_1)
  have ns: "em_settles m \<noteq> - 1" and nr: "em_post_settle_reorgs m \<noteq> - 1"
    using Cons.prems(2,3) max by (auto simp del: unat_minus_1)
  have s: "unat (em_settles ?m) = unat (em_settles m) + (if sel_status s = Settled then 1 else 0)"
    using word_less_succ(2) [OF ns] by (simp add: note_counts(1))
  have r: "unat (em_post_settle_reorgs ?m) \<le> unat (em_settles ?m)"
    using word_less_succ(2) [OF nr] Cons.prems(3) s by (auto simp: note_counts(2))
  have "unat (em_settles ?m) + length ss < 2 ^ 64" using s Cons.prems(2) by (auto split: if_splits)
  from Cons.IH [OF metrics_inv_note [OF Cons.prems(1)] this r] s show ?case by auto
qed simp

section \<open>Property\<close>

text \<open>
  C26: The telemetry is consistent.  After any sequence of fewer than \<open>2 ^ 64\<close> applied
  selections the settle counter is the number of settled ones, the reorg counter does not
  exceed it, and each of the two histograms has exactly one sample per counted reorg.
\<close>

theorem reorg_telemetry_consistent:
  assumes "length ss < 2 ^ 64"
  shows "let m = fold note_selection ss EngineMetrics_default; r = metrics_snapshot m in
    unat (ems_settles r) = length (filter (\<lambda>s. sel_status s = Settled) ss)
    \<and> ems_post_settle_reorgs r \<le> ems_settles r
    \<and> hs_sample_count (ems_reorg_rewind_depth r) = ems_post_settle_reorgs r
    \<and> hs_sample_count (ems_reorg_lateness_ms r) = ems_post_settle_reorgs r"
  using metrics_fold [OF metrics_inv_default, of ss] assms
  by (simp add: Let_def metrics_snapshot_def metrics_inv_def bh_total_def word_le_nat_alt EngineMetrics_default_def)

definition ex_sel :: "u64 \<Rightarrow> u64 \<Rightarrow> string \<Rightarrow> u64 \<Rightarrow> Selection" where
  "ex_sel fork tip b now =
     \<lparr> sel_group = [1], sel_status = Settled, sel_fork = fork, sel_tip = tip, sel_branch = b, sel_now = now \<rparr>"

theorem reorg_telemetry_consistent_witness:
  "let m = fold note_selection [ex_sel 0 3 ''a'' 10, ex_sel 2 4 ''b'' 50] EngineMetrics_default; r = metrics_snapshot m in
    ems_post_settle_reorgs r = 1 \<and> hs_sample_count (ems_reorg_rewind_depth r) = 1 \<and> unat (ems_settles r) = 2"
proof -
  have "ems_post_settle_reorgs (metrics_snapshot
      (fold note_selection [ex_sel 0 3 ''a'' 10, ex_sel 2 4 ''b'' 50] EngineMetrics_default)) = 1"
    by (simp add: metrics_snapshot_def note_selection_def Let_def
        note_applied_selection_def ex_sel_def EngineMetrics_default_def post_settle_reorg_def)
  then show ?thesis
    using reorg_telemetry_consistent [of "[ex_sel 0 3 ''a'' 10, ex_sel 2 4 ''b'' 50]"]
    by (simp add: Let_def ex_sel_def)
qed

end
