(* ===== verification/Group_State_Changes.thy ===== *)
theory Group_State_Changes
  imports Epoch_State
begin

text \<open>
  The before/after diffs of canonical group state, after
  \<^verbatim>\<open>crates/cgka-engine/src/group_state_changes.rs\<close>, with the changes of
  \<^verbatim>\<open>GroupStateChange\<close> in \<^verbatim>\<open>crates/traits/src/engine.rs\<close>.  Admin keys are 32-byte arrays,
  modelled as byte lists.
\<close>

datatype GroupStateChange =
    MemberAdded MemberId
  | MemberRemoved MemberId
  | MemberLeft MemberId
  | AdminAdded MemberId
  | AdminRemoved MemberId
  | GroupRenamed string "string option"
  | GroupAvatarChanged
  | MessageRetentionChanged u64 u64

definition admin_changes :: "bytes list \<Rightarrow> bytes list \<Rightarrow> GroupStateChange list" where
  "admin_changes before after =
     map AdminAdded (filter (\<lambda>a. a \<notin> set before) after) @
     map AdminRemoved (filter (\<lambda>a. a \<notin> set after) before)"

definition previous_display_name :: "string \<Rightarrow> string option" where
  "previous_display_name name = (if name \<noteq> [] then Some name else None)"

definition profile_changes ::
  "string option \<Rightarrow> string option \<Rightarrow> bytes option list \<Rightarrow> bytes option list \<Rightarrow> GroupStateChange list" where
  "profile_changes before_name after_name before_avatar after_avatar =
     (let bn = (case before_name of None \<Rightarrow> [] | Some n \<Rightarrow> n);
          an = (case after_name of None \<Rightarrow> [] | Some n \<Rightarrow> n)
      in (if bn \<noteq> an then [GroupRenamed an (previous_display_name bn)] else []) @
         (if before_avatar \<noteq> after_avatar then [GroupAvatarChanged] else []))"

definition message_retention_changes :: "u64 option \<Rightarrow> u64 option \<Rightarrow> GroupStateChange list" where
  "message_retention_changes before after =
     (let old = (case before of None \<Rightarrow> 0 | Some s \<Rightarrow> s); new = (case after of None \<Rightarrow> 0 | Some s \<Rightarrow> s)
      in if old = new then [] else [MessageRetentionChanged old new])"

section \<open>Replaying a diff\<close>

fun apply_admin_change :: "GroupStateChange \<Rightarrow> bytes set \<Rightarrow> bytes set" where
  "apply_admin_change (AdminAdded a) s = insert a s"
| "apply_admin_change (AdminRemoved a) s = s - {a}"
| "apply_admin_change _ s = s"

lemma apply_added: "fold apply_admin_change (map AdminAdded as) s = s \<union> set as"
  by (induction as arbitrary: s) auto

lemma apply_removed: "fold apply_admin_change (map AdminRemoved as) s = s - set as"
  by (induction as arbitrary: s) auto

text \<open>
  C27: The admin diff is sound and complete: replaying the reported grants and revocations on
  the admin set before the commit gives the admin set after it, no admin is reported in both
  roles, and the report is empty exactly when the two sets agree.
\<close>

theorem admin_changes_replay:
  "fold apply_admin_change (admin_changes before after) (set before) = set after
   \<and> {a. AdminAdded a \<in> set (admin_changes before after)} \<inter> {a. AdminRemoved a \<in> set (admin_changes before after)} = {}
   \<and> (admin_changes before after = [] \<longleftrightarrow> set before = set after)"
proof -
  have "fold apply_admin_change (admin_changes before after) (set before) = set after"
    by (auto simp: admin_changes_def apply_added apply_removed)
  moreover have "admin_changes before after = [] \<longleftrightarrow> set before = set after"
    by (auto simp: admin_changes_def filter_empty_conv)
  ultimately show ?thesis by (auto simp: admin_changes_def)
qed

end
