(* ===== verification/Codec.thy ===== *)
theory Codec
  imports Prelude
begin

unbundle bit_operations_syntax

text \<open>
  The byte codecs of \<^verbatim>\<open>crates/traits/src/app_components/codec.rs\<close>: QUIC variable-length
  integers, length-prefixed byte strings, the component list and component vectors.  A
  cursor \<^verbatim>\<open>&mut &[u8]\<close> is the pair of the decoded value and the remaining bytes; errors are
  the message strings of the sources.  The UTF-8 validation of \<^verbatim>\<open>String::from_utf8\<close> and the
  conversions between byte strings and strings are here too: a string is the list of its
  bytes, each read as a character.
\<close>

section \<open>Strings and bytes\<close>

definition as_bytes :: "string \<Rightarrow> bytes" where
  "as_bytes s = map of_char s"

definition string_of_bytes :: "bytes \<Rightarrow> string" where
  "string_of_bytes bs = map (\<lambda>b. char_of (unat b)) bs"

text \<open>
  One step of \<^verbatim>\<open>run_utf8_validation\<close> on a non-empty slice: the width of the scalar value at
  the front, or the length of the invalid sequence (\<open>None\<close> when the input ends too early).
\<close>

definition utf8_char_width :: "u8 \<Rightarrow> nat" where
  "utf8_char_width b =
     (if b < 0x80 then 1 else if 0xC2 \<le> b \<and> b \<le> 0xDF then 2 else if 0xE0 \<le> b \<and> b \<le> 0xEF then 3
      else if 0xF0 \<le> b \<and> b \<le> 0xF4 then 4 else 0)"

definition utf8_cont :: "u8 \<Rightarrow> bool" where
  "utf8_cont b \<longleftrightarrow> 0x80 \<le> b \<and> b \<le> 0xBF"

definition utf8_second_ok :: "u8 \<Rightarrow> u8 \<Rightarrow> bool" where
  "utf8_second_ok b c \<longleftrightarrow>
     (if b = 0xE0 then 0xA0 \<le> c \<and> c \<le> 0xBF
      else if b = 0xED then 0x80 \<le> c \<and> c \<le> 0x9F
      else if b = 0xF0 then 0x90 \<le> c \<and> c \<le> 0xBF
      else if b = 0xF4 then 0x80 \<le> c \<and> c \<le> 0x8F
      else utf8_cont c)"

fun utf8_conts :: "nat \<Rightarrow> nat \<Rightarrow> bytes \<Rightarrow> nat option + unit" where
  "utf8_conts 0 good bs = Inr ()"
| "utf8_conts (Suc k) good [] = Inl None"
| "utf8_conts (Suc k) good (c # bs) = (if utf8_cont c then utf8_conts k (Suc good) bs else Inl (Some good))"

definition utf8_step :: "u8 \<Rightarrow> bytes \<Rightarrow> nat option + nat" where
  "utf8_step b rest =
     (let w = utf8_char_width b in
      if w = 0 then Inl (Some 1)
      else if w = 1 then Inr 1
      else (case rest of
              [] \<Rightarrow> Inl None
            | c # cs \<Rightarrow>
                if \<not> utf8_second_ok b c then Inl (Some 1)
                else (case utf8_conts (w - 2) 2 cs of Inl e \<Rightarrow> Inl e | Inr _ \<Rightarrow> Inr w)))"

function utf8_validate :: "nat \<Rightarrow> bytes \<Rightarrow> (nat \<times> nat option) + unit" where
  "utf8_validate i [] = Inr ()"
| "utf8_validate i (b # bs) =
     (case utf8_step b bs of
        Inl e \<Rightarrow> Inl (i, e)
      | Inr w \<Rightarrow> utf8_validate (i + w) (drop (w - 1) bs))"
  by pat_completeness auto

termination
  by (relation "measure (\<lambda>(i, bs). length bs)") auto

definition utf8_error_string :: "nat \<times> nat option \<Rightarrow> string" where
  "utf8_error_string e =
     (case snd e of
        Some n \<Rightarrow> ''invalid utf-8 sequence of '' @ dec_string n @ '' bytes from index '' @ dec_string (fst e)
      | None \<Rightarrow> ''incomplete utf-8 byte sequence from index '' @ dec_string (fst e))"

definition from_utf8 :: "bytes \<Rightarrow> string + string" where
  "from_utf8 bs =
     (case utf8_validate 0 bs of
        Inl e \<Rightarrow> Inl (utf8_error_string e)
      | Inr _ \<Rightarrow> Inr (string_of_bytes bs))"

section \<open>QUIC variable-length integers\<close>

fun to_be_bytes :: "nat \<Rightarrow> 'a::len word \<Rightarrow> bytes" where
  "to_be_bytes 0 w = []"
| "to_be_bytes (Suc k) w = to_be_bytes k (drop_bit 8 w) @ [ucast w]"

definition encode_quic_varint :: "u64 \<Rightarrow> bytes" where
  "encode_quic_varint value =
     (if value < 64 then [ucast value]
      else if value < 16384 then to_be_bytes 2 (0x4000 OR ucast value :: u16)
      else if value < 1073741824 then to_be_bytes 4 (0x80000000 OR ucast value :: u32)
      else to_be_bytes 8 (0xC000000000000000 OR value :: u64))"

definition varint_shift :: "u8 \<Rightarrow> u64 \<Rightarrow> u64" where
  "varint_shift b value = push_bit 8 value OR ucast b"

definition minimal_width :: "u64 \<Rightarrow> nat" where
  "minimal_width value =
     (if value < 64 then 1 else if value < 16384 then 2 else if value < 1073741824 then 4 else 8)"

definition decode_quic_varint :: "bytes \<Rightarrow> string + (u64 \<times> nat)" where
  "decode_quic_varint bytes =
     (case bytes of
        [] \<Rightarrow> Inl ''missing QUIC varint''
      | first # _ \<Rightarrow>
          (let width = 2 ^ unat (drop_bit 6 first) in
           if length bytes < width then Inl ''truncated QUIC varint''
           else (let value = fold varint_shift (take (width - 1) (tl bytes)) (ucast (first AND 0x3f)) in
                 if width \<noteq> minimal_width value then Inl ''non-canonical QUIC varint length''
                 else Inr (value, width))))"

section \<open>Length-prefixed bytes\<close>

definition USIZE_MAX :: nat where
  "USIZE_MAX = 2 ^ 64 - 1"

definition encode_var_bytes :: "bytes \<Rightarrow> bytes" where
  "encode_var_bytes bs = encode_quic_varint (of_nat (length bs)) @ bs"

definition encode_component_vectors :: "bytes list \<Rightarrow> bytes" where
  "encode_component_vectors parts =
     concat (map (\<lambda>p. encode_quic_varint (of_nat (length p)) @ p) parts)"

definition decode_var_bytes :: "bytes \<Rightarrow> nat \<Rightarrow> string \<Rightarrow> string + (bytes \<times> bytes)" where
  "decode_var_bytes cursor max_len label =
     (case decode_quic_varint cursor of
        Inl e \<Rightarrow> Inl (label @ '' length decode failed: '' @ e)
      | Inr (len64, prefix_len) \<Rightarrow>
          (let len = unat len64 in
           if len > max_len then Inl (label @ '' exceeds maximum length'')
           else if prefix_len + len > USIZE_MAX then Inl (label @ '' length overflow'')
           else if length cursor < prefix_len + len then Inl (label @ '' is truncated'')
           else Inr (take len (drop prefix_len cursor), drop (prefix_len + len) cursor)))"

section \<open>The component list\<close>

definition encode_components_list :: "u16 list \<Rightarrow> bytes" where
  "encode_components_list ids =
     encode_quic_varint (of_nat (length ids * 2)) @ concat (map (to_be_bytes 2) ids)"

definition u16_from_be :: "u8 \<Rightarrow> u8 \<Rightarrow> u16" where
  "u16_from_be hi lo = push_bit 8 (ucast hi) OR ucast lo"

fun decode_ids :: "bytes \<Rightarrow> u16 list \<Rightarrow> string + u16 list" where
  "decode_ids (hi # lo # rest) ids =
     (let i = u16_from_be hi lo in
      if i \<in> set ids then Inl ''component list contains duplicate ids''
      else decode_ids rest (insort_insert i ids))"
| "decode_ids _ ids = Inr ids"

definition decode_components_list :: "bytes \<Rightarrow> string + u16 list" where
  "decode_components_list bytes =
     (case decode_quic_varint bytes of
        Inl e \<Rightarrow> Inl e
      | Inr (len64, prefix_len) \<Rightarrow>
          (let len = unat len64 in
           if prefix_len + len > USIZE_MAX then Inl ''component list length overflow''
           else if prefix_len + len \<noteq> length bytes then Inl ''component list has trailing bytes''
           else if len mod 2 \<noteq> 0 then Inl ''component list byte length must be even''
           else decode_ids (drop prefix_len bytes) []))"

section \<open>Big-endian numbers\<close>

fun nat_of_be :: "bytes \<Rightarrow> nat" where
  "nat_of_be [] = 0"
| "nat_of_be (b # bs) = unat b * 256 ^ length bs + nat_of_be bs"

lemma unat_u8_lt: "unat (b :: u8) < 256"
  using unsigned_less [of b] by simp

lemma nat_of_be_lt: "nat_of_be bs < 256 ^ length bs"
proof (induction bs)
  case (Cons b bs)
  have "unat b * 256 ^ length bs + 256 ^ length bs \<le> 256 * 256 ^ length bs"
    using unat_u8_lt [of b] by (metis Suc_leI add.commute mult_Suc mult_le_mono1)
  then show ?case using Cons by (simp only: nat_of_be.simps length_Cons power_Suc)
qed simp

lemma nat_of_be_append: "nat_of_be (as @ bs) = nat_of_be as * 256 ^ length bs + nat_of_be bs"
  by (induction as) (simp_all add: algebra_simps power_add)

lemma nat_of_be_inj: "length as = length bs \<Longrightarrow> nat_of_be as = nat_of_be bs \<Longrightarrow> as = bs"
proof (induction as bs rule: list_induct2)
  case (Cons a as b bs)
  have lt: "nat_of_be as < 256 ^ length bs" "nat_of_be bs < 256 ^ length bs"
    using nat_of_be_lt [of as] nat_of_be_lt [of bs] Cons.hyps by simp_all
  have "unat a = nat_of_be (a # as) div 256 ^ length bs" "unat b = nat_of_be (b # bs) div 256 ^ length bs"
    using lt Cons.hyps by (simp_all add: div_mult_self3)
  then have ab: "a = b" using Cons.prems by (simp add: word_unat_eq_iff)
  then show ?case using Cons by simp
qed simp

lemma length_to_be_bytes [simp]: "length (to_be_bytes k w) = k"
  by (induction k arbitrary: w) auto

lemma nat_of_be_to_be_bytes: "nat_of_be (to_be_bytes k w) = unat w mod 256 ^ k"
proof (induction k arbitrary: w)
  case (Suc k)
  have "unat (ucast w :: u8) = unat w mod 256"
    by (simp add: unsigned_ucast_eq take_bit_eq_mod)
  moreover have "unat (drop_bit 8 w) = unat w div 256"
    by (simp only: unsigned_drop_bit_eq) (simp add: drop_bit_eq_div take_bit_nat_eq_self)
  ultimately show ?case
    using Suc by (simp add: nat_of_be_append mod_mult2_eq [of "unat w" 256 "256 ^ k"] mult.commute)
qed simp

section \<open>Varint laws\<close>

text \<open>
  A \<open>k\<close>-byte varint carries the logarithm of its width in the top two bits.  \<open>varint_form t k v e\<close>
  says that \<open>e\<close> is the number whose big-endian bytes are that varint.
\<close>

definition varint_form :: "nat \<Rightarrow> nat \<Rightarrow> nat \<Rightarrow> nat \<Rightarrow> bool" where
  "varint_form t k v e \<longleftrightarrow> t < 4 \<and> k = 2 ^ t \<and> v < 64 * 256 ^ (k - 1) \<and> e = t * 64 * 256 ^ (k - 1) + v"

lemma or_const_add:
  fixes c v :: "'a::len word"
  assumes "unat v < 2 ^ n" "take_bit n c = 0"
  shows "c OR v = c + v"
proof -
  have "\<not> bit c i \<or> \<not> bit v i" for i
  proof (cases "i < n")
    case True
    then have "\<not> bit c i" using assms(2) by (metis bit_0_eq bit_take_bit_iff bot_apply bot_bool_def)
    then show ?thesis by blast
  next
    case False
    have "v = take_bit n v" using assms(1) by (simp add: word_unat_eq_iff unsigned_take_bit_eq take_bit_nat_eq_self)
    then have "\<not> bit v i" using False by (metis bit_take_bit_iff)
    then show ?thesis by blast
  qed
  then show ?thesis by (simp add: disjunctive_add)
qed

lemma encode_quic_varint_form:
  assumes "unat v < 2 ^ 62"
  shows "\<exists>t. varint_form t (length (encode_quic_varint v)) (unat v) (nat_of_be (encode_quic_varint v))
           \<and> length (encode_quic_varint v) = minimal_width v"
proof -
  consider "v < 64" | "64 \<le> v" "v < 16384" | "16384 \<le> v" "v < 1073741824" | "1073741824 \<le> v"
    by fastforce
  then show ?thesis
  proof cases
    case 1
    then have "unat v < 64" by (simp add: word_less_nat_alt)
    then have "varint_form 0 (length (encode_quic_varint v)) (unat v) (nat_of_be (encode_quic_varint v))"
      using 1 by (simp add: varint_form_def encode_quic_varint_def unsigned_ucast_eq take_bit_eq_mod)
    then show ?thesis using 1 by (auto simp: encode_quic_varint_def minimal_width_def)
  next
    case 2
    then have lt: "unat v < 16384" by (simp add: word_less_nat_alt)
    have u: "unat (ucast v :: u16) = unat v" using lt by (simp add: unsigned_ucast_eq take_bit_eq_mod)
    have "0x4000 OR ucast v = 0x4000 + (ucast v :: u16)"
      by (rule or_const_add [where n = 14]) (use u lt in simp_all)
    then have "unat (0x4000 OR ucast v :: u16) = 16384 + unat v"
      using u lt by (simp add: unat_word_ariths)
    then have "varint_form 1 2 (unat v) (nat_of_be (to_be_bytes 2 (0x4000 OR ucast v :: u16)))"
      using lt by (simp add: varint_form_def nat_of_be_to_be_bytes)
    then show ?thesis using 2 by (auto simp: encode_quic_varint_def minimal_width_def not_less)
  next
    case 3
    then have lt: "unat v < 1073741824" by (simp add: word_less_nat_alt)
    have u: "unat (ucast v :: u32) = unat v" using lt by (simp add: unsigned_ucast_eq take_bit_eq_mod)
    have "0x80000000 OR ucast v = 0x80000000 + (ucast v :: u32)"
      by (rule or_const_add [where n = 30]) (use u lt in simp_all)
    then have "unat (0x80000000 OR ucast v :: u32) = 2147483648 + unat v"
      using u lt by (simp add: unat_word_ariths)
    then have "varint_form 2 4 (unat v) (nat_of_be (to_be_bytes 4 (0x80000000 OR ucast v :: u32)))"
      using lt by (simp add: varint_form_def nat_of_be_to_be_bytes)
    moreover have "\<not> v < 64" "\<not> v < 16384" using 3 by (simp_all add: word_less_nat_alt word_le_nat_alt)
    ultimately show ?thesis using 3(2) by (auto simp: encode_quic_varint_def minimal_width_def)
  next
    case 4
    have "0xC000000000000000 OR v = 0xC000000000000000 + v"
      by (rule or_const_add [where n = 62]) (use assms in simp_all)
    then have "unat (0xC000000000000000 OR v) = 13835058055282163712 + unat v"
      using assms by (simp add: unat_word_ariths)
    then have "varint_form 3 8 (unat v) (nat_of_be (to_be_bytes 8 (0xC000000000000000 OR v)))"
      using assms by (simp add: varint_form_def nat_of_be_to_be_bytes)
    moreover have "\<not> v < 64" "\<not> v < 16384" "\<not> v < 1073741824"
      using 4 by (simp_all add: word_less_nat_alt word_le_nat_alt)
    ultimately show ?thesis by (auto simp: encode_quic_varint_def minimal_width_def)
  qed
qed

lemma unat_varint_shift:
  assumes "unat v * 256 + 255 < 2 ^ 64"
  shows "unat (varint_shift b v) = unat v * 256 + unat b"
proof -
  have u: "unat (ucast b :: u64) = unat b"
    using unat_u8_lt [of b] by (simp add: unsigned_ucast_eq take_bit_nat_eq_self)
  have p: "unat (push_bit 8 v) = unat v * 256"
    using assms by (simp add: push_bit_eq_mult unat_word_ariths)
  have "take_bit 8 (push_bit 8 v) = 0" by (simp add: take_bit_push_bit)
  then have "varint_shift b v = push_bit 8 v + ucast b"
    unfolding varint_shift_def using unat_u8_lt [of b] u by (intro or_const_add [where n = 8]) simp_all
  then show ?thesis using p u assms unat_u8_lt [of b] by (simp add: unat_word_ariths)
qed

lemma unat_varint_fold:
  "(unat v + 1) * 256 ^ length bs \<le> 2 ^ 64 \<Longrightarrow>
   unat (fold varint_shift bs v) = unat v * 256 ^ length bs + nat_of_be bs"
proof (induction bs arbitrary: v)
  case (Cons b bs)
  have "(unat v + 1) * 256 * 256 ^ length bs \<le> 2 ^ 64"
    using Cons.prems unfolding length_Cons power_Suc by (simp only: mult.assoc)
  moreover have "(unat v + 1) * 256 * 1 \<le> (unat v + 1) * 256 * 256 ^ length bs"
    by (intro mult_le_mono2) simp
  ultimately have "(unat v + 1) * 256 * 1 \<le> 2 ^ 64" by (rule order_trans [rotated])
  then have b: "unat v * 256 + 255 < 2 ^ 64" by simp
  have s: "unat (varint_shift b v) = unat v * 256 + unat b" using unat_varint_shift [OF b] .
  have "unat (varint_shift b v) + 1 \<le> (unat v + 1) * 256" using s unat_u8_lt [of b] by simp
  then have "(unat (varint_shift b v) + 1) * 256 ^ length bs \<le> 2 ^ 64"
    using \<open>(unat v + 1) * 256 * 256 ^ length bs \<le> 2 ^ 64\<close> by (meson le_trans mult_le_mono1)
  then show ?case using Cons.IH s by (simp add: algebra_simps)
qed simp

lemma u8_split:
  "unat (drop_bit 6 (b :: u8)) = unat b div 64" "unat (ucast (b AND 0x3f) :: u64) = unat b mod 64"
proof -
  show "unat (drop_bit 6 b) = unat b div 64"
    using unat_u8_lt [of b] by (simp only: unsigned_drop_bit_eq) (simp add: drop_bit_eq_div take_bit_nat_eq_self)
  have a: "b AND 0x3f = take_bit 6 b" by (simp add: take_bit_eq_mask mask_eq_exp_minus_1)
  have "unat (take_bit 6 b) = unat b mod 64" by (simp only: unsigned_take_bit_eq) (simp add: take_bit_eq_mod)
  then have "unat (b AND 0x3f) = unat b mod 64" by (simp only: a)
  then show "unat (ucast (b AND 0x3f) :: u64) = unat b mod 64"
    by (simp add: unsigned_ucast_eq take_bit_nat_eq_self)
qed

text \<open>The number read from a varint is the number its bytes denote, without the width bits.\<close>

lemma decode_value:
  assumes "w = 2 ^ (unat first div 64)" "length tail = w - 1"
  shows "varint_form (unat first div 64) w (unat (fold varint_shift tail (ucast (first AND 0x3f))))
           (nat_of_be (first # tail))"
proof -
  let ?t = "unat first div 64" and ?v = "fold varint_shift tail (ucast (first AND 0x3f))"
  have t: "?t < 4" using unat_u8_lt [of first] by simp
  then have "w \<le> 2 ^ 3" unfolding assms(1) by (intro power_increasing) simp_all
  then have "w - 1 \<le> 7" by simp
  then have le: "(256 :: nat) ^ (w - 1) \<le> 256 ^ 7" by (rule power_increasing) simp
  have m: "unat first mod 64 + 1 \<le> 64" using mod_less_divisor [of 64 "unat first"] by linarith
  have "(unat first mod 64 + 1) * 256 ^ (w - 1) \<le> 64 * 256 ^ 7" using m le by (rule mult_le_mono)
  moreover have "64 * 256 ^ 7 \<le> (2 ^ 64 :: nat)" by simp
  ultimately have "(unat first mod 64 + 1) * 256 ^ (w - 1) \<le> 2 ^ 64" by (rule order_trans)
  then have v: "unat ?v = (unat first mod 64) * 256 ^ (w - 1) + nat_of_be tail"
    using unat_varint_fold [of "ucast (first AND 0x3f)" tail] unfolding u8_split(2) assms(2) by blast
  have tl: "nat_of_be tail < 256 ^ (w - 1)" using nat_of_be_lt [of tail] assms(2) by simp
  have "(unat first mod 64 + 1) * 256 ^ (w - 1) \<le> 64 * 256 ^ (w - 1)" using m by (rule mult_le_mono1)
  then have "unat first mod 64 * 256 ^ (w - 1) + 256 ^ (w - 1) \<le> 64 * 256 ^ (w - 1)"
    by (simp only: add_mult_distrib mult_1)
  then have lt: "unat ?v < 64 * 256 ^ (w - 1)" using v tl by linarith
  have "unat first * 256 ^ (w - 1) = ?t * 64 * 256 ^ (w - 1) + (unat first mod 64) * 256 ^ (w - 1)"
    by (metis add_mult_distrib div_mult_mod_eq)
  then have "nat_of_be (first # tail) = ?t * 64 * 256 ^ (w - 1) + unat ?v"
    unfolding nat_of_be.simps assms(2) v by linarith
  then show ?thesis unfolding varint_form_def using t assms(1) lt by blast
qed

lemma varint_form_first:
  assumes "varint_form t k v (nat_of_be (first # tail))" "length tail = k - 1"
  shows "unat first div 64 = t"
proof -
  let ?p = "256 ^ (k - 1) :: nat"
  have vp: "v < 64 * ?p" and "nat_of_be (first # tail) = t * 64 * ?p + v"
    using assms(1) unfolding varint_form_def by blast+
  then have eq: "unat first * ?p + nat_of_be tail = t * 64 * ?p + v"
    unfolding nat_of_be.simps assms(2) by simp
  have "nat_of_be tail < ?p" using nat_of_be_lt [of tail] unfolding assms(2) .
  then have "unat first = (unat first * ?p + nat_of_be tail) div ?p" by simp
  then have "unat first = (t * 64 * ?p + v) div ?p" unfolding eq .
  also have "\<dots> = t * 64 + v div ?p" by (simp add: div_mult_self3)
  finally have "unat first = t * 64 + v div ?p" .
  moreover have "v div ?p < 64" using vp by (simp add: less_mult_imp_div_less)
  ultimately show ?thesis by simp
qed

lemma varint_form_unique: "varint_form t k v e \<Longrightarrow> varint_form t k u e \<Longrightarrow> v = u"
  by (simp add: varint_form_def)

lemma decode_quic_varint_Cons:
  assumes "w = 2 ^ (unat first div 64)"
  shows "decode_quic_varint (first # rest) =
    (if Suc (length rest) < w then Inl ''truncated QUIC varint''
     else if w \<noteq> minimal_width (fold varint_shift (take (w - 1) rest) (ucast (first AND 0x3f)))
     then Inl ''non-canonical QUIC varint length''
     else Inr (fold varint_shift (take (w - 1) rest) (ucast (first AND 0x3f)), w))"
  unfolding decode_quic_varint_def list.case u8_split(1) assms [symmetric] Let_def list.sel length_Cons ..

lemma decode_quic_varint_formI:
  assumes "k \<le> length bs" "varint_form t k (unat v) (nat_of_be (take k bs))" "k = minimal_width v"
  shows "decode_quic_varint bs = Inr (v, k)"
proof -
  have k: "k > 0" using assms(2) by (auto simp: varint_form_def)
  then obtain first rest where bs: "bs = first # rest" using assms(1) by (cases bs) auto
  let ?tail = "take (k - 1) rest"
  have tk: "take k bs = first # ?tail" using k by (simp add: bs take_Cons')
  have len: "length ?tail = k - 1" using assms(1) bs by simp
  have t: "unat first div 64 = t" using varint_form_first [of t k _ first ?tail] assms(2) tk len by simp
  have kt: "k = 2 ^ t" using assms(2) by (simp add: varint_form_def)
  have "varint_form t k (unat (fold varint_shift ?tail (ucast (first AND 0x3f)))) (nat_of_be (take k bs))"
    using decode_value [of k first ?tail] t kt len tk by simp
  then have "unat (fold varint_shift ?tail (ucast (first AND 0x3f))) = unat v"
    using assms(2) by (rule varint_form_unique)
  then have f: "fold varint_shift ?tail (ucast (first AND 0x3f)) = v" by (simp only: word_unat_eq_iff)
  have "k = 2 ^ (unat first div 64)" unfolding t by (rule kt)
  note c = decode_quic_varint_Cons [OF this, of rest, unfolded f assms(3) [symmetric]]
  have "\<not> Suc (length rest) < k" using assms(1) by (simp add: bs)
  then show ?thesis unfolding bs c by simp
qed

lemma decode_quic_varint_formD:
  assumes "decode_quic_varint bs = Inr (v, k)"
  shows "k \<le> length bs \<and> k = minimal_width v \<and> (\<exists>t. varint_form t k (unat v) (nat_of_be (take k bs)))"
proof -
  have "decode_quic_varint [] \<noteq> Inr (v, k)" by (simp add: decode_quic_varint_def)
  then have "bs \<noteq> []" using assms by blast
  then obtain first rest where bs: "bs = first # rest" by (cases bs) simp_all
  define w where w: "w = (2 :: nat) ^ (unat first div 64)"
  have "k = w" "\<not> Suc (length rest) < w" "k = minimal_width v"
      "v = fold varint_shift (take (w - 1) rest) (ucast (first AND 0x3f))"
    using assms unfolding bs decode_quic_varint_Cons [OF w] by (auto split: if_split_asm)
  then have k: "k = 2 ^ (unat first div 64)" "k \<le> length bs" "k = minimal_width v"
      "v = fold varint_shift (take (k - 1) rest) (ucast (first AND 0x3f))"
    unfolding bs w [symmetric] by simp_all
  have "0 < k" unfolding k(1) by simp
  then have tk: "take k bs = first # take (k - 1) rest" unfolding bs by (cases k) simp_all
  have "length (take (k - 1) rest) = k - 1" using k(2) unfolding bs by simp
  then have "varint_form (unat first div 64) k (unat v) (nat_of_be (take k bs))"
    unfolding tk by (subst k(4)) (rule decode_value [of k first "take (k - 1) rest", OF k(1)])
  then show ?thesis using k(2,3) by blast
qed

lemma varint_form_lt: "varint_form t k v e \<Longrightarrow> v < 2 ^ 62"
proof -
  assume f: "varint_form t k v e"
  then have t: "t < 4" "k = 2 ^ t" unfolding varint_form_def by blast+
  from t(1) have "t \<le> 3" by simp
  then have "k \<le> 2 ^ 3" unfolding t(2) by (rule power_increasing) simp
  then have "k - 1 \<le> 7" by simp
  then have "(256 :: nat) ^ (k - 1) \<le> 256 ^ 7" by (rule power_increasing) simp
  then have "64 * (256 :: nat) ^ (k - 1) \<le> 64 * 256 ^ 7" by (rule mult_le_mono2)
  moreover have "v < 64 * 256 ^ (k - 1)" using f unfolding varint_form_def by blast
  ultimately have "v < 64 * 256 ^ 7" by (rule less_le_trans [rotated])
  then show ?thesis by simp
qed

lemma varint_form_same_width:
  assumes "varint_form t k v e" "varint_form u k v f"
  shows "e = f"
proof -
  have k: "k = 2 ^ t" "k = 2 ^ u" using assms unfolding varint_form_def by blast+
  have "(2 :: nat) ^ t = 2 ^ u" using k(2) unfolding k(1) .
  then have tu: "t = u" by simp
  have "e = t * 64 * 256 ^ (k - 1) + v" "f = u * 64 * 256 ^ (k - 1) + v"
    using assms unfolding varint_form_def by blast+
  then show ?thesis unfolding tu by (simp only:)
qed

lemma decode_encode_quic_varint:
  assumes "unat v < 2 ^ 62"
  shows "decode_quic_varint (encode_quic_varint v @ r) = Inr (v, length (encode_quic_varint v))"
proof -
  let ?e = "encode_quic_varint v"
  obtain t where t: "varint_form t (length ?e) (unat v) (nat_of_be ?e)" "length ?e = minimal_width v"
    using encode_quic_varint_form [OF assms] by blast
  have "take (length ?e) (?e @ r) = ?e" "length ?e \<le> length (?e @ r)" by simp_all
  then show ?thesis using decode_quic_varint_formI [of "length ?e" "?e @ r" t v] t by presburger
qed

lemma decode_quic_varint_sound:
  assumes "decode_quic_varint bs = Inr (v, k)"
  shows "unat v < 2 ^ 62" "k \<le> length bs" "take k bs = encode_quic_varint v"
proof -
  obtain t where k: "k \<le> length bs" "k = minimal_width v" "varint_form t k (unat v) (nat_of_be (take k bs))"
    using decode_quic_varint_formD [OF assms] by blast
  show v: "unat v < 2 ^ 62" using k(3) by (rule varint_form_lt)
  show "k \<le> length bs" by (rule k(1))
  obtain u where u: "varint_form u (length (encode_quic_varint v)) (unat v) (nat_of_be (encode_quic_varint v))"
      "length (encode_quic_varint v) = minimal_width v"
    using encode_quic_varint_form [OF v] by blast
  have len: "length (encode_quic_varint v) = k" by (simp only: u(2) k(2) [symmetric])
  have "nat_of_be (take k bs) = nat_of_be (encode_quic_varint v)"
    using k(3) u(1) unfolding len by (rule varint_form_same_width)
  then show "take k bs = encode_quic_varint v"
    using k(1) len by (intro nat_of_be_inj) (simp_all only: length_take min_absorb2)
qed

lemma encode_quic_varint_nonempty [simp]: "encode_quic_varint v \<noteq> []"
proof -
  have "length (encode_quic_varint v) \<noteq> 0" unfolding encode_quic_varint_def if_distrib [of length] by simp
  then show ?thesis by blast
qed

lemma encode_quic_varint_length_le: "length (encode_quic_varint v) \<le> 8"
  unfolding encode_quic_varint_def by simp

text \<open>
  Varints are canonical.  \<^const>\<open>decode_quic_varint\<close> accepts a buffer with value
  \<open>v\<close> and width \<open>k\<close> exactly when \<open>v\<close> is below \<open>2 ^ 62\<close>, the buffer starts with the
  encoding of \<open>v\<close>, and \<open>k\<close> is the length of that encoding: every encodable value reads
  back, and no second byte string is accepted for the same value.
\<close>
lemma quic_varint_canonical:
  "decode_quic_varint bs = Inr (v, k) \<longleftrightarrow>
     unat v < 2 ^ 62 \<and> k = length (encode_quic_varint v) \<and> (\<exists>r. bs = encode_quic_varint v @ r)"
proof
  assume d: "decode_quic_varint bs = Inr (v, k)"
  note s = decode_quic_varint_sound [OF d]
  have "k = length (take k bs)" using s(2) by simp
  moreover have "bs = take k bs @ drop k bs" by simp
  ultimately show "unat v < 2 ^ 62 \<and> k = length (encode_quic_varint v) \<and> (\<exists>r. bs = encode_quic_varint v @ r)"
    using s(1) s(3) by metis
next
  assume "unat v < 2 ^ 62 \<and> k = length (encode_quic_varint v) \<and> (\<exists>r. bs = encode_quic_varint v @ r)"
  then show "decode_quic_varint bs = Inr (v, k)" using decode_encode_quic_varint by blast
qed

section \<open>Cursor codecs\<close>

text \<open>
  What the component codecs rely on when they read a field off a cursor: a written field reads
  back and leaves the rest of the buffer, and whatever is read was written that way.
\<close>

locale prefix_codec =
  fixes enc :: "'a \<Rightarrow> bytes"
    and dec :: "bytes \<Rightarrow> 'e + ('a \<times> bytes)"
    and valid :: "'a \<Rightarrow> bool"
  assumes dec_enc: "valid x \<Longrightarrow> dec (enc x @ r) = Inr (x, r)"
    and dec_sound: "dec bs = Inr (x, r) \<Longrightarrow> valid x \<and> bs = enc x @ r"
    and enc_nonempty: "enc x \<noteq> []"
begin

lemma dec_iff: "dec bs = Inr (x, r) \<longleftrightarrow> valid x \<and> bs = enc x @ r"
  using dec_enc dec_sound by blast

lemma dec_shorter: "dec bs = Inr (x, r) \<Longrightarrow> length r < length bs"
  using dec_sound enc_nonempty by fastforce

lemma enc_append_eqD: "valid x \<Longrightarrow> valid y \<Longrightarrow> enc x @ r = enc y @ s \<Longrightarrow> x = y \<and> r = s"
proof -
  assume v: "valid x" "valid y" and e: "enc x @ r = enc y @ s"
  have "Inr (y, s) = dec (enc y @ s)" by (rule dec_enc [OF v(2), symmetric])
  also have "\<dots> = Inr (x, r)" by (rule dec_enc [OF v(1), of r, unfolded e])
  finally show ?thesis by blast
qed

lemma enc_list_eqD:
  "list_all valid xs \<Longrightarrow> list_all valid ys \<Longrightarrow> concat (map enc xs) = concat (map enc ys) \<Longrightarrow> xs = ys"
proof (induction xs arbitrary: ys)
  case Nil
  then show ?case using enc_nonempty by (cases ys) simp_all
next
  case (Cons x xs)
  from Cons.prems(3) have "ys \<noteq> []" using enc_nonempty [of x] by auto
  then obtain y ys' where y: "ys = y # ys'" by (cases ys) simp_all
  have v: "valid x" "list_all valid xs" "valid y" "list_all valid ys'" using Cons.prems(1,2) y by simp_all
  have "enc x @ concat (map enc xs) = enc y @ concat (map enc ys')" using Cons.prems(3) y by simp
  then have "x = y \<and> concat (map enc xs) = concat (map enc ys')" by (rule enc_append_eqD [OF v(1,3)])
  then show ?case using Cons.IH [OF v(2,4)] y by blast
qed

end

lemma unat_of_nat_u64: "n < 2 ^ 64 \<Longrightarrow> unat (of_nat n :: u64) = n"
  by (simp add: unsigned_of_nat take_bit_nat_eq_self)

lemma decode_encode_var_bytes:
  assumes "length x \<le> max_len" "length x < 2 ^ 62"
  shows "decode_var_bytes (encode_var_bytes x @ r) max_len label = Inr (x, r)"
proof -
  let ?n = "of_nat (length x) :: u64" and ?e = "encode_quic_varint (of_nat (length x))"
  have n: "unat ?n = length x" using assms(2) by (intro unat_of_nat_u64) simp
  have "decode_quic_varint (?e @ x @ r) = Inr (?n, length ?e)"
    by (rule decode_encode_quic_varint) (simp only: n assms(2))
  moreover have "\<not> USIZE_MAX < length ?e + length x"
    using encode_quic_varint_length_le [of ?n] assms(2) by (simp add: USIZE_MAX_def)
  ultimately show ?thesis
    using assms(1) unfolding decode_var_bytes_def encode_var_bytes_def by (simp add: n)
qed

lemma decode_var_bytes_sound:
  assumes "decode_var_bytes bs max_len label = Inr (x, r)"
  shows "(length x \<le> max_len \<and> length x < 2 ^ 62) \<and> bs = encode_var_bytes x @ r"
proof -
  obtain v k where d: "decode_quic_varint bs = Inr (v, k)"
  proof (cases "decode_quic_varint bs")
    case (Inl e)
    then show ?thesis using assms by (simp add: decode_var_bytes_def)
  next
    case (Inr p)
    then show ?thesis using that by (cases p) simp
  qed
  note s = decode_quic_varint_sound [OF d]
  have b: "unat v \<le> max_len" "k + unat v \<le> length bs"
      "x = take (unat v) (drop k bs)" "r = drop (k + unat v) bs"
    using assms unfolding decode_var_bytes_def d sum.case prod.case Let_def
    by (simp_all split: if_split_asm)
  have len: "length x = unat v" using b(2) unfolding b(3) by simp
  have dk: "drop k bs = x @ r"
    unfolding b(3,4) using append_take_drop_id [of "unat v" "drop k bs"] by (simp add: add.commute)
  have "bs = take k bs @ drop k bs" by (rule append_take_drop_id [symmetric])
  then have "bs = encode_quic_varint v @ x @ r" unfolding s(3) dk .
  moreover have "encode_var_bytes x = encode_quic_varint v @ x" unfolding encode_var_bytes_def len by simp
  ultimately have "bs = encode_var_bytes x @ r" by (simp only: append_assoc)
  then show ?thesis using b(1) s(1) unfolding len by blast
qed

lemma encode_var_bytes_nonempty: "encode_var_bytes x \<noteq> []"
  by (simp add: encode_var_bytes_def)

interpretation vb: prefix_codec encode_var_bytes "\<lambda>bs. decode_var_bytes bs max_len label"
    "\<lambda>x. length x \<le> max_len \<and> length x < 2 ^ 62"
  for max_len label
  using decode_encode_var_bytes decode_var_bytes_sound encode_var_bytes_nonempty
  by unfold_locales blast+

lemma encode_component_vectors_eq: "encode_component_vectors parts = concat (map encode_var_bytes parts)"
  unfolding encode_component_vectors_def encode_var_bytes_def [abs_def] ..

lemma encode_component_vectors_inj:
  assumes "list_all (\<lambda>x. length x < 2 ^ 62) xs" "list_all (\<lambda>x. length x < 2 ^ 62) ys"
    and "encode_component_vectors xs = encode_component_vectors ys"
  shows "xs = ys"
proof -
  have "list_all (\<lambda>x. length x \<le> 2 ^ 62 \<and> length x < 2 ^ 62) xs"
      "list_all (\<lambda>x. length x \<le> 2 ^ 62 \<and> length x < 2 ^ 62) ys"
    using assms(1,2) by (auto simp only: list_all_iff less_imp_le)
  then show ?thesis using assms(3) unfolding encode_component_vectors_eq by (rule vb.enc_list_eqD)
qed

text \<open>
  Length-prefixed byte strings are canonical.  \<^const>\<open>decode_var_bytes\<close> returns the
  string \<open>x\<close> and the remaining cursor \<open>r\<close> exactly when the cursor is the encoding of \<open>x\<close>
  followed by \<open>r\<close> and \<open>x\<close> is within the caller's bound and the range of a varint.
\<close>
lemma var_bytes_canonical:
  "decode_var_bytes bs max_len label = Inr (x, r) \<longleftrightarrow>
     length x \<le> max_len \<and> length x < 2 ^ 62 \<and> bs = encode_var_bytes x @ r"
  using vb.dec_iff by blast

section \<open>Component list laws\<close>

definition id_bytes :: "u16 \<Rightarrow> bytes" where
  "id_bytes i = to_be_bytes 2 i"

lemma id_bytes_pair: "id_bytes i = [ucast (drop_bit 8 i), ucast i]"
  by (simp add: id_bytes_def numeral_2_eq_2)

lemma u16_from_be_id_bytes: "u16_from_be (ucast (drop_bit 8 i)) (ucast i) = i"
  by (rule bit_word_eqI) (auto simp: u16_from_be_def bit_simps)

lemma id_bytes_u16_from_be: "id_bytes (u16_from_be hi lo) = [hi, lo]"
proof -
  have "ucast (drop_bit 8 (u16_from_be hi lo)) = hi"
    by (rule bit_word_eqI) (auto simp: u16_from_be_def bit_simps dest: bit_imp_le_length)
  moreover have "ucast (u16_from_be hi lo) = lo"
    by (rule bit_word_eqI) (auto simp: u16_from_be_def bit_simps)
  ultimately show ?thesis by (simp add: id_bytes_pair)
qed

lemma decode_ids_concat:
  "bs_inv acc \<Longrightarrow> decode_ids (concat (map id_bytes ids)) acc =
     (if distinct ids \<and> set ids \<inter> set acc = {} then Inr (fold insort_insert ids acc)
      else Inl ''component list contains duplicate ids'')"
proof (induction ids arbitrary: acc)
  case (Cons i ids)
  have "decode_ids (concat (map id_bytes (i # ids))) acc =
      (if i \<in> set acc then Inl ''component list contains duplicate ids''
       else decode_ids (concat (map id_bytes ids)) (insort_insert i acc))"
    by (simp add: id_bytes_pair u16_from_be_id_bytes)
  then show ?case using Cons by (auto simp: set_insort_insert)
qed simp

lemma even_bytes_ids: "even (length bs) \<Longrightarrow> \<exists>ids. bs = concat (map id_bytes ids) \<and> length bs = length ids * 2"
proof (induction bs rule: induct_list012)
  case (3 hi lo bs)
  then obtain ids where "bs = concat (map id_bytes ids)" "length bs = length ids * 2" by auto
  then have "hi # lo # bs = concat (map id_bytes (u16_from_be hi lo # ids))"
      "length (hi # lo # bs) = length (u16_from_be hi lo # ids) * 2"
    by (simp_all add: id_bytes_u16_from_be)
  then show ?case by blast
qed auto

lemma length_concat_id_bytes [simp]: "length (concat (map id_bytes ids)) = length ids * 2"
  by (induction ids) (simp_all add: id_bytes_pair)

definition components_list_bytes :: "u16 list \<Rightarrow> bytes" where
  "components_list_bytes ids = encode_var_bytes (concat (map id_bytes ids))"

lemma encode_components_list_bytes: "encode_components_list ids = components_list_bytes ids"
proof -
  have "map (to_be_bytes 2) ids = map id_bytes ids" by (simp add: id_bytes_def)
  then show ?thesis
    unfolding encode_components_list_def components_list_bytes_def encode_var_bytes_def
    by (simp only: length_concat_id_bytes)
qed

lemma distinct_u16_length: "distinct (ids :: u16 list) \<Longrightarrow> length ids \<le> 65536"
proof -
  assume "distinct ids"
  then have "length ids = card (set ids)" by (simp add: distinct_card)
  also have "\<dots> \<le> card (UNIV :: u16 set)" by (rule card_mono) simp_all
  also have "\<dots> = 65536" by (simp add: card_word)
  finally show ?thesis .
qed

lemma decode_components_list_eq:
  assumes "length ids * 2 < 2 ^ 62"
  shows "decode_components_list (components_list_bytes ids) = decode_ids (concat (map id_bytes ids)) []"
proof -
  define m where m: "m = length ids * 2"
  define n where n: "n = (of_nat m :: u64)"
  define e where e: "e = encode_quic_varint n"
  let ?b = "concat (map id_bytes ids)"
  have un: "unat n = m" unfolding n using assms m by (intro unat_of_nat_u64) simp
  have lb: "length ?b = m" by (simp only: length_concat_id_bytes m)
  have d: "decode_quic_varint (e @ ?b) = Inr (n, length e)"
    unfolding e by (rule decode_encode_quic_varint) (simp only: un assms m)
  have u: "\<not> USIZE_MAX < length e + m"
    using encode_quic_varint_length_le [of n] assms unfolding e m by (simp add: USIZE_MAX_def)
  have c: "components_list_bytes ids = e @ ?b"
    unfolding components_list_bytes_def encode_var_bytes_def lb e n ..
  have "m mod 2 = 0" unfolding m by simp
  then show ?thesis
    unfolding c decode_components_list_def d sum.case prod.case Let_def un using u lb by simp
qed

lemma decode_components_list_sound:
  assumes "decode_components_list bs = Inr s"
  obtains ids where "bs = components_list_bytes ids" "length ids * 2 < 2 ^ 62"
proof -
  obtain v k where d: "decode_quic_varint bs = Inr (v, k)"
  proof (cases "decode_quic_varint bs")
    case (Inl e)
    then show ?thesis using assms by (simp add: decode_components_list_def)
  next
    case (Inr p)
    then show ?thesis using that by (cases p) simp
  qed
  note c = decode_quic_varint_sound [OF d]
  have b: "k + unat v = length bs" "unat v mod 2 = 0"
    using assms unfolding decode_components_list_def d sum.case prod.case Let_def
    by (simp_all split: if_split_asm)
  have len: "length (drop k bs) = unat v" using b(1) by simp
  have "even (length (drop k bs))" unfolding len using b(2) by presburger
  then obtain ids where ids: "drop k bs = concat (map id_bytes ids)" "length (drop k bs) = length ids * 2"
    using even_bytes_ids by blast
  have v: "unat v = length ids * 2" using ids(2) unfolding len .
  have "bs = take k bs @ drop k bs" by (rule append_take_drop_id [symmetric])
  then have "bs = encode_quic_varint v @ concat (map id_bytes ids)" unfolding c(3) ids(1) .
  moreover have "encode_quic_varint (of_nat (unat v)) = encode_quic_varint v" by simp
  ultimately have "bs = components_list_bytes ids"
    unfolding components_list_bytes_def encode_var_bytes_def length_concat_id_bytes v [symmetric] by simp
  moreover have "length ids * 2 < 2 ^ 62" using c(1) unfolding v .
  ultimately show ?thesis by (rule that)
qed

text \<open>
  The component list codec is canonical up to the order of the ids.
  \<^const>\<open>decode_components_list\<close> accepts a byte string with the set \<open>s\<close> exactly when
  the string is the length-prefixed concatenation of pairwise distinct ids whose ordered set
  is \<open>s\<close>; in particular the encoding of every set reads back as that set.
\<close>
lemma components_list_canonical:
  "decode_components_list bs = Inr s \<longleftrightarrow>
     (\<exists>ids. distinct ids \<and> s = bs_of_list ids \<and> bs = encode_components_list ids)"
proof
  assume d: "decode_components_list bs = Inr s"
  obtain ids where ids: "bs = components_list_bytes ids" "length ids * 2 < 2 ^ 62"
    using d by (rule decode_components_list_sound)
  have "decode_ids (concat (map id_bytes ids)) [] = Inr s"
    using d unfolding ids(1) decode_components_list_eq [OF ids(2)] .
  then have "distinct ids \<and> s = bs_of_list ids"
    by (simp add: decode_ids_concat bs_of_list_def split: if_split_asm)
  then show "\<exists>ids. distinct ids \<and> s = bs_of_list ids \<and> bs = encode_components_list ids"
    unfolding ids(1) encode_components_list_bytes by blast
next
  assume "\<exists>ids. distinct ids \<and> s = bs_of_list ids \<and> bs = encode_components_list ids"
  then obtain ids where ids: "distinct ids" "s = bs_of_list ids" "bs = components_list_bytes ids"
    unfolding encode_components_list_bytes by blast
  have "length ids * 2 < 2 ^ 62" using distinct_u16_length [OF ids(1)] by simp
  then show "decode_components_list bs = Inr s"
    unfolding ids(2,3) by (simp add: decode_components_list_eq decode_ids_concat ids(1) bs_of_list_def)
qed

section \<open>Fixed-width integers\<close>

definition from_be_bytes :: "bytes \<Rightarrow> 'a::len word" where
  "from_be_bytes bs = of_nat (nat_of_be bs)"

lemma from_be_to_be_bytes:
  assumes "LENGTH('a) = 8 * k"
  shows "from_be_bytes (to_be_bytes k (w :: 'a::len word)) = w"
proof -
  have "unat w < 2 ^ LENGTH('a)" by (rule unsigned_less)
  then have "unat w < 256 ^ k" unfolding assms by (simp add: power_mult)
  then show ?thesis unfolding from_be_bytes_def nat_of_be_to_be_bytes by simp
qed

lemma to_be_from_be_bytes:
  assumes "LENGTH('a) = 8 * k" and "length bs = k"
  shows "to_be_bytes k (from_be_bytes bs :: 'a::len word) = bs"
proof -
  have lt: "nat_of_be bs < 256 ^ k" using nat_of_be_lt [of bs] unfolding assms(2) .
  then have "nat_of_be bs < 2 ^ LENGTH('a)" unfolding assms(1) by (simp add: power_mult)
  then have u: "unat (from_be_bytes bs :: 'a word) = nat_of_be bs"
    unfolding from_be_bytes_def by (simp add: unsigned_of_nat take_bit_nat_eq_self)
  have "nat_of_be (to_be_bytes k (from_be_bytes bs :: 'a word)) = nat_of_be bs"
    unfolding nat_of_be_to_be_bytes u using lt by (rule mod_less)
  then show ?thesis using assms(2) by (intro nat_of_be_inj) simp_all
qed

lemma to_be_bytes_inj:
  assumes "LENGTH('a) = 8 * k" and "to_be_bytes k (v :: 'a::len word) = to_be_bytes k w"
  shows "v = w"
proof -
  have "v = from_be_bytes (to_be_bytes k v)" by (rule from_be_to_be_bytes [OF assms(1), symmetric])
  also have "\<dots> = w" unfolding assms(2) by (rule from_be_to_be_bytes [OF assms(1)])
  finally show ?thesis .
qed

end
