(* ===== verification/Host_Safety.thy ===== *)
theory Host_Safety
  imports Codec
begin

text \<open>
  The host classifiers of \<^verbatim>\<open>crates/traits/src/app_components/host_safety.rs\<close>.  An IPv4 address
  is a 32-bit and an IPv6 address a 128-bit word, of which \<open>octets\<close> and \<open>segment\<close> read the
  parts that the sources match on; the standard library's \<^verbatim>\<open>is_loopback\<close>, \<^verbatim>\<open>is_multicast\<close> and
  \<^verbatim>\<open>to_ipv4_mapped\<close> are written out.  The classifiers are compared with the unsafe-host set of
  \<^verbatim>\<open>spec/foundation/host-safety.md\<close>, given as a list of address blocks.
\<close>

section \<open>Addresses\<close>

type_synonym Ipv4Addr = u32
type_synonym Ipv6Addr = "128 word"

datatype Host = HDomain string | HIpv4 Ipv4Addr | HIpv6 Ipv6Addr
datatype IpAddr = V4 Ipv4Addr | V6 Ipv6Addr

definition octets :: "Ipv4Addr \<Rightarrow> u8 \<times> u8 \<times> u8 \<times> u8" where
  "octets addr = (ucast (drop_bit 24 addr), ucast (drop_bit 16 addr), ucast (drop_bit 8 addr), ucast addr)"

definition segment :: "nat \<Rightarrow> Ipv6Addr \<Rightarrow> u16" where
  "segment i addr = ucast (drop_bit (112 - 16 * i) addr)"

definition ipv4_is_loopback :: "Ipv4Addr \<Rightarrow> bool" where
  "ipv4_is_loopback addr = (fst (octets addr) = 127)"

definition ipv6_is_loopback :: "Ipv6Addr \<Rightarrow> bool" where
  "ipv6_is_loopback addr = (addr = 1)"

definition ipv6_is_unspecified :: "Ipv6Addr \<Rightarrow> bool" where
  "ipv6_is_unspecified addr = (addr = 0)"

definition ipv6_is_multicast :: "Ipv6Addr \<Rightarrow> bool" where
  "ipv6_is_multicast addr = (segment 0 addr AND 0xff00 = 0xff00)"

definition to_ipv4_mapped :: "Ipv6Addr \<Rightarrow> Ipv4Addr option" where
  "to_ipv4_mapped addr = (if drop_bit 32 addr = 0xffff then Some (ucast addr) else None)"

section \<open>Host names\<close>

definition to_ascii_lowercase :: "string \<Rightarrow> string" where
  "to_ascii_lowercase s =
     map (\<lambda>c. if CHR ''A'' \<le> c \<and> c \<le> CHR ''Z'' then char_of (of_char c + 32 :: nat) else c) s"

definition ends_with :: "string \<Rightarrow> string \<Rightarrow> bool" where
  "ends_with s t = (length t \<le> length s \<and> drop (length s - length t) s = t)"

definition localhost_domain :: "string \<Rightarrow> bool" where
  "localhost_domain domain =
     (let lowered = to_ascii_lowercase domain
      in lowered = ''localhost'' \<or> ends_with lowered ''.localhost'')"

fun is_loopback_host :: "Host \<Rightarrow> bool" where
  "is_loopback_host (HDomain domain) = localhost_domain domain"
| "is_loopback_host (HIpv4 addr) = ipv4_is_loopback addr"
| "is_loopback_host (HIpv6 addr) = ipv6_is_loopback addr"

fun is_loopback_ip :: "IpAddr \<Rightarrow> bool" where
  "is_loopback_ip (V4 addr) = ipv4_is_loopback addr"
| "is_loopback_ip (V6 addr) = ipv6_is_loopback addr"

section \<open>Routable addresses\<close>

definition is_public_ipv4 :: "Ipv4Addr \<Rightarrow> bool" where
  "is_public_ipv4 addr =
     (case octets addr of (a, b, c, d) \<Rightarrow>
        \<not> (a = 0
         \<or> a = 10
         \<or> a = 100 \<and> 64 \<le> b \<and> b \<le> 127
         \<or> a = 127
         \<or> a = 169 \<and> b = 254
         \<or> a = 172 \<and> 16 \<le> b \<and> b \<le> 31
         \<or> a = 192 \<and> b = 0 \<and> c = 0
         \<or> a = 192 \<and> b = 0 \<and> c = 2
         \<or> a = 192 \<and> b = 88 \<and> c = 99
         \<or> a = 192 \<and> b = 168
         \<or> a = 198 \<and> 18 \<le> b \<and> b \<le> 19
         \<or> a = 198 \<and> b = 51 \<and> c = 100
         \<or> a = 203 \<and> b = 0 \<and> c = 113
         \<or> 224 \<le> a))"

definition is_public_ipv6 :: "Ipv6Addr \<Rightarrow> bool" where
  "is_public_ipv6 addr =
     (case to_ipv4_mapped addr of
        Some mapped \<Rightarrow> is_public_ipv4 mapped
      | None \<Rightarrow>
          if ipv6_is_loopback addr \<or> ipv6_is_unspecified addr \<or> ipv6_is_multicast addr then False
          else (let first = segment 0 addr; second = segment 1 addr in
            if first AND 0xfe00 = 0xfc00 \<or> first AND 0xffc0 = 0xfe80 then False
            else if first = 0x2002 \<or> (first = 0x2001 \<and> second = 0) then False
            else if first = 0x2001 \<and> second = 0x0db8 then False
            else if first AND 0xfff0 = 0x3ff0 then False
            else first AND 0xe000 = 0x2000))"

fun is_public_ip :: "IpAddr \<Rightarrow> bool" where
  "is_public_ip (V4 addr) = is_public_ipv4 addr"
| "is_public_ip (V6 addr) = is_public_ipv6 addr"

definition reject_non_routable_ipv4 :: "Ipv4Addr \<Rightarrow> string + unit" where
  "reject_non_routable_ipv4 addr =
     (if \<not> is_public_ipv4 addr then Inl ''group avatar URL must not point at a non-routable address''
      else Inr ())"

definition reject_non_routable_ipv6 :: "Ipv6Addr \<Rightarrow> string + unit" where
  "reject_non_routable_ipv6 addr =
     (if \<not> is_public_ipv6 addr then Inl ''group avatar URL must not point at a non-routable address''
      else Inr ())"

section \<open>The unsafe-host set of the specification\<close>

text \<open>An address block \<open>(base, n)\<close> holds the addresses that share their first \<open>n\<close> bits with \<open>base\<close>.\<close>

definition in_block :: "'a::len word \<Rightarrow> 'a word \<times> nat \<Rightarrow> bool" where
  "in_block addr blk = (drop_bit (LENGTH('a) - snd blk) addr = drop_bit (LENGTH('a) - snd blk) (fst blk))"

definition unsafe_ipv4_blocks :: "(Ipv4Addr \<times> nat) list" where
  "unsafe_ipv4_blocks =
     [(0x00000000, 8), (0x0A000000, 8), (0x64400000, 10), (0x7F000000, 8), (0xA9FE0000, 16),
      (0xAC100000, 12), (0xC0000000, 24), (0xC0000200, 24), (0xC0586300, 24), (0xC0A80000, 16),
      (0xC6120000, 15), (0xC6336400, 24), (0xCB007100, 24), (0xE0000000, 4), (0xF0000000, 4)]"

definition ipv4_mapped_block :: "Ipv6Addr \<times> nat" where
  "ipv4_mapped_block = (0xffff00000000, 96)"

definition global_unicast_block :: "Ipv6Addr \<times> nat" where
  "global_unicast_block = (push_bit 112 0x2000, 3)"

definition unsafe_ipv6_blocks :: "(Ipv6Addr \<times> nat) list" where
  "unsafe_ipv6_blocks =
     [(1, 128), (0, 128), (push_bit 112 0x2001, 32), (push_bit 96 0x20010db8, 32),
      (push_bit 112 0x2002, 16), (push_bit 112 0x3fff, 20), (push_bit 112 0xfc00, 7),
      (push_bit 112 0xfe80, 10), (push_bit 112 0xff00, 8)]"

definition spec_safe_ipv4 :: "Ipv4Addr \<Rightarrow> bool" where
  "spec_safe_ipv4 addr = (\<not> list_ex (in_block addr) unsafe_ipv4_blocks)"

definition spec_safe_ipv6 :: "Ipv6Addr \<Rightarrow> bool" where
  "spec_safe_ipv6 addr =
     (if in_block addr ipv4_mapped_block then spec_safe_ipv4 (ucast addr)
      else in_block addr global_unicast_block \<and> \<not> list_ex (in_block addr) unsafe_ipv6_blocks)"

text \<open>
  A name is unsafe when its final label is \<^verbatim>\<open>localhost\<close>, in any case.  A trailing dot writes the
  empty root label of a fully qualified name and is not a label of its own.
\<close>

definition strip_root :: "string \<Rightarrow> string" where
  "strip_root name = (if name \<noteq> [] \<and> last name = CHR ''.'' then butlast name else name)"

definition last_label :: "string \<Rightarrow> string" where
  "last_label name = rev (takeWhile (\<lambda>c. c \<noteq> CHR ''.'') (rev name))"

fun spec_safe_host :: "Host \<Rightarrow> bool" where
  "spec_safe_host (HDomain domain) = (to_ascii_lowercase (last_label (strip_root domain)) \<noteq> ''localhost'')"
| "spec_safe_host (HIpv4 addr) = spec_safe_ipv4 addr"
| "spec_safe_host (HIpv6 addr) = spec_safe_ipv6 addr"

text \<open>The names on which the code's test and the rule of the specification differ: a \<^verbatim>\<open>localhost\<close>
  name written with the trailing root dot.\<close>

fun trailing_dot_localhost :: "Host \<Rightarrow> bool" where
  "trailing_dot_localhost (HDomain domain) =
     (domain \<noteq> [] \<and> last domain = CHR ''.'' \<and> to_ascii_lowercase (last_label (butlast domain)) = ''localhost'')"
| "trailing_dot_localhost _ = False"

section \<open>Addresses as numbers\<close>

lemma unat_drop_bit: "unat (drop_bit n (a :: 'a::len word)) = unat a div 2 ^ n"
  by (simp only: unsigned_drop_bit_eq) (simp add: drop_bit_eq_div take_bit_nat_eq_self)

lemma in_block_nat:
  "in_block (addr :: 'a::len word) (base, n) \<longleftrightarrow> unat addr div 2 ^ (LENGTH('a) - n) = unat base div 2 ^ (LENGTH('a) - n)"
  by (simp add: in_block_def word_unat_eq_iff unat_drop_bit)

lemma split_block:
  fixes k m :: nat
  assumes "b < m"
  shows "k div m = a \<and> k mod m = b \<longleftrightarrow> k = a * m + b"
  using assms by auto

lemma range_block:
  fixes k m d :: nat
  assumes "0 < d" "b < m"
  shows "k div (m * d) = a \<and> b * d \<le> k mod (m * d) \<and> k mod (m * d) < b * d + d \<longleftrightarrow> k div d = a * m + b"
proof -
  have "k mod (m * d) div d = k div d mod m" "k div (m * d) = k div d div m"
    using mod_mult2_eq [of k d m] assms by (simp_all add: mult.commute div_mult2_eq)
  moreover have "b * d \<le> r \<and> r < b * d + d \<longleftrightarrow> r div d = b" for r
    using assms(1) dividend_less_times_div [of d r]
    by (auto simp: mult.commute add.commute intro: div_nat_eqI)
  moreover have "K div m = a \<and> K mod m = b \<longleftrightarrow> K = a * m + b" for K
    using assms(2) by (rule split_block)
  ultimately show ?thesis by metis
qed

lemma and_hi_mask_eq: "(w :: 'a::len word) AND NOT (mask n) = v \<longleftrightarrow> drop_bit n w = drop_bit n v \<and> take_bit n v = 0"
proof
  assume "w AND NOT (mask n) = v"
  then have v: "v = w AND NOT (mask n)" ..
  have "drop_bit n w = drop_bit n v" unfolding v by (rule bit_word_eqI) (auto simp add: bit_simps dest: bit_imp_le_length)
  moreover have "take_bit n v = 0" unfolding v by (rule bit_word_eqI) (auto simp add: bit_simps)
  ultimately show "drop_bit n w = drop_bit n v \<and> take_bit n v = 0" ..
next
  assume a: "drop_bit n w = drop_bit n v \<and> take_bit n v = 0"
  then have "v = push_bit n (drop_bit n w)" using bits_ident [of n v] by simp
  then show "w AND NOT (mask n) = v" by (simp) (rule bit_word_eqI, auto simp add: bit_simps)
qed

lemma hi_masks: "(0xff00 :: u16) = NOT (mask 8)" "(0xfe00 :: u16) = NOT (mask 9)" "(0xffc0 :: u16) = NOT (mask 6)"
  "(0xfff0 :: u16) = NOT (mask 4)" "(0xe000 :: u16) = NOT (mask 13)"
  by (simp_all add: mask_numeral)

lemma and_hi_mask_nat:
  "(w :: 'a::len word) AND NOT (mask n) = v \<longleftrightarrow> unat w div 2 ^ n = unat v div 2 ^ n \<and> take_bit n v = 0"
  unfolding and_hi_mask_eq word_unat_eq_iff [of "drop_bit n w"] unat_drop_bit ..

lemma hi_mask_eqs:
  fixes w :: u16
  shows "w AND 0xff00 = 0xff00 \<longleftrightarrow> unat w div 2 ^ 8 = 255"
    "w AND 0xfe00 = 0xfc00 \<longleftrightarrow> unat w div 2 ^ 9 = 126"
    "w AND 0xffc0 = 0xfe80 \<longleftrightarrow> unat w div 2 ^ 6 = 1018"
    "w AND 0xfff0 = 0x3ff0 \<longleftrightarrow> unat w div 2 ^ 4 = 1023"
    "w AND 0xe000 = 0x2000 \<longleftrightarrow> unat w div 2 ^ 13 = 1"
  using and_hi_mask_nat [of w 8 "0xff00"] and_hi_mask_nat [of w 9 "0xfc00"] and_hi_mask_nat [of w 6 "0xfe80"]
    and_hi_mask_nat [of w 4 "0x3ff0"] and_hi_mask_nat [of w 13 "0x2000"]
  unfolding hi_masks [symmetric] by simp_all

lemma octets_nat:
  assumes "octets addr = (a, b, c, d)" and "k = unat addr div 256"
  shows "unat a = k div 65536" "unat b = k div 256 mod 256" "unat c = k mod 256"
proof -
  have k: "k div 65536 = unat addr div 2 ^ 24" "k div 256 = unat addr div 2 ^ 16"
    unfolding assms(2) by (simp_all add: div_mult2_eq [symmetric])
  have "unat addr < 2 ^ 32" using unsigned_less [of addr] by simp
  then have "unat addr div 2 ^ 24 < 256" by (simp add: less_mult_imp_div_less)
  then show "unat a = k div 65536"
    using assms(1) unfolding k by (auto simp: octets_def unsigned_ucast_eq take_bit_eq_mod unat_drop_bit)
  show "unat b = k div 256 mod 256"
    using assms(1) unfolding k by (auto simp: octets_def unsigned_ucast_eq take_bit_eq_mod unat_drop_bit)
  show "unat c = k mod 256"
    using assms(1) unfolding assms(2) by (auto simp: octets_def unsigned_ucast_eq take_bit_eq_mod unat_drop_bit)
qed

lemma ipv4_blocks:
  fixes k :: nat
  shows "k div 65536 = 100 \<and> 64 \<le> k div 256 mod 256 \<and> k div 256 mod 256 \<le> 127 \<longleftrightarrow> k div 16384 = 401"
    "k div 65536 = 172 \<and> 16 \<le> k div 256 mod 256 \<and> k div 256 mod 256 \<le> 31 \<longleftrightarrow> k div 4096 = 2753"
    "k div 65536 = 198 \<and> 18 \<le> k div 256 mod 256 \<and> k div 256 mod 256 \<le> 19 \<longleftrightarrow> k div 512 = 25353"
proof -
  have d: "k div 65536 = k div 256 div 256" "k div 16384 = k div 256 div 64" "k div 4096 = k div 256 div 16"
      "k div 512 = k div 256 div 2" by (simp_all add: div_mult2_eq [symmetric])
  show "k div 65536 = 100 \<and> 64 \<le> k div 256 mod 256 \<and> k div 256 mod 256 \<le> 127 \<longleftrightarrow> k div 16384 = 401"
    unfolding d using range_block [of 64 1 4 "k div 256" 100] by auto
  show "k div 65536 = 172 \<and> 16 \<le> k div 256 mod 256 \<and> k div 256 mod 256 \<le> 31 \<longleftrightarrow> k div 4096 = 2753"
    unfolding d using range_block [of 16 1 16 "k div 256" 172] by auto
  show "k div 65536 = 198 \<and> 18 \<le> k div 256 mod 256 \<and> k div 256 mod 256 \<le> 19 \<longleftrightarrow> k div 512 = 25353"
    unfolding d using range_block [of 2 9 128 "k div 256" 198] by auto
qed

lemma octet_pair: "b < 256 \<Longrightarrow> (k :: nat) div 65536 = a \<and> k div 256 mod 256 = b \<longleftrightarrow> k div 256 = a * 256 + b"
  using split_block [of b 256 "k div 256" a] by (simp add: div_mult2_eq [symmetric])

lemma octet_triple:
  "b < 256 \<Longrightarrow> c < 256 \<Longrightarrow>
   (k :: nat) div 65536 = a \<and> k div 256 mod 256 = b \<and> k mod 256 = c \<longleftrightarrow> k = (a * 256 + b) * 256 + c"
  using octet_pair [of b k a] split_block [of c 256 k "a * 256 + b"] by blast

lemma ge_224: "(a :: nat) < 256 \<Longrightarrow> 224 \<le> a \<longleftrightarrow> a div 16 = 14 \<or> a div 16 = 15"
  by auto

lemma in_ipv4_block:
  assumes "n \<le> 24"
  shows "in_block (addr :: Ipv4Addr) (base, n) \<longleftrightarrow> unat addr div 256 div 2 ^ (24 - n) = unat base div 256 div 2 ^ (24 - n)"
proof -
  have "(2 :: nat) ^ (32 - n) = 256 * 2 ^ (24 - n)"
    using assms power_add [of "2 :: nat" 8 "24 - n"] by simp
  then show ?thesis by (simp add: in_block_nat div_mult2_eq)
qed

lemma is_public_ipv4_spec: "is_public_ipv4 addr \<longleftrightarrow> spec_safe_ipv4 addr"
proof -
  obtain a b c d where o: "octets addr = (a, b, c, d)" by (cases "octets addr") auto
  define k where "k = unat addr div 256"
  note n = octets_nat [OF o k_def]
  have a: "k div 65536 < 256" unfolding n(1) [symmetric] by (rule unat_u8_lt)
  have "is_public_ipv4 addr \<longleftrightarrow> \<not>
      (k div 65536 = 0 \<or> k div 65536 = 10 \<or> k div 16384 = 401 \<or> k div 65536 = 127 \<or> k div 256 = 43518
       \<or> k div 4096 = 2753 \<or> k = 12582912 \<or> k = 12582914 \<or> k = 12605539 \<or> k div 256 = 49320
       \<or> k div 512 = 25353 \<or> k = 12989284 \<or> k = 13303921 \<or> k div 65536 div 16 = 14 \<or> k div 65536 div 16 = 15)"
    unfolding is_public_ipv4_def o prod.case word_unat_eq_iff word_le_nat_alt n
    using octet_pair [of 254 k 169] octet_pair [of 168 k 192] octet_triple [of 0 0 k 192] octet_triple [of 0 2 k 192]
      octet_triple [of 88 99 k 192] octet_triple [of 51 100 k 198] octet_triple [of 0 113 k 203]
      ipv4_blocks [of k] ge_224 [OF a]
    by simp
  moreover have "spec_safe_ipv4 addr \<longleftrightarrow> \<not>
      (k div 65536 = 0 \<or> k div 65536 = 10 \<or> k div 16384 = 401 \<or> k div 65536 = 127 \<or> k div 256 = 43518
       \<or> k div 4096 = 2753 \<or> k = 12582912 \<or> k = 12582914 \<or> k = 12605539 \<or> k div 256 = 49320
       \<or> k div 512 = 25353 \<or> k = 12989284 \<or> k = 13303921 \<or> k div 65536 div 16 = 14 \<or> k div 65536 div 16 = 15)"
    unfolding spec_safe_ipv4_def unsafe_ipv4_blocks_def
    by (simp add: in_ipv4_block k_def [symmetric] div_mult2_eq [symmetric])
  ultimately show ?thesis by blast
qed

section \<open>The classifiers against the specification\<close>

lemma segments_nat:
  assumes "q = unat addr div 2 ^ 96"
  shows "unat (segment 0 addr) = q div 65536" "unat (segment 1 addr) = q mod 65536"
proof -
  have q: "q div 65536 = unat addr div 2 ^ 112" unfolding assms by (simp add: div_mult2_eq [symmetric])
  have "unat addr < 2 ^ 128" using unsigned_less [of addr] by simp
  then have "unat addr div 2 ^ 112 < 65536" by (simp add: less_mult_imp_div_less)
  then show "unat (segment 0 addr) = q div 65536"
    unfolding q by (simp add: segment_def unsigned_ucast_eq take_bit_eq_mod unat_drop_bit)
  show "unat (segment 1 addr) = q mod 65536"
    unfolding assms by (simp add: segment_def unsigned_ucast_eq take_bit_eq_mod unat_drop_bit)
qed

lemma in_ipv6_block:
  assumes "n \<le> 32"
  shows "in_block (addr :: Ipv6Addr) (base, n) \<longleftrightarrow>
    unat addr div 2 ^ 96 div 2 ^ (32 - n) = unat base div 2 ^ 96 div 2 ^ (32 - n)"
proof -
  have "(2 :: nat) ^ (128 - n) = 2 ^ 96 * 2 ^ (32 - n)"
    using assms power_add [of "2 :: nat" 96 "32 - n"] by simp
  then show ?thesis by (simp add: in_block_nat div_mult2_eq)
qed

lemma to_ipv4_mapped_block: "to_ipv4_mapped addr = (if in_block addr ipv4_mapped_block then Some (ucast addr) else None)"
  by (simp add: to_ipv4_mapped_def in_block_def ipv4_mapped_block_def)

lemma is_public_ipv6_spec:
  "is_public_ipv6 addr \<longleftrightarrow>
     spec_safe_ipv6 addr \<and> (in_block addr ipv4_mapped_block \<or> \<not> in_block addr (push_bit 112 0x3ff0, 12))"
proof (cases "in_block addr ipv4_mapped_block")
  case True
  then show ?thesis by (simp add: is_public_ipv6_def spec_safe_ipv6_def to_ipv4_mapped_block is_public_ipv4_spec)
next
  case False
  define q where "q = unat addr div 2 ^ 96"
  note s = segments_nat [OF q_def]
  have p: "is_public_ipv6 addr \<longleftrightarrow> addr \<noteq> 1 \<and> addr \<noteq> 0 \<and> q div 65536 div 256 \<noteq> 255
       \<and> q div 65536 div 512 \<noteq> 126 \<and> q div 65536 div 64 \<noteq> 1018 \<and> q div 65536 \<noteq> 8194
       \<and> \<not> (q div 65536 = 8193 \<and> q mod 65536 = 0) \<and> \<not> (q div 65536 = 8193 \<and> q mod 65536 = 3512)
       \<and> q div 65536 div 16 \<noteq> 1023 \<and> q div 65536 div 8192 = 1"
    unfolding is_public_ipv6_def to_ipv4_mapped_block Let_def ipv6_is_loopback_def ipv6_is_unspecified_def
      ipv6_is_multicast_def hi_mask_eqs word_unat_eq_iff [of "segment _ _"] s
    using False by auto
  have g: "in_block addr global_unicast_block \<longleftrightarrow> q div 65536 div 8192 = 1"
    unfolding global_unicast_block_def by (simp add: in_ipv6_block q_def div_mult2_eq [symmetric])
  have d: "in_block addr (push_bit 112 0x3ff0, 12) \<longleftrightarrow> q div 65536 div 16 = 1023"
    by (simp add: in_ipv6_block q_def div_mult2_eq [symmetric])
  have u: "list_ex (in_block addr) unsafe_ipv6_blocks \<longleftrightarrow>
      addr = 1 \<or> addr = 0 \<or> q = 536936448 \<or> q = 536939960 \<or> q div 65536 = 8194 \<or> q div 4096 = 262128
      \<or> q div 65536 div 512 = 126 \<or> q div 65536 div 64 = 1018 \<or> q div 65536 div 256 = 255"
    unfolding unsafe_ipv6_blocks_def
    by (simp add: in_ipv6_block in_block_def [of _ "(1, 128)"] in_block_def [of _ "(0, 128)"] q_def div_mult2_eq [symmetric])
  have "q div 65536 = 8193 \<and> q mod 65536 = 0 \<longleftrightarrow> q = 536936448" "q div 65536 = 8193 \<and> q mod 65536 = 3512 \<longleftrightarrow> q = 536939960"
    using split_block [of 0 65536 q 8193] split_block [of 3512 65536 q 8193] by simp_all
  moreover have "q div 4096 = 262128 \<Longrightarrow> q div 65536 div 16 = 1023"
    using div_mult2_eq [of q 4096 256] by (simp add: div_mult2_eq [symmetric])
  ultimately show ?thesis
    unfolding p spec_safe_ipv6_def u g d using False by auto
qed

text \<open>
  C29: The address classifiers implement the unsafe-host set.  An IPv4 address is public exactly
  when it lies in none of the unsafe blocks of the specification.  An IPv6 address is public
  exactly when the specification calls it safe (an IPv4-mapped address by its embedded address,
  any other by lying in \<^verbatim>\<open>2000::/3\<close> and in no unsafe block) and it is not an unmapped address in
  \<^verbatim>\<open>3ff0::/12\<close>.
\<close>
theorem public_addresses_match_spec:
  "(is_public_ip (V4 a) \<longleftrightarrow> spec_safe_ipv4 a) \<and>
   (is_public_ip (V6 b) \<longleftrightarrow>
      spec_safe_ipv6 b \<and> \<not> (in_block b (push_bit 112 0x3ff0, 12) \<and> \<not> in_block b ipv4_mapped_block))"
  by (simp add: is_public_ipv4_spec is_public_ipv6_spec) blast

text \<open>
  The documentation rule of \<^const>\<open>is_public_ipv6\<close> is wider than the documentation block.
  The address \<^verbatim>\<open>3ff0::1\<close> lies in \<^verbatim>\<open>2000::/3\<close>, outside \<^verbatim>\<open>3fff::/20\<close> and outside every other
  unsafe block, so the specification calls it safe, and the code rejects it.
\<close>
lemma documentation_rule_overblocks:
  "spec_safe_ipv6 (push_bit 112 0x3ff0 + 1) \<and> \<not> is_public_ipv6 (push_bit 112 0x3ff0 + 1)"
proof -
  define b :: Ipv6Addr where "b = push_bit 112 0x3ff0 + 1"
  have q: "unat b div 79228162514264337593543950336 = 1072693248" unfolding b_def by simp
  have "b \<noteq> 0" "b \<noteq> 1" unfolding b_def by simp_all
  then have "\<not> list_ex (in_block b) unsafe_ipv6_blocks"
    unfolding unsafe_ipv6_blocks_def
    by (simp add: in_ipv6_block q in_block_def [of _ "(1, 128)"] in_block_def [of _ "(0, 128)"])
  moreover have "in_block b global_unicast_block" "in_block b (push_bit 112 0x3ff0, 12)"
    unfolding global_unicast_block_def by (simp_all add: in_ipv6_block q)
  moreover have "\<not> in_block b ipv4_mapped_block"
    unfolding b_def ipv4_mapped_block_def in_block_def by simp
  ultimately show ?thesis
    unfolding b_def [symmetric] spec_safe_ipv6_def is_public_ipv6_spec by simp
qed

lemma lower_eq_dot: "(if CHR ''A'' \<le> c \<and> c \<le> CHR ''Z'' then char_of (of_char c + 32 :: nat) else c) = CHR ''.''
    \<longleftrightarrow> c = CHR ''.''"
proof (cases "CHR ''A'' \<le> c \<and> c \<le> CHR ''Z''")
  case True
  then have b: "65 \<le> (of_char c :: nat)" "(of_char c :: nat) \<le> 90" by (simp_all add: less_eq_char_def)
  have "char_of (of_char c + 32 :: nat) \<noteq> CHR ''.''"
  proof
    assume "char_of (of_char c + 32 :: nat) = CHR ''.''"
    then have "of_char (char_of (of_char c + 32 :: nat)) = (46 :: nat)" by simp
    then show False using b by (simp add: of_char_of)
  qed
  moreover have "c \<noteq> CHR ''.''" using b by auto
  ultimately show ?thesis using True by simp
qed (auto split: if_splits)

lemma last_label_lower: "to_ascii_lowercase (last_label s) = last_label (to_ascii_lowercase s)"
  unfolding last_label_def to_ascii_lowercase_def
  by (simp add: rev_map takeWhile_map comp_def lower_eq_dot)

lemma takeWhile_eq_iff:
  assumes "c \<notin> set w"
  shows "takeWhile (\<lambda>x. x \<noteq> c) xs = w \<longleftrightarrow> xs = w \<or> (\<exists>ys. xs = w @ c # ys)"
proof
  assume w: "takeWhile (\<lambda>x. x \<noteq> c) xs = w"
  have split: "xs = w @ dropWhile (\<lambda>x. x \<noteq> c) xs" using takeWhile_dropWhile_id [of "\<lambda>x. x \<noteq> c" xs] w by simp
  show "xs = w \<or> (\<exists>ys. xs = w @ c # ys)"
  proof (cases "dropWhile (\<lambda>x. x \<noteq> c) xs")
    case Nil
    then have "xs = w" using split by (simp only: append_Nil2)
    then show ?thesis ..
  next
    case (Cons y ys)
    then have "y = c" using hd_dropWhile [of "\<lambda>x. x \<noteq> c" xs] by auto
    then have "xs = w @ c # ys" using split Cons by simp
    then show ?thesis by blast
  qed
next
  have all: "\<forall>x \<in> set w. x \<noteq> c" using assms by auto
  assume "xs = w \<or> (\<exists>ys. xs = w @ c # ys)"
  then show "takeWhile (\<lambda>x. x \<noteq> c) xs = w" using all by (auto simp: takeWhile_append takeWhile_eq_all_conv)
qed

lemma ends_with_iff: "ends_with s t \<longleftrightarrow> (\<exists>p. s = p @ t)"
proof
  assume "ends_with s t"
  then have "s = take (length s - length t) s @ t"
    using append_take_drop_id [of "length s - length t" s] by (simp add: ends_with_def)
  then show "\<exists>p. s = p @ t" ..
qed (auto simp: ends_with_def)

lemma last_label_eq_iff:
  assumes "CHR ''.'' \<notin> set w"
  shows "last_label s = w \<longleftrightarrow> s = w \<or> ends_with s (CHR ''.'' # w)"
proof -
  have "last_label s = w \<longleftrightarrow> rev s = rev w \<or> (\<exists>ys. rev s = rev w @ CHR ''.'' # ys)"
    using takeWhile_eq_iff [of "CHR ''.''" "rev w" "rev s"] assms by (simp add: last_label_def rev_swap)
  moreover have "rev s = rev w @ CHR ''.'' # ys \<longleftrightarrow> s = rev ys @ CHR ''.'' # w" for ys
    unfolding rev_swap by simp
  moreover have "(\<exists>ys. s = rev ys @ CHR ''.'' # w) \<longleftrightarrow> ends_with s (CHR ''.'' # w)"
    unfolding ends_with_iff by (auto intro: exI [of _ "rev _"])
  ultimately show ?thesis by simp
qed

text \<open>The code's test is the rule on the final label, read without regard to a root dot.\<close>

lemma localhost_domain_last_label: "localhost_domain d \<longleftrightarrow> to_ascii_lowercase (last_label d) = ''localhost''"
  using last_label_eq_iff [of "''localhost''" "to_ascii_lowercase d"]
  by (simp add: localhost_domain_def Let_def last_label_lower)

lemma not_localhost_domain:
  "\<not> localhost_domain d \<Longrightarrow> spec_safe_host (HDomain d) \<or> trailing_dot_localhost (HDomain d)"
  by (auto simp: localhost_domain_last_label strip_root_def)

lemma trailing_dot_localhost_not_loopback: "trailing_dot_localhost h \<Longrightarrow> \<not> is_loopback_host h \<and> \<not> spec_safe_host h"
proof (cases h)
  case (HDomain d)
  assume "trailing_dot_localhost h"
  then have d: "d \<noteq> []" "last d = CHR ''.''" "to_ascii_lowercase (last_label (butlast d)) = ''localhost''"
    using HDomain by simp_all
  then have "d = butlast d @ [CHR ''.'']" using append_butlast_last_id [of d] by simp
  from arg_cong [OF this, of rev] have r: "rev d = CHR ''.'' # rev (butlast d)" by simp
  have "last_label d = []" unfolding last_label_def r by simp
  then show ?thesis using HDomain d by (simp add: localhost_domain_last_label strip_root_def to_ascii_lowercase_def)
qed simp_all

end
