(* ===== verification/Url_Model.thy ===== *)
theory Url_Model
  imports Host_Safety
begin

text \<open>
  What the component codecs share beyond the byte primitives: sequencing of fallible steps, the
  string operations of the standard library they call, the view they take of a parsed URL, and
  the two interfaces their proofs go through.  \<^verbatim>\<open>Url::parse\<close> belongs to a third-party crate; every
  definition that parses takes it as an argument.  \<open>item_loop\<close> is the contract of the loops that
  read items off a cursor until it is empty, \<open>canonical_codec\<close> the contract of
  \<^verbatim>\<open>spec/foundation/canonical-encoding.md\<close>: whatever a decoder accepts is the encoding of the
  decoded value.
\<close>

section \<open>Fallible steps\<close>

fun r_bind :: "'e + 'a \<Rightarrow> ('a \<Rightarrow> 'e + 'b) \<Rightarrow> 'e + 'b" where
  "r_bind (Inl e) f = Inl e"
| "r_bind (Inr x) f = f x"

fun r_map_err :: "('e \<Rightarrow> 'f) \<Rightarrow> 'e + 'a \<Rightarrow> 'f + 'a" where
  "r_map_err f (Inl e) = Inl (f e)"
| "r_map_err f (Inr x) = Inr x"

named_theorems r_simps "success of sequenced fallible steps"

lemma r_bind_Inr [r_simps]: "r_bind r f = Inr y \<longleftrightarrow> (\<exists>x. r = Inr x \<and> f x = Inr y)"
  by (cases r) auto

lemma r_map_err_Inr [r_simps]: "r_map_err f r = Inr y \<longleftrightarrow> r = Inr y"
  by (cases r) auto

lemma if_Inl_Inr [r_simps]:
  "(if c then Inl e else r) = Inr y \<longleftrightarrow> \<not> c \<and> r = Inr y"
  "(if c then r else Inl e) = Inr y \<longleftrightarrow> c \<and> r = Inr y"
  by auto

section \<open>Strings\<close>

lemma length_as_bytes [simp]: "length (as_bytes s) = length s"
  by (simp add: as_bytes_def)

lemma length_string_of_bytes [simp]: "length (string_of_bytes bs) = length bs"
  by (simp add: string_of_bytes_def)

lemma of_char_char_of_u8: "(of_char (char_of (unat (b :: u8)) :: char) :: u8) = b"
proof -
  have "(of_char (char_of (unat b) :: char) :: nat) = unat b"
    using unat_u8_lt [of b] by (simp add: of_char_of)
  then have "(of_nat (of_char (char_of (unat b) :: char)) :: u8) = of_nat (unat b)" by (simp only:)
  also have "\<dots> = b" by simp
  finally show ?thesis by (simp only: of_nat_of_char)
qed

lemma as_bytes_string_of_bytes [simp]: "as_bytes (string_of_bytes bs) = bs"
  by (simp add: as_bytes_def string_of_bytes_def comp_def of_char_char_of_u8)

lemma unat_of_char: "unat (of_char c :: u8) = (of_char c :: nat)"
proof -
  have "(of_char c :: nat) < 256" by (rule nat_of_char_less_256)
  then have "unat (of_nat (of_char c) :: u8) = of_char c"
    by (simp only: unsigned_of_nat) (simp add: take_bit_nat_eq_self)
  then show ?thesis by (simp only: of_nat_of_char)
qed

lemma string_of_bytes_as_bytes [simp]: "string_of_bytes (as_bytes s) = s"
  by (simp add: as_bytes_def string_of_bytes_def comp_def unat_of_char)

lemma as_bytes_inject [simp]: "as_bytes s = as_bytes t \<longleftrightarrow> s = t"
  by (metis string_of_bytes_as_bytes)

definition is_utf8 :: "string \<Rightarrow> bool" where
  "is_utf8 s \<longleftrightarrow> utf8_validate 0 (as_bytes s) = Inr ()"

lemma from_utf8_Inr: "from_utf8 bs = Inr s \<longleftrightarrow> is_utf8 s \<and> bs = as_bytes s"
proof -
  have "from_utf8 bs = Inr s \<longleftrightarrow> utf8_validate 0 bs = Inr () \<and> string_of_bytes bs = s"
    by (auto simp: from_utf8_def split: sum.splits)
  then show ?thesis unfolding is_utf8_def by (metis as_bytes_string_of_bytes string_of_bytes_as_bytes)
qed

section \<open>Parsed URLs\<close>

record Url =
  url_scheme :: string
  url_username :: string
  url_password :: "string option"
  url_fragment :: "string option"
  url_host :: "Host option"
  url_str :: string

type_synonym url_parser = "string \<Rightarrow> string + Url"

section \<open>Item loops\<close>

primrec ok_from :: "('a list \<Rightarrow> 'a \<Rightarrow> bool) \<Rightarrow> 'a list \<Rightarrow> 'a list \<Rightarrow> bool" where
  "ok_from ok acc [] = True"
| "ok_from ok acc (x # xs) = (ok acc x \<and> ok_from ok (acc @ [x]) xs)"

locale item_loop =
  fixes enc :: "'a \<Rightarrow> bytes"
    and ok :: "'a list \<Rightarrow> 'a \<Rightarrow> bool"
    and step :: "'a list \<Rightarrow> bytes \<Rightarrow> string + ('a \<times> bytes)"
    and loop :: "bytes \<Rightarrow> 'a list \<Rightarrow> string + 'a list"
  assumes loop_Nil: "loop [] acc = Inr acc"
    and loop_step: "bs \<noteq> [] \<Longrightarrow> loop bs acc = r_bind (step acc bs) (\<lambda>(x, r). loop r (acc @ [x]))"
    and step_iff: "step acc bs = Inr (x, r) \<longleftrightarrow> ok acc x \<and> bs = enc x @ r"
    and enc_nonempty: "enc x \<noteq> []"
begin

lemma loop_enc: "ok_from ok acc xs \<Longrightarrow> loop (concat (map enc xs)) acc = Inr (acc @ xs)"
proof (induction xs arbitrary: acc)
  case (Cons x xs)
  let ?r = "concat (map enc xs)"
  have "step acc (enc x @ ?r) = Inr (x, ?r)" using Cons.prems step_iff by simp
  then have "loop (enc x @ ?r) acc = loop ?r (acc @ [x])"
    using loop_step [of "enc x @ ?r" acc] enc_nonempty by simp
  then show ?case using Cons by simp
qed (simp add: loop_Nil)

lemma loop_sound: "loop bs acc = Inr ys \<Longrightarrow> \<exists>xs. ys = acc @ xs \<and> bs = concat (map enc xs) \<and> ok_from ok acc xs"
proof (induction "length bs" arbitrary: bs acc rule: less_induct)
  case less
  show ?case
  proof (cases "bs = []")
    case True
    then have "ys = acc @ [] \<and> bs = concat (map enc []) \<and> ok_from ok acc []"
      using less.prems loop_Nil by simp
    then show ?thesis by blast
  next
    case False
    then obtain p where "step acc bs = Inr p" "(case p of (x, r) \<Rightarrow> loop r (acc @ [x])) = Inr ys"
      using less.prems loop_step [OF False, of acc] by (auto simp: r_simps)
    then obtain x r where s: "step acc bs = Inr (x, r)" and l: "loop r (acc @ [x]) = Inr ys"
      by (cases p) simp
    have x: "ok acc x" "bs = enc x @ r" using s step_iff by blast+
    have "length r < length bs" unfolding x(2) using enc_nonempty by simp
    then obtain xs where "ys = (acc @ [x]) @ xs" "r = concat (map enc xs)" "ok_from ok (acc @ [x]) xs"
      using less.hyps l by blast
    then have "ys = acc @ (x # xs) \<and> bs = concat (map enc (x # xs)) \<and> ok_from ok acc (x # xs)"
      using x by simp
    then show ?thesis by blast
  qed
qed

lemma loop_iff: "loop bs [] = Inr xs \<longleftrightarrow> bs = concat (map enc xs) \<and> ok_from ok [] xs"
  using loop_enc [of "[]" xs] loop_sound [of bs "[]" xs] by auto

end

section \<open>Canonical codecs\<close>

locale canonical_codec =
  fixes encode :: "'a \<Rightarrow> 'e + bytes"
    and decode :: "bytes \<Rightarrow> 'f + 'a"
  assumes canonical: "decode bs = Inr x \<Longrightarrow> encode x = Inr bs"
begin

lemma decode_inj: "decode bs = Inr x \<Longrightarrow> decode cs = Inr x \<Longrightarrow> bs = cs"
  using canonical [of bs x] canonical [of cs x] by simp

lemma reject_noncanonical: "encode x \<noteq> Inr bs \<Longrightarrow> decode bs \<noteq> Inr x"
  using canonical by blast

end

section \<open>A sample parser\<close>

definition ex_url :: "string \<Rightarrow> Host \<Rightarrow> string \<Rightarrow> Url" where
  "ex_url scheme host s = \<lparr> url_scheme = scheme, url_username = [], url_password = None,
     url_fragment = None, url_host = Some host, url_str = s \<rparr>"

definition ex_parse :: url_parser where
  "ex_parse s =
     (if take 6 s = ''wss://'' then Inr (ex_url ''wss'' (HDomain (drop 6 s)) s)
      else if take 8 s = ''https://'' then Inr (ex_url ''https'' (HDomain (drop 8 s)) s)
      else Inl ''relative URL without a base'')"

section \<open>Trimming and ASCII\<close>

text \<open>
  \<^verbatim>\<open>str::trim\<close> removes the characters with the Unicode property \<^verbatim>\<open>White_Space\<close>;
  \<open>ws_width\<close> is the number of bytes of such a character at the front of a UTF-8 string.
\<close>

definition ws_width :: "string \<Rightarrow> nat" where
  "ws_width s =
     (case as_bytes s of
        b # c # d # _ \<Rightarrow>
          if 9 \<le> b \<and> b \<le> 13 \<or> b = 0x20 then 1
          else if b = 0xC2 \<and> (c = 0x85 \<or> c = 0xA0) then 2
          else if b = 0xE1 \<and> c = 0x9A \<and> d = 0x80
            \<or> b = 0xE2 \<and> c = 0x80 \<and> (0x80 \<le> d \<and> d \<le> 0x8A \<or> d = 0xA8 \<or> d = 0xA9 \<or> d = 0xAF)
            \<or> b = 0xE2 \<and> c = 0x81 \<and> d = 0x9F \<or> b = 0xE3 \<and> c = 0x80 \<and> d = 0x80 then 3 else 0
      | [b, c] \<Rightarrow>
          if 9 \<le> b \<and> b \<le> 13 \<or> b = 0x20 then 1
          else if b = 0xC2 \<and> (c = 0x85 \<or> c = 0xA0) then 2 else 0
      | [b] \<Rightarrow> if 9 \<le> b \<and> b \<le> 13 \<or> b = 0x20 then 1 else 0
      | [] \<Rightarrow> 0)"

definition ws_width_end :: "string \<Rightarrow> nat" where
  "ws_width_end s =
     (if 1 \<le> length s \<and> ws_width (drop (length s - 1) s) = 1 then 1
      else if 2 \<le> length s \<and> ws_width (drop (length s - 2) s) = 2 then 2
      else if 3 \<le> length s \<and> ws_width (drop (length s - 3) s) = 3 then 3 else 0)"

function trim_start :: "string \<Rightarrow> string" where
  "trim_start s = (if s = [] \<or> ws_width s = 0 then s else trim_start (drop (ws_width s) s))"
  by pat_completeness auto

termination
  by (relation "measure length") auto

function trim_end :: "string \<Rightarrow> string" where
  "trim_end s = (if s = [] \<or> ws_width_end s = 0 then s else trim_end (take (length s - ws_width_end s) s))"
  by pat_completeness auto

termination
  by (relation "measure length") auto

declare trim_start.simps [simp del] trim_end.simps [simp del]

definition trim :: "string \<Rightarrow> string" where
  "trim s = trim_end (trim_start s)"

definition no_ws :: "string \<Rightarrow> bool" where
  "no_ws s \<longleftrightarrow> list_all (\<lambda>c. (0x20 :: u8) < of_char c \<and> (of_char c :: u8) < 0x80) s"

lemma u8_gap: "(0x20 :: u8) < x \<Longrightarrow> \<not> x \<le> 13"
  by (simp add: word_less_nat_alt word_le_nat_alt)

lemma ws_width_no_ws: "no_ws s \<Longrightarrow> ws_width s = 0"
  by (auto simp: ws_width_def no_ws_def as_bytes_def dest: u8_gap split: list.splits)

lemma no_ws_drop: "no_ws s \<Longrightarrow> no_ws (drop n s)"
  by (auto simp: no_ws_def list_all_iff dest: in_set_dropD)

lemma trim_no_ws: "no_ws s \<Longrightarrow> trim s = s"
  by (simp add: trim_def trim_start.simps trim_end.simps ws_width_end_def ws_width_no_ws no_ws_drop)

lemma utf8_validate_ascii: "list_all (\<lambda>b. b < 0x80) bs \<Longrightarrow> utf8_validate i bs = Inr ()"
  by (induction bs arbitrary: i) (simp_all add: utf8_step_def utf8_char_width_def)

lemma is_utf8_no_ws: "no_ws s \<Longrightarrow> is_utf8 s"
  unfolding is_utf8_def by (rule utf8_validate_ascii) (auto simp: no_ws_def as_bytes_def list_all_iff)

definition ex_parse_plain :: url_parser where
  "ex_parse_plain s = (if no_ws s then ex_parse s else Inl ''invalid international domain name'')"

lemma ex_parse_plain_stable:
  "ex_parse_plain s = Inr u \<Longrightarrow> ex_parse_plain (url_str u) = Inr u \<and> url_str u \<noteq> [] \<and>
     is_utf8 (url_str u) \<and> trim (url_str u) = url_str u"
  by (auto simp: ex_parse_plain_def ex_parse_def ex_url_def is_utf8_no_ws trim_no_ws split: if_splits)

end
