(* ===== verification/Agent_Text_Stream.thy ===== *)
theory Agent_Text_Stream
  imports Url_Model
begin

text \<open>
  The agent text stream values of \<^verbatim>\<open>crates/traits/src/agent_text_stream.rs\<close>: the group policy
  component, the stream record, the key-derivation context and the running transcript hash.
  SHA-256 belongs to a third-party crate and is the parameter \<open>sha256\<close>.
\<close>

section \<open>Constants\<close>

definition AGENT_TEXT_STREAM_ROLE_RECEIVE :: u8 where "AGENT_TEXT_STREAM_ROLE_RECEIVE = 0x01"
definition AGENT_TEXT_STREAM_ROLE_SEND :: u8 where "AGENT_TEXT_STREAM_ROLE_SEND = 0x02"
definition AGENT_TEXT_STREAM_ROLE_FANOUT :: u8 where "AGENT_TEXT_STREAM_ROLE_FANOUT = 0x04"

definition AGENT_TEXT_STREAM_ROLE_MASK :: u8 where
  "AGENT_TEXT_STREAM_ROLE_MASK =
     AGENT_TEXT_STREAM_ROLE_RECEIVE OR AGENT_TEXT_STREAM_ROLE_SEND OR AGENT_TEXT_STREAM_ROLE_FANOUT"

definition AGENT_TEXT_STREAM_RECORD_TEXT_DELTA :: u8 where "AGENT_TEXT_STREAM_RECORD_TEXT_DELTA = 0x01"
definition AGENT_TEXT_STREAM_RECORD_VERSION :: u8 where "AGENT_TEXT_STREAM_RECORD_VERSION = 0x01"
definition AGENT_TEXT_STREAM_MAX_STREAM_ID_LEN :: nat where "AGENT_TEXT_STREAM_MAX_STREAM_ID_LEN = 64"
definition AGENT_TEXT_STREAM_MAX_PLAINTEXT_FRAME_LEN :: u32 where
  "AGENT_TEXT_STREAM_MAX_PLAINTEXT_FRAME_LEN = 65519"
definition AGENT_TEXT_STREAM_MAX_RECORD_CIPHERTEXT_LEN :: u32 where
  "AGENT_TEXT_STREAM_MAX_RECORD_CIPHERTEXT_LEN = 65535"
definition AGENT_TEXT_STREAM_AEAD_TAG_LEN :: nat where "AGENT_TEXT_STREAM_AEAD_TAG_LEN = 16"
definition AGENT_TEXT_STREAM_MAX_REPLAY_TTL_SECS :: u32 where "AGENT_TEXT_STREAM_MAX_REPLAY_TTL_SECS = 300"
definition AGENT_TEXT_STREAM_MAX_PADDING_BUCKET_BYTES :: u16 where
  "AGENT_TEXT_STREAM_MAX_PADDING_BUCKET_BYTES = 4096"
definition AGENT_TEXT_STREAM_COMPONENT_STATE_LEN :: nat where "AGENT_TEXT_STREAM_COMPONENT_STATE_LEN = 12"

definition AGENT_TEXT_STREAM_KEY_CONTEXT_VERSION :: bytes where
  "AGENT_TEXT_STREAM_KEY_CONTEXT_VERSION = as_bytes ''v1''"
definition AGENT_TEXT_STREAM_TRANSCRIPT_HASH_CONTEXT :: bytes where
  "AGENT_TEXT_STREAM_TRANSCRIPT_HASH_CONTEXT = as_bytes ''marmot agent text stream transcript v1''"

section \<open>The policy component\<close>

record AgentTextStreamQuicPolicyV1 =
  required_member_roles :: u8
  allowed_member_roles :: u8
  max_plaintext_frame_len :: u32
  replay_ttl_secs :: u32
  padding_bucket_bytes :: u16

datatype AgentTextStreamPolicyError =
    EmptyRequiredRoles
  | UnknownRequiredRoleBits u8
  | UnknownAllowedRoleBits u8
  | RequiredRolesNotAllowed
  | EmptyFrameLimit
  | InvalidComponentStateLength nat
  | FrameLimitTooLarge u32
  | ReplayTtlTooLarge u32
  | PaddingBucketTooLarge u16

definition hex_digit :: "nat \<Rightarrow> char" where
  "hex_digit n = (if n < 10 then char_of (48 + n) else char_of (87 + n))"

definition hex_u8 :: "u8 \<Rightarrow> string" where
  "hex_u8 b = ''0x'' @ [hex_digit (unat b div 16), hex_digit (unat b mod 16)]"

definition policy_error_string :: "AgentTextStreamPolicyError \<Rightarrow> string" where
  "policy_error_string e =
     (case e of
        EmptyRequiredRoles \<Rightarrow> ''required agent text stream roles cannot be empty''
      | UnknownRequiredRoleBits b \<Rightarrow>
          ''required agent text stream role mask contains unknown bits: '' @ hex_u8 b
      | UnknownAllowedRoleBits b \<Rightarrow>
          ''allowed agent text stream role mask contains unknown bits: '' @ hex_u8 b
      | RequiredRolesNotAllowed \<Rightarrow> ''required agent text stream roles must be a subset of allowed roles''
      | EmptyFrameLimit \<Rightarrow> ''agent text stream plaintext frame limit cannot be zero''
      | InvalidComponentStateLength n \<Rightarrow>
          ''agent text stream component state must be 12 bytes, got '' @ dec_string n
      | FrameLimitTooLarge n \<Rightarrow>
          ''agent text stream plaintext frame limit exceeds app profile max: '' @ dec_string (unat n)
      | ReplayTtlTooLarge n \<Rightarrow>
          ''agent text stream replay ttl exceeds app profile max: '' @ dec_string (unat n)
      | PaddingBucketTooLarge n \<Rightarrow>
          ''agent text stream padding bucket exceeds app profile max: '' @ dec_string (unat n))"

definition user_to_agent_default :: AgentTextStreamQuicPolicyV1 where
  "user_to_agent_default =
     \<lparr> required_member_roles = AGENT_TEXT_STREAM_ROLE_RECEIVE,
       allowed_member_roles = AGENT_TEXT_STREAM_ROLE_RECEIVE OR AGENT_TEXT_STREAM_ROLE_SEND,
       max_plaintext_frame_len = 4096, replay_ttl_secs = 0, padding_bucket_bytes = 0 \<rparr>"

definition policy_validate :: "AgentTextStreamQuicPolicyV1 \<Rightarrow> AgentTextStreamPolicyError + unit" where
  "policy_validate p =
     (if required_member_roles p = 0 then Inl EmptyRequiredRoles
      else if required_member_roles p AND NOT AGENT_TEXT_STREAM_ROLE_MASK \<noteq> 0
      then Inl (UnknownRequiredRoleBits (required_member_roles p))
      else if allowed_member_roles p AND NOT AGENT_TEXT_STREAM_ROLE_MASK \<noteq> 0
      then Inl (UnknownAllowedRoleBits (allowed_member_roles p))
      else if required_member_roles p AND NOT (allowed_member_roles p) \<noteq> 0 then Inl RequiredRolesNotAllowed
      else if max_plaintext_frame_len p = 0 then Inl EmptyFrameLimit
      else if max_plaintext_frame_len p > AGENT_TEXT_STREAM_MAX_PLAINTEXT_FRAME_LEN
      then Inl (FrameLimitTooLarge (max_plaintext_frame_len p))
      else if replay_ttl_secs p > AGENT_TEXT_STREAM_MAX_REPLAY_TTL_SECS
      then Inl (ReplayTtlTooLarge (replay_ttl_secs p))
      else if padding_bucket_bytes p > AGENT_TEXT_STREAM_MAX_PADDING_BUCKET_BYTES
      then Inl (PaddingBucketTooLarge (padding_bucket_bytes p))
      else Inr ())"

definition encode_component_state :: "AgentTextStreamQuicPolicyV1 \<Rightarrow> AgentTextStreamPolicyError + bytes" where
  "encode_component_state p =
     r_bind (policy_validate p) (\<lambda>_.
       Inr ([required_member_roles p, allowed_member_roles p] @ to_be_bytes 4 (max_plaintext_frame_len p)
              @ to_be_bytes 4 (replay_ttl_secs p) @ to_be_bytes 2 (padding_bucket_bytes p)))"

definition decode_component_state :: "bytes \<Rightarrow> AgentTextStreamPolicyError + AgentTextStreamQuicPolicyV1" where
  "decode_component_state bytes =
     (if length bytes \<noteq> AGENT_TEXT_STREAM_COMPONENT_STATE_LEN
      then Inl (InvalidComponentStateLength (length bytes))
      else (let policy =
              \<lparr> required_member_roles = bytes ! 0, allowed_member_roles = bytes ! 1,
                max_plaintext_frame_len = from_be_bytes (take 4 (drop 2 bytes)),
                replay_ttl_secs = from_be_bytes (take 4 (drop 6 bytes)),
                padding_bucket_bytes = from_be_bytes (take 2 (drop 10 bytes)) \<rparr>
            in r_bind (policy_validate policy) (\<lambda>_. Inr policy)))"

section \<open>Stream records\<close>

record AgentTextStreamRecordV1 =
  rec_stream_id :: bytes
  rec_seq :: u64
  rec_type :: u8
  rec_flags :: u8
  rec_plaintext_frame :: bytes

datatype AgentTextStreamRecordError =
    Truncated string
  | UnsupportedVersion u8
  | TrailingBytes nat
  | LengthDecode string string
  | EmptyStreamId
  | StreamIdTooLong nat
  | UnknownRecordType u8
  | PlaintextFrameTooLarge nat

definition is_known_record_type :: "u8 \<Rightarrow> bool" where
  "is_known_record_type record_type \<longleftrightarrow> record_type \<in> {0x01, 0x02, 0x03, 0x04, 0x05, 0x06}"

definition record_validate :: "AgentTextStreamRecordV1 \<Rightarrow> AgentTextStreamRecordError + unit" where
  "record_validate r =
     (if rec_stream_id r = [] then Inl EmptyStreamId
      else if length (rec_stream_id r) > AGENT_TEXT_STREAM_MAX_STREAM_ID_LEN
      then Inl (StreamIdTooLong (length (rec_stream_id r)))
      else if \<not> is_known_record_type (rec_type r) then Inl (UnknownRecordType (rec_type r))
      else if length (rec_plaintext_frame r) > unat AGENT_TEXT_STREAM_MAX_RECORD_CIPHERTEXT_LEN
      then Inl (PlaintextFrameTooLarge (length (rec_plaintext_frame r)))
      else Inr ())"

definition record_new :: "bytes \<Rightarrow> u64 \<Rightarrow> u8 \<Rightarrow> bytes \<Rightarrow> AgentTextStreamRecordV1" where
  "record_new stream_id seq record_type frame =
     \<lparr> rec_stream_id = stream_id, rec_seq = seq, rec_type = record_type, rec_flags = 0,
       rec_plaintext_frame = frame \<rparr>"

definition text_delta :: "bytes \<Rightarrow> u64 \<Rightarrow> bytes \<Rightarrow> AgentTextStreamRecordV1" where
  "text_delta stream_id seq frame = record_new stream_id seq AGENT_TEXT_STREAM_RECORD_TEXT_DELTA frame"

definition push_len_prefixed :: "bytes \<Rightarrow> bytes" where
  "push_len_prefixed bs = encode_quic_varint (of_nat (length bs)) @ bs"

definition record_encode :: "AgentTextStreamRecordV1 \<Rightarrow> AgentTextStreamRecordError + bytes" where
  "record_encode r =
     r_bind (record_validate r) (\<lambda>_.
       Inr ([AGENT_TEXT_STREAM_RECORD_VERSION]
              @ encode_quic_varint (of_nat (length (rec_stream_id r))) @ rec_stream_id r
              @ to_be_bytes 8 (rec_seq r) @ [rec_type r] @ [rec_flags r]
              @ encode_quic_varint (of_nat (length (rec_plaintext_frame r))) @ rec_plaintext_frame r))"

definition take_exact :: "bytes \<Rightarrow> nat \<Rightarrow> string \<Rightarrow> AgentTextStreamRecordError + (bytes \<times> bytes)" where
  "take_exact bytes len field =
     (if length bytes < len then Inl (Truncated field) else Inr (take len bytes, drop len bytes))"

definition take_len_prefixed :: "bytes \<Rightarrow> string \<Rightarrow> AgentTextStreamRecordError + (bytes \<times> bytes)" where
  "take_len_prefixed bytes field =
     r_bind (r_map_err (LengthDecode field) (decode_quic_varint bytes)) (\<lambda>(len, prefix_len).
       if length bytes < prefix_len then Inl (Truncated field)
       else take_exact (drop prefix_len bytes) (unat len) field)"

definition record_decode :: "bytes \<Rightarrow> AgentTextStreamRecordError + AgentTextStreamRecordV1" where
  "record_decode bytes =
     (case bytes of
        [] \<Rightarrow> Inl (Truncated ''version'')
      | version # rest \<Rightarrow>
          if version \<noteq> AGENT_TEXT_STREAM_RECORD_VERSION then Inl (UnsupportedVersion version)
          else r_bind (take_len_prefixed rest ''stream_id'') (\<lambda>(stream_id, rest).
            r_bind (take_exact rest 8 ''seq'') (\<lambda>(seq_bytes, rest).
            r_bind (take_exact rest 1 ''record_type'') (\<lambda>(record_type_bytes, rest).
            r_bind (take_exact rest 1 ''flags'') (\<lambda>(flags_bytes, rest).
            r_bind (take_len_prefixed rest ''plaintext_frame'') (\<lambda>(plaintext_frame, rest).
              if rest \<noteq> [] then Inl (TrailingBytes (length rest))
              else (let record =
                      \<lparr> rec_stream_id = stream_id, rec_seq = from_be_bytes seq_bytes,
                        rec_type = record_type_bytes ! 0, rec_flags = flags_bytes ! 0,
                        rec_plaintext_frame = plaintext_frame \<rparr>
                    in r_bind (record_validate record) (\<lambda>_. Inr record))))))))"

section \<open>Key context and transcript\<close>

record AgentTextStreamKeyContextV1 =
  kc_group_id :: bytes
  kc_stream_id :: bytes
  kc_mls_epoch :: u64
  kc_sender_id :: bytes
  kc_start_event_id :: bytes

definition key_context_encode :: "AgentTextStreamKeyContextV1 \<Rightarrow> bytes" where
  "key_context_encode c =
     push_len_prefixed AGENT_TEXT_STREAM_KEY_CONTEXT_VERSION
     @ push_len_prefixed (kc_group_id c)
     @ push_len_prefixed (kc_stream_id c)
     @ to_be_bytes 8 (kc_mls_epoch c)
     @ push_len_prefixed (kc_sender_id c)
     @ push_len_prefixed (kc_start_event_id c)"

record AgentTextStreamTranscriptV1 =
  tr_stream_id :: bytes
  tr_start_event_id :: bytes
  tr_hash :: bytes
  tr_chunk_count :: u64

definition hash_len_prefixed :: "bytes \<Rightarrow> bytes" where
  "hash_len_prefixed bs = encode_quic_varint (of_nat (length bs)) @ bs"

definition transcript_new :: "(bytes \<Rightarrow> bytes) \<Rightarrow> bytes \<Rightarrow> bytes \<Rightarrow> AgentTextStreamTranscriptV1" where
  "transcript_new sha256 stream_id start_event_id =
     \<lparr> tr_stream_id = stream_id, tr_start_event_id = start_event_id,
       tr_hash = sha256 (AGENT_TEXT_STREAM_TRANSCRIPT_HASH_CONTEXT
                   @ hash_len_prefixed stream_id @ hash_len_prefixed start_event_id),
       tr_chunk_count = 0 \<rparr>"

definition transcript_append ::
  "(bytes \<Rightarrow> bytes) \<Rightarrow> u64 \<Rightarrow> u8 \<Rightarrow> bytes \<Rightarrow> AgentTextStreamTranscriptV1 \<Rightarrow> AgentTextStreamTranscriptV1" where
  "transcript_append sha256 seq record_type frame t =
     t \<lparr> tr_hash := sha256 (tr_hash t @ to_be_bytes 8 seq @ [record_type] @ frame),
         tr_chunk_count := tr_chunk_count t + 1 \<rparr>"

section \<open>Codec laws\<close>

lemma take_exact_Inr: "take_exact bs n field = Inr (x, r) \<longleftrightarrow> length x = n \<and> bs = x @ r"
  by (auto simp: take_exact_def)

lemma push_len_prefixed_eq: "push_len_prefixed bs = encode_var_bytes bs" "hash_len_prefixed bs = encode_var_bytes bs"
  by (simp_all add: push_len_prefixed_def hash_len_prefixed_def encode_var_bytes_def)

lemma take_len_prefixed_Inr:
  "take_len_prefixed bs field = Inr (x, r) \<longleftrightarrow> length x < 2 ^ 62 \<and> bs = push_len_prefixed x @ r"
proof
  assume "take_len_prefixed bs field = Inr (x, r)"
  then obtain v k where d: "decode_quic_varint bs = Inr (v, k)" and x: "length x = unat v" "drop k bs = x @ r"
    by (auto simp: take_len_prefixed_def r_simps take_exact_Inr)
  note s = decode_quic_varint_sound [OF d]
  have "bs = take k bs @ drop k bs" by (rule append_take_drop_id [symmetric])
  then have "bs = encode_quic_varint v @ x @ r" unfolding s(3) x(2) .
  moreover have "push_len_prefixed x = encode_quic_varint v @ x" unfolding push_len_prefixed_def x(1) by simp
  ultimately have "bs = push_len_prefixed x @ r" by (simp only: append_assoc)
  moreover have "length x < 2 ^ 62" using s(1) unfolding x(1) .
  ultimately show "length x < 2 ^ 62 \<and> bs = push_len_prefixed x @ r" by blast
next
  assume a: "length x < 2 ^ 62 \<and> bs = push_len_prefixed x @ r"
  let ?n = "of_nat (length x) :: u64"
  have n: "unat ?n = length x" using a by (intro unat_of_nat_u64) simp
  then have "decode_quic_varint (encode_quic_varint ?n @ x @ r) = Inr (?n, length (encode_quic_varint ?n))"
    using a by (intro decode_encode_quic_varint) simp
  then show "take_len_prefixed bs field = Inr (x, r)"
    using a n by (simp add: take_len_prefixed_def push_len_prefixed_def take_exact_Inr)
qed

interpretation lp: prefix_codec push_len_prefixed "\<lambda>bs. take_len_prefixed bs field" "\<lambda>x. length x < 2 ^ 62"
  for field
  by unfold_locales (simp_all add: take_len_prefixed_Inr push_len_prefixed_eq encode_var_bytes_nonempty)

definition policy_bytes_of :: "AgentTextStreamQuicPolicyV1 \<Rightarrow> bytes" where
  "policy_bytes_of p = [required_member_roles p, allowed_member_roles p] @ to_be_bytes 4 (max_plaintext_frame_len p)
     @ to_be_bytes 4 (replay_ttl_secs p) @ to_be_bytes 2 (padding_bucket_bytes p)"

lemma encode_component_state_Inr:
  "encode_component_state p = Inr bs \<longleftrightarrow> policy_validate p = Inr () \<and> bs = policy_bytes_of p"
  by (auto simp: encode_component_state_def policy_bytes_of_def r_simps)

lemma list_of_12: "length bs = 12 \<Longrightarrow> bs = [bs ! 0, bs ! 1] @ take 4 (drop 2 bs) @ take 4 (drop 6 bs) @ take 2 (drop 10 bs)"
  by (rule nth_equalityI) (auto simp: nth_append nth_Cons' less_Suc_eq numeral_eq_Suc)

lemma decode_component_state_Inr:
  "decode_component_state bs = Inr p \<longleftrightarrow> policy_validate p = Inr () \<and> bs = policy_bytes_of p"
proof
  assume "decode_component_state bs = Inr p"
  then have len: "length bs = 12" and v: "policy_validate p = Inr ()"
    and p: "p = \<lparr> required_member_roles = bs ! 0, allowed_member_roles = bs ! 1,
                max_plaintext_frame_len = from_be_bytes (take 4 (drop 2 bs)),
                replay_ttl_secs = from_be_bytes (take 4 (drop 6 bs)),
                padding_bucket_bytes = from_be_bytes (take 2 (drop 10 bs)) \<rparr>"
    by (auto simp: decode_component_state_def r_simps AGENT_TEXT_STREAM_COMPONENT_STATE_LEN_def Let_def)
  have "policy_bytes_of p = [bs ! 0, bs ! 1] @ take 4 (drop 2 bs) @ take 4 (drop 6 bs) @ take 2 (drop 10 bs)"
    unfolding policy_bytes_of_def p using len by (simp add: to_be_from_be_bytes)
  then show "policy_validate p = Inr () \<and> bs = policy_bytes_of p" using v list_of_12 [OF len] by simp
next
  assume a: "policy_validate p = Inr () \<and> bs = policy_bytes_of p"
  have len: "length bs = 12" using a by (simp add: policy_bytes_of_def)
  have "bs ! 0 = required_member_roles p" "bs ! 1 = allowed_member_roles p"
      "take 4 (drop 2 bs) = to_be_bytes 4 (max_plaintext_frame_len p)"
      "take 4 (drop 6 bs) = to_be_bytes 4 (replay_ttl_secs p)"
      "take 2 (drop 10 bs) = to_be_bytes 2 (padding_bucket_bytes p)"
    using a by (simp_all add: policy_bytes_of_def)
  moreover have eq: "\<lparr> required_member_roles = required_member_roles p, allowed_member_roles = allowed_member_roles p,
      max_plaintext_frame_len = max_plaintext_frame_len p, replay_ttl_secs = replay_ttl_secs p,
      padding_bucket_bytes = padding_bucket_bytes p \<rparr> = p" by simp
  ultimately have "decode_component_state bs = r_bind (policy_validate p) (\<lambda>_. Inr p)"
    using len by (simp add: decode_component_state_def AGENT_TEXT_STREAM_COMPONENT_STATE_LEN_def
        from_be_to_be_bytes Let_def eq del: r_bind.simps)
  then show "decode_component_state bs = Inr p" using a by simp
qed

interpretation policy_codec: canonical_codec encode_component_state decode_component_state
  by unfold_locales (simp add: encode_component_state_Inr decode_component_state_Inr)

definition record_bytes :: "AgentTextStreamRecordV1 \<Rightarrow> bytes" where
  "record_bytes r = [AGENT_TEXT_STREAM_RECORD_VERSION] @ push_len_prefixed (rec_stream_id r)
     @ to_be_bytes 8 (rec_seq r) @ [rec_type r] @ [rec_flags r] @ push_len_prefixed (rec_plaintext_frame r)"

lemma record_encode_Inr: "record_encode r = Inr bs \<longleftrightarrow> record_validate r = Inr () \<and> bs = record_bytes r"
  by (auto simp: record_encode_def record_bytes_def push_len_prefixed_def r_simps)

lemma record_validate_bounds:
  "record_validate r = Inr () \<Longrightarrow> length (rec_stream_id r) < 2 ^ 62 \<and> length (rec_plaintext_frame r) < 2 ^ 62"
  by (auto simp: record_validate_def AGENT_TEXT_STREAM_MAX_STREAM_ID_LEN_def
      AGENT_TEXT_STREAM_MAX_RECORD_CIPHERTEXT_LEN_def split: if_splits)

lemma length_1_nth: "length xs = Suc 0 \<Longrightarrow> [xs ! 0] = xs"
  by (cases xs) auto

lemma record_decode_sound:
  assumes "record_decode bs = Inr r"
  shows "record_validate r = Inr () \<and> bs = record_bytes r"
proof -
  obtain rest sid r1 sq r2 ty r3 fl r4 fr where
    b: "bs = AGENT_TEXT_STREAM_RECORD_VERSION # rest"
    and d: "take_len_prefixed rest ''stream_id'' = Inr (sid, r1)" "take_exact r1 8 ''seq'' = Inr (sq, r2)"
      "take_exact r2 1 ''record_type'' = Inr (ty, r3)" "take_exact r3 1 ''flags'' = Inr (fl, r4)"
      "take_len_prefixed r4 ''plaintext_frame'' = Inr (fr, [])"
    and v: "record_validate r = Inr ()"
    and r: "r = \<lparr> rec_stream_id = sid, rec_seq = from_be_bytes sq, rec_type = ty ! 0, rec_flags = fl ! 0,
                  rec_plaintext_frame = fr \<rparr>"
    using assms by (auto simp: record_decode_def r_simps Let_def split: list.splits if_splits)
  note e = d [unfolded take_len_prefixed_Inr take_exact_Inr]
  have "to_be_bytes 8 (from_be_bytes sq :: u64) = sq" "[ty ! 0] = ty" "[fl ! 0] = fl"
    using e by (simp_all add: to_be_from_be_bytes length_1_nth del: One_nat_def)
  then have "record_bytes r = bs"
    using e unfolding record_bytes_def r b by simp
  then show ?thesis using v by simp
qed

lemma record_decode_complete:
  assumes "record_validate r = Inr ()"
  shows "record_decode (record_bytes r) = Inr r"
proof -
  note l = record_validate_bounds [OF assms]
  let ?f = "push_len_prefixed (rec_plaintext_frame r)"
  have d: "take_len_prefixed (push_len_prefixed (rec_stream_id r) @ x) f = Inr (rec_stream_id r, x)"
      "take_len_prefixed ?f f = Inr (rec_plaintext_frame r, [])"
      "take_exact (to_be_bytes 8 (rec_seq r) @ x) 8 f = Inr (to_be_bytes 8 (rec_seq r), x)"
      "take_exact (y # x) 1 f = Inr ([y], x)" for x y f
    using l by (simp_all add: take_len_prefixed_Inr take_exact_Inr)
  have eq: "\<lparr> rec_stream_id = rec_stream_id r, rec_seq = rec_seq r, rec_type = rec_type r, rec_flags = rec_flags r,
      rec_plaintext_frame = rec_plaintext_frame r \<rparr> = r" by simp
  show ?thesis
    using assms by (simp add: record_decode_def record_bytes_def d from_be_to_be_bytes Let_def eq del: One_nat_def)
qed

interpretation record_codec: canonical_codec record_encode record_decode
  using record_decode_sound by unfold_locales (simp add: record_encode_Inr)

text \<open>
  C34: The agent text stream codecs are canonical.  A byte string decodes to a policy exactly when
  it is the encoding of that policy, and to a stream record exactly when it is the encoding of
  that record; validation is part of both directions, and nothing else has to be assumed.
\<close>
theorem agent_text_stream_codecs_canonical:
  "(decode_component_state bs = Inr p \<longleftrightarrow> encode_component_state p = Inr bs) \<and>
   (record_decode cs = Inr r \<longleftrightarrow> record_encode r = Inr cs)"
proof -
  have "record_encode r = Inr cs \<Longrightarrow> record_decode cs = Inr r"
    using record_decode_complete by (simp add: record_encode_Inr)
  then show ?thesis
    using record_codec.canonical by (auto simp: decode_component_state_Inr encode_component_state_Inr)
qed

section \<open>Key separation\<close>

definition key_context_ok :: "AgentTextStreamKeyContextV1 \<Rightarrow> bool" where
  "key_context_ok c \<longleftrightarrow> list_all (\<lambda>x. length x < 2 ^ 62)
     [kc_group_id c, kc_stream_id c, kc_sender_id c, kc_start_event_id c]"

text \<open>
  Key contexts are separated.  Two key-derivation contexts with the same encoding agree in
  group, stream, epoch, sender and start event, so no two streams share a derived key by an
  ambiguous context.
\<close>
lemma key_context_injective:
  assumes "key_context_ok c" "key_context_ok d" and "key_context_encode c = key_context_encode d"
  shows "c = (d :: AgentTextStreamKeyContextV1)"
proof -
  let ?v = "AGENT_TEXT_STREAM_KEY_CONTEXT_VERSION"
  have v: "length ?v < 2 ^ 62" by (simp add: AGENT_TEXT_STREAM_KEY_CONTEXT_VERSION_def)
  note ok = assms(1,2) [unfolded key_context_ok_def, simplified]
  note 1 = lp.enc_append_eqD [OF v v assms(3) [unfolded key_context_encode_def], THEN conjunct2]
  have 2: "kc_group_id c = kc_group_id d" "push_len_prefixed (kc_stream_id c) @ to_be_bytes 8 (kc_mls_epoch c)
      @ push_len_prefixed (kc_sender_id c) @ push_len_prefixed (kc_start_event_id c) =
      push_len_prefixed (kc_stream_id d) @ to_be_bytes 8 (kc_mls_epoch d)
      @ push_len_prefixed (kc_sender_id d) @ push_len_prefixed (kc_start_event_id d)"
    using lp.enc_append_eqD [OF _ _ 1] ok by simp_all
  have 3: "kc_stream_id c = kc_stream_id d" "to_be_bytes 8 (kc_mls_epoch c)
      @ push_len_prefixed (kc_sender_id c) @ push_len_prefixed (kc_start_event_id c) =
      to_be_bytes 8 (kc_mls_epoch d) @ push_len_prefixed (kc_sender_id d) @ push_len_prefixed (kc_start_event_id d)"
    using lp.enc_append_eqD [OF _ _ 2(2)] ok by simp_all
  then have 4: "to_be_bytes 8 (kc_mls_epoch c) = to_be_bytes 8 (kc_mls_epoch d)"
      "push_len_prefixed (kc_sender_id c) @ push_len_prefixed (kc_start_event_id c) =
       push_len_prefixed (kc_sender_id d) @ push_len_prefixed (kc_start_event_id d)"
    by simp_all
  have e: "kc_mls_epoch c = kc_mls_epoch d" by (rule to_be_bytes_inj [OF _ 4(1)]) simp
  have 5: "kc_sender_id c = kc_sender_id d"
      "push_len_prefixed (kc_start_event_id c) @ [] = push_len_prefixed (kc_start_event_id d) @ []"
    using lp.enc_append_eqD [OF _ _ 4(2)] ok by simp_all
  have "kc_start_event_id c = kc_start_event_id d" using lp.enc_append_eqD [OF _ _ 5(2)] ok by simp
  then show ?thesis using 2(1) 3(1) 5(1) e by simp
qed

section \<open>Transcripts\<close>

type_synonym chunk = "u64 \<times> u8 \<times> bytes"

definition chunk_input :: "bytes \<Rightarrow> chunk \<Rightarrow> bytes" where
  "chunk_input h c = (case c of (seq, ty, frame) \<Rightarrow> h @ to_be_bytes 8 seq @ [ty] @ frame)"

definition start_input :: "bytes \<Rightarrow> bytes \<Rightarrow> bytes" where
  "start_input sid start = AGENT_TEXT_STREAM_TRANSCRIPT_HASH_CONTEXT @ hash_len_prefixed sid @ hash_len_prefixed start"

definition transcript_of :: "(bytes \<Rightarrow> bytes) \<Rightarrow> bytes \<Rightarrow> bytes \<Rightarrow> chunk list \<Rightarrow> AgentTextStreamTranscriptV1" where
  "transcript_of sha256 sid start log =
     fold (\<lambda>(seq, ty, frame). transcript_append sha256 seq ty frame) log (transcript_new sha256 sid start)"

fun chunk_inputs :: "(bytes \<Rightarrow> bytes) \<Rightarrow> bytes \<Rightarrow> chunk list \<Rightarrow> bytes list" where
  "chunk_inputs sha256 h [] = []"
| "chunk_inputs sha256 h (c # log) = chunk_input h c # chunk_inputs sha256 (sha256 (chunk_input h c)) log"

definition hash_inputs :: "(bytes \<Rightarrow> bytes) \<Rightarrow> bytes \<Rightarrow> bytes \<Rightarrow> chunk list \<Rightarrow> bytes set" where
  "hash_inputs sha256 sid start log =
     set (start_input sid start # chunk_inputs sha256 (sha256 (start_input sid start)) log)"

lemma transcript_hash_snoc:
  "tr_hash (transcript_of sha256 sid start (log @ [c])) =
     sha256 (chunk_input (tr_hash (transcript_of sha256 sid start log)) c)"
  by (cases c) (simp add: transcript_of_def transcript_append_def chunk_input_def)

lemma transcript_hash_Nil: "tr_hash (transcript_of sha256 sid start []) = sha256 (start_input sid start)"
  by (simp add: transcript_of_def transcript_new_def start_input_def)

lemma hash_inputs_snoc:
  "hash_inputs sha256 sid start (log @ [c]) =
     insert (chunk_input (tr_hash (transcript_of sha256 sid start log)) c) (hash_inputs sha256 sid start log)"
proof -
  define run where "run = (\<lambda>h log. fold (\<lambda>c h. sha256 (chunk_input h c)) log h)"
  have r: "tr_hash (transcript_of sha256 sid start log) = run (sha256 (start_input sid start)) log"
    by (induction log rule: rev_induct) (simp_all add: transcript_hash_Nil transcript_hash_snoc run_def)
  have "chunk_inputs sha256 h (log @ [c]) = chunk_inputs sha256 h log @ [chunk_input (run h log) c]" for h
    by (induction log arbitrary: h) (simp_all add: run_def)
  then show ?thesis unfolding hash_inputs_def r by (simp add: insert_commute)
qed

lemma chunk_input_inj:
  assumes "length h = length h'" "chunk_input h c = chunk_input h' c'"
  shows "h = h' \<and> c = c'"
proof -
  obtain s t f s' t' f' where c: "c = (s, t, f)" "c' = (s', t', f')" by (cases c; cases c')
  have "h = h'" "to_be_bytes 8 s = to_be_bytes 8 s'" "t = t'" "f = f'"
    using assms unfolding c chunk_input_def by simp_all
  then show ?thesis using to_be_bytes_inj [of 8 s s'] c by simp
qed

lemma start_input_inj:
  assumes "length sid < 2 ^ 62" "length start < 2 ^ 62" "length sid' < 2 ^ 62" "length start' < 2 ^ 62"
    and "start_input sid start = start_input sid' start'"
  shows "sid = sid' \<and> start = start'"
proof -
  have "encode_component_vectors [sid, start] = encode_component_vectors [sid', start']"
    using assms(5) by (simp add: start_input_def push_len_prefixed_eq encode_component_vectors_eq)
  then have "[sid, start] = [sid', start']" using assms by (intro encode_component_vectors_inj) simp_all
  then show ?thesis by simp
qed

text \<open>
  C35: The transcript hash commits to the stream.  If two transcripts of equally many chunks have
  the same hash, they are of the same stream and start event and hold the same chunks in the
  same order, unless two different inputs that were hashed on the way collide under the
  32-byte hash function.
\<close>
theorem transcript_hash_binding:
  assumes len: "\<And>x. length (sha256 x) = 32"
    and ids: "length sid < 2 ^ 62" "length start < 2 ^ 62" "length sid' < 2 ^ 62" "length start' < 2 ^ 62"
    and logs: "length log = length log'"
    and eq: "tr_hash (transcript_of sha256 sid start log) = tr_hash (transcript_of sha256 sid' start' log')"
  shows "(sid = sid' \<and> start = start' \<and> log = log') \<or>
    (\<exists>x y. x \<in> hash_inputs sha256 sid start log \<and> y \<in> hash_inputs sha256 sid' start' log' \<and> x \<noteq> y \<and> sha256 x = sha256 y)"
  using logs eq
proof (induction log arbitrary: log' rule: rev_induct)
  case Nil
  have "start_input sid start \<in> hash_inputs sha256 sid start []" "start_input sid' start' \<in> hash_inputs sha256 sid' start' []"
    by (simp_all add: hash_inputs_def)
  then show ?case using Nil start_input_inj [OF ids] by (auto simp: transcript_hash_Nil)
next
  case (snoc c log)
  then obtain c' log1 where l: "log' = log1 @ [c']" "length log = length log1"
    by (cases log' rule: rev_cases) auto
  let ?h = "tr_hash (transcript_of sha256 sid start log)" and ?h' = "tr_hash (transcript_of sha256 sid' start' log1)"
  have hl: "length (tr_hash (transcript_of sha256 s t l)) = 32" for s t l
    by (cases l rule: rev_cases) (simp_all only: transcript_hash_Nil transcript_hash_snoc len)
  have s: "sha256 (chunk_input ?h c) = sha256 (chunk_input ?h' c')"
    using snoc.prems(2) by (simp only: l(1) transcript_hash_snoc)
  show ?case
  proof (cases "chunk_input ?h c = chunk_input ?h' c'")
    case True
    have "length ?h = length ?h'" by (simp only: hl)
    from chunk_input_inj [OF this True] have h: "?h = ?h'" and c: "c = c'" by blast+
    from snoc.IH [OF l(2) h] show ?thesis unfolding l(1) hash_inputs_snoc c by blast
  next
    case False
    then show ?thesis using s unfolding l(1) hash_inputs_snoc by blast
  qed
qed

definition ex_sha :: "bytes \<Rightarrow> bytes" where
  "ex_sha x = take 32 (x @ replicate 32 0)"

theorem transcript_hash_binding_witness:
  "tr_hash (transcript_of ex_sha [7] [9] [(1, 1, [65])]) = tr_hash (transcript_of ex_sha [7] [9] [(1, 1, [65])]) \<and>
   (([7 :: u8] = [7] \<and> [9 :: u8] = [9] \<and> [(1, 1, [65])] = [(1 :: u64, 1 :: u8, [65 :: u8])]) \<or>
    (\<exists>x y. x \<in> hash_inputs ex_sha [7] [9] [(1, 1, [65])] \<and> y \<in> hash_inputs ex_sha [7] [9] [(1, 1, [65])] \<and>
       x \<noteq> y \<and> ex_sha x = ex_sha y))"
proof -
  have "length (ex_sha x) = 32" for x by (simp add: ex_sha_def)
  from transcript_hash_binding [of ex_sha "[7]" "[9]" "[7]" "[9]" "[(1, 1, [65])]" "[(1, 1, [65])]", OF this]
  show ?thesis by simp
qed

definition ex_key_context :: AgentTextStreamKeyContextV1 where
  "ex_key_context = \<lparr> kc_group_id = [1], kc_stream_id = [2, 3], kc_mls_epoch = 4, kc_sender_id = [5],
     kc_start_event_id = [6] \<rparr>"

section \<open>Frame limits\<close>

text \<open>
  Frames within a valid policy fit their record.  Under a policy that passes
  \<^const>\<open>policy_validate\<close>, a frame within the plaintext limit, extended by the 16-byte
  authentication tag, always makes a record that encodes, for any stream id of 1 to 64 bytes and
  any known record type.
\<close>
lemma policy_frame_fits_record:
  assumes "policy_validate p = Inr ()"
    and "length plaintext \<le> unat (max_plaintext_frame_len p)"
    and "length ciphertext = length plaintext + AGENT_TEXT_STREAM_AEAD_TAG_LEN"
    and "stream_id \<noteq> []" "length stream_id \<le> AGENT_TEXT_STREAM_MAX_STREAM_ID_LEN"
    and "is_known_record_type record_type"
  shows "\<exists>bs. record_encode (record_new stream_id seq record_type ciphertext) = Inr bs \<and>
    record_decode bs = Inr (record_new stream_id seq record_type ciphertext)"
proof -
  let ?r = "record_new stream_id seq record_type ciphertext"
  have "max_plaintext_frame_len p \<le> 65519"
    using assms(1) by (auto simp: policy_validate_def AGENT_TEXT_STREAM_MAX_PLAINTEXT_FRAME_LEN_def split: if_splits)
  then have "unat (max_plaintext_frame_len p) \<le> 65519" by (simp add: word_le_nat_alt)
  then have "length ciphertext \<le> 65535" using assms(2,3) by (simp add: AGENT_TEXT_STREAM_AEAD_TAG_LEN_def)
  then have "record_validate ?r = Inr ()"
    using assms(4-6) by (simp add: record_validate_def record_new_def AGENT_TEXT_STREAM_MAX_RECORD_CIPHERTEXT_LEN_def)
  then show ?thesis using record_decode_complete record_encode_Inr by blast
qed

end
