(* ===== verification/Engine_Types.thy ===== *)
theory Engine_Types
  imports Agent_Text_Stream Epoch_State
begin

text \<open>
  The vocabulary shared by the engine components: app component ids and sets
  (\<^verbatim>\<open>crates/traits/src/app_components/mod.rs\<close>), capabilities
  (\<^verbatim>\<open>crates/traits/src/capabilities.rs\<close>), errors (\<^verbatim>\<open>crates/traits/src/error.rs\<close>,
  \<^verbatim>\<open>crates/traits/src/storage.rs\<close>), and the view the engine takes of the OpenMLS group and of a
  staged commit: exactly the parts its checks read.
\<close>

section \<open>App components\<close>

type_synonym AppComponentId = u16

definition APP_COMPONENTS_COMPONENT_ID :: AppComponentId where "APP_COMPONENTS_COMPONENT_ID = 0x0001"
definition GROUP_PROFILE_COMPONENT_ID :: AppComponentId where "GROUP_PROFILE_COMPONENT_ID = 0x8001"
definition GROUP_BLOSSOM_IMAGE_COMPONENT_ID :: AppComponentId where "GROUP_BLOSSOM_IMAGE_COMPONENT_ID = 0x8002"
definition GROUP_ADMIN_POLICY_COMPONENT_ID :: AppComponentId where "GROUP_ADMIN_POLICY_COMPONENT_ID = 0x8003"
definition NOSTR_ROUTING_COMPONENT_ID :: AppComponentId where "NOSTR_ROUTING_COMPONENT_ID = 0x8004"
definition GROUP_MESSAGE_RETENTION_COMPONENT_ID :: AppComponentId where
  "GROUP_MESSAGE_RETENTION_COMPONENT_ID = 0x8005"
definition AGENT_TEXT_STREAM_QUIC_COMPONENT_ID :: AppComponentId where
  "AGENT_TEXT_STREAM_QUIC_COMPONENT_ID = 0x8006"
definition GROUP_AVATAR_URL_COMPONENT_ID :: AppComponentId where "GROUP_AVATAR_URL_COMPONENT_ID = 0x8007"
definition GROUP_ENCRYPTED_MEDIA_COMPONENT_ID :: AppComponentId where
  "GROUP_ENCRYPTED_MEDIA_COMPONENT_ID = 0x8008"

lemmas component_ids = APP_COMPONENTS_COMPONENT_ID_def GROUP_PROFILE_COMPONENT_ID_def
  GROUP_BLOSSOM_IMAGE_COMPONENT_ID_def GROUP_ADMIN_POLICY_COMPONENT_ID_def NOSTR_ROUTING_COMPONENT_ID_def
  GROUP_MESSAGE_RETENTION_COMPONENT_ID_def AGENT_TEXT_STREAM_QUIC_COMPONENT_ID_def
  GROUP_AVATAR_URL_COMPONENT_ID_def GROUP_ENCRYPTED_MEDIA_COMPONENT_ID_def

record AppComponentData =
  component_id :: AppComponentId
  component_data :: bytes

type_synonym AppComponentSet = "AppComponentId list"

definition default_group_components :: AppComponentSet where
  "default_group_components = bs_of_list [GROUP_PROFILE_COMPONENT_ID, GROUP_ADMIN_POLICY_COMPONENT_ID]"

definition acs_new :: "AppComponentId list \<Rightarrow> AppComponentSet" where
  "acs_new ids = bs_of_list ids"

definition acs_contains :: "AppComponentSet \<Rightarrow> AppComponentId \<Rightarrow> bool" where
  "acs_contains s i \<longleftrightarrow> i \<in> set s"

definition acs_insert :: "AppComponentId \<Rightarrow> AppComponentSet \<Rightarrow> AppComponentSet" where
  "acs_insert i s = insort_insert i s"

definition acs_missing_from :: "AppComponentSet \<Rightarrow> AppComponentSet \<Rightarrow> AppComponentSet" where
  "acs_missing_from s t = filter (\<lambda>i. i \<notin> set t) s"

definition acs_intersection :: "AppComponentSet \<Rightarrow> AppComponentSet \<Rightarrow> AppComponentSet" where
  "acs_intersection s t = filter (\<lambda>i. i \<in> set t) s"

section \<open>Capabilities\<close>

datatype Capability =
    CapProposal u16
  | CapExtension u16
  | CapAppComponent AppComponentId

type_synonym Feature = string

datatype TransportKind = TNostr | TFips

datatype RequirementLevel = Required | Optional | TransportRequired TransportKind

record CapabilityRequirement =
  cr_requires :: Capability
  cr_level :: RequirementLevel
  cr_description :: string

record GroupCapabilities =
  gc_proposals :: "u16 list"
  gc_extensions :: "u16 list"
  gc_app_components :: AppComponentSet

definition gc_default :: GroupCapabilities where
  "gc_default = \<lparr> gc_proposals = [], gc_extensions = [], gc_app_components = [] \<rparr>"

fun gc_insert :: "Capability \<Rightarrow> GroupCapabilities \<Rightarrow> GroupCapabilities" where
  "gc_insert (CapProposal p) g = g \<lparr> gc_proposals := insort_insert p (gc_proposals g) \<rparr>"
| "gc_insert (CapExtension e) g = g \<lparr> gc_extensions := insort_insert e (gc_extensions g) \<rparr>"
| "gc_insert (CapAppComponent i) g = g \<lparr> gc_app_components := acs_insert i (gc_app_components g) \<rparr>"

fun gc_contains :: "GroupCapabilities \<Rightarrow> Capability \<Rightarrow> bool" where
  "gc_contains g (CapProposal p) = (p \<in> set (gc_proposals g))"
| "gc_contains g (CapExtension e) = (e \<in> set (gc_extensions g))"
| "gc_contains g (CapAppComponent i) = acs_contains (gc_app_components g) i"

definition gc_missing_from :: "GroupCapabilities \<Rightarrow> GroupCapabilities \<Rightarrow> GroupCapabilities" where
  "gc_missing_from g h =
     \<lparr> gc_proposals = filter (\<lambda>p. p \<notin> set (gc_proposals h)) (gc_proposals g),
       gc_extensions = filter (\<lambda>e. e \<notin> set (gc_extensions h)) (gc_extensions g),
       gc_app_components = acs_missing_from (gc_app_components g) (gc_app_components h) \<rparr>"

definition gc_is_empty :: "GroupCapabilities \<Rightarrow> bool" where
  "gc_is_empty g \<longleftrightarrow> gc_proposals g = [] \<and> gc_extensions g = [] \<and> gc_app_components g = []"

datatype FeatureStatus = Available | Upgradeable | Unavailable GroupCapabilities

definition gc_inv :: "GroupCapabilities \<Rightarrow> bool" where
  "gc_inv g \<longleftrightarrow> bs_inv (gc_proposals g) \<and> bs_inv (gc_extensions g) \<and> bs_inv (gc_app_components g)"

lemma gc_inv_insert [simp]: "gc_inv g \<Longrightarrow> gc_inv (gc_insert c g)"
  by (cases c) (simp_all add: gc_inv_def acs_insert_def)

lemma gc_inv_default [simp]: "gc_inv gc_default"
  by (simp add: gc_inv_def gc_default_def)

lemma gc_contains_insert [simp]: "gc_contains (gc_insert c g) d \<longleftrightarrow> c = d \<or> gc_contains g d"
  by (cases c; cases d) (auto simp: acs_contains_def acs_insert_def set_insort_insert)

lemma gc_contains_default [simp]: "\<not> gc_contains gc_default c"
  by (cases c) (simp_all add: gc_default_def acs_contains_def)

lemma gc_contains_fold_insert: "gc_contains (fold gc_insert cs g) d \<longleftrightarrow> d \<in> set cs \<or> gc_contains g d"
  by (induction cs arbitrary: g) auto

lemma gc_inv_fold_insert: "gc_inv g \<Longrightarrow> gc_inv (fold gc_insert cs g)"
  by (induction cs arbitrary: g) auto

lemma gc_missing_from_iff: "gc_contains (gc_missing_from g h) c \<longleftrightarrow> gc_contains g c \<and> \<not> gc_contains h c"
  by (cases c) (auto simp: gc_missing_from_def acs_missing_from_def acs_contains_def)

lemma gc_is_empty_iff: "gc_is_empty g \<longleftrightarrow> (\<forall>c. \<not> gc_contains g c)"
proof
  assume "\<forall>c. \<not> gc_contains g c"
  then have "\<not> gc_contains g (CapProposal p)" "\<not> gc_contains g (CapExtension p)"
      "\<not> gc_contains g (CapAppComponent p)" for p
    by blast+
  then show "gc_is_empty g"
    unfolding gc_is_empty_def acs_contains_def gc_contains.simps using list.set_sel(1) by blast
next
  assume "gc_is_empty g"
  then have "\<not> gc_contains g c" for c by (cases c) (simp_all add: gc_is_empty_def acs_contains_def)
  then show "\<forall>c. \<not> gc_contains g c" by blast
qed

lemma gc_ext:
  assumes "gc_inv g" "gc_inv h" "\<And>c. gc_contains g c \<longleftrightarrow> gc_contains h c"
  shows "g = (h :: GroupCapabilities)"
proof -
  have "set (gc_proposals g) = set (gc_proposals h)" "set (gc_extensions g) = set (gc_extensions h)"
      "set (gc_app_components g) = set (gc_app_components h)"
    using assms(3) [of "CapProposal _"] assms(3) [of "CapExtension _"] assms(3) [of "CapAppComponent _"]
    by (auto simp: acs_contains_def)
  then have "gc_proposals g = gc_proposals h" "gc_extensions g = gc_extensions h"
      "gc_app_components g = gc_app_components h"
    using assms(1,2) bs_ext unfolding gc_inv_def by blast+
  then show ?thesis by simp
qed

section \<open>Errors\<close>

datatype StorageError =
    SNotFound | SAlreadyExists | SSnapshotMissing string | SBusy string | SBackend string | SSerialization string

definition storage_is_transient :: "StorageError \<Rightarrow> bool" where
  "storage_is_transient e = (case e of SBusy _ \<Rightarrow> True | _ \<Rightarrow> False)"

datatype PeelerError =
    PMalformed string | PDecryptFailed | PStaleEpoch EpochId EpochId | PMissingContext string | PWrapFailed string
  | PBackend string

datatype EngineError =
    UnknownGroup GroupId
  | UnknownPending
  | NotAMember GroupId
  | NotGroupAdmin GroupId
  | UnknownMember GroupId MemberId
  | InvalidCredentialIdentity string
  | AdminCannotSelfRemove GroupId
  | AdminDepletion GroupId
  | MissingRequiredCapabilities GroupCapabilities GroupCapabilities
  | UnsupportedCiphersuite u16 u16
  | InvalidAppMessagePayload string
  | InvalidAccountIdentityProof string
  | ForkedEpoch GroupId EpochId EpochId
  | EInvalidTransition InvalidTransition
  | EStorage StorageError
  | EPeeler PeelerError
  | ESerialize string
  | EBackend string
  | EOther string

definition engine_is_transient :: "EngineError \<Rightarrow> bool" where
  "engine_is_transient e = (case e of EStorage s \<Rightarrow> storage_is_transient s | _ \<Rightarrow> False)"

section \<open>The view of an MLS group\<close>

text \<open>
  A member is its leaf index and the identity bytes of its credential, absent when the credential
  is not a basic one.  The dictionary of app data is absent when the group context has no such
  extension.
\<close>

record MlsMember =
  mm_index :: u32
  mm_identity :: "bytes option"

type_synonym AppDataDictionary = "AppComponentId \<rightharpoonup> bytes"

record MlsGroup =
  mg_group_id :: bytes
  mg_required_capabilities :: "(u16 list \<times> u16 list) list"
  mg_app_data :: "AppDataDictionary option"
  mg_members :: "MlsMember list"

datatype Proposal =
    PropAdd | PropUpdate | PropRemove | PropPreSharedKey | PropReInit | PropExternalInit
  | PropGroupContextExtensions | PropSelfRemove | PropAppDataUpdate | PropAppEphemeral | PropCustom

datatype Sender = SenderMember u32 | SenderExternal | SenderNewMember

text \<open>
  Of a leaf node the engine reads the identity of its basic credential, its signature key, its
  extensions of unknown type, its app data dictionary and the extension and proposal types it
  advertises.
\<close>

record LeafNode =
  ln_identity :: "bytes option"
  ln_signature_key :: bytes
  ln_unknown :: "u16 \<rightharpoonup> bytes"
  ln_app_data :: "AppDataDictionary option"
  ln_cap_extensions :: "u16 list"
  ln_cap_proposals :: "u16 list"

record StagedCommit =
  sc_app_data :: "AppDataDictionary option"
  sc_remove_proposals :: "u32 list"
  sc_queued_proposals :: "(Proposal \<times> Sender) list"
  sc_add_leaves :: "LeafNode list"
  sc_update_proposals :: "(LeafNode \<times> Sender) list"
  sc_update_path_leaf :: "LeafNode option"


end
