(* ===== verification/Nostr_Routing.thy ===== *)
theory Nostr_Routing
  imports Url_Model
begin

text \<open>
  The Nostr routing component, after \<^verbatim>\<open>crates/traits/src/app_components/routing.rs\<close>: the routing
  record, its constructor, its validation and its codec.  \<open>parse\<close> is \<^verbatim>\<open>Url::parse\<close>.
\<close>

record NostrRoutingV1 =
  nostr_group_id :: bytes
  relays :: "string list"

section \<open>Validation\<close>

definition validate_nostr_relay_url :: "url_parser \<Rightarrow> string \<Rightarrow> string + unit" where
  "validate_nostr_relay_url parse relay =
     (if relay = [] then Inl ''Nostr relay URL must not be empty''
      else if length relay > 512 then Inl ''Nostr relay URL exceeds 512 bytes''
      else r_bind (r_map_err (\<lambda>e. ''Nostr relay URL is invalid: '' @ e) (parse relay)) (\<lambda>url.
        if \<not> (url_scheme url = ''wss'' \<or> url_scheme url = ''ws'')
        then Inl ''Nostr relay URL scheme must be wss or ws''
        else if url_host url = None then Inl ''Nostr relay URL must include a host''
        else if url_username url \<noteq> [] \<or> url_password url \<noteq> None
        then Inl ''Nostr relay URL must not include credentials''
        else if url_fragment url \<noteq> None then Inl ''Nostr relay URL must not include a fragment''
        else Inr ()))"

fun validate_relay_urls :: "url_parser \<Rightarrow> string list \<Rightarrow> string + unit" where
  "validate_relay_urls parse [] = Inr ()"
| "validate_relay_urls parse (relay # rest) =
     r_bind (validate_nostr_relay_url parse relay) (\<lambda>_. validate_relay_urls parse rest)"

definition validate_nostr_routing :: "url_parser \<Rightarrow> NostrRoutingV1 \<Rightarrow> string + unit" where
  "validate_nostr_routing parse routing =
     (if relays routing = [] then Inl ''Nostr routing component must contain at least one relay''
      else if remdups_adj (sort_key as_bytes (relays routing)) \<noteq> relays routing
      then Inl ''Nostr relay URLs must be sorted and unique''
      else validate_relay_urls parse (relays routing))"

definition NostrRoutingV1_new :: "url_parser \<Rightarrow> bytes \<Rightarrow> string list \<Rightarrow> string + NostrRoutingV1" where
  "NostrRoutingV1_new parse group_id rs =
     (let value = \<lparr> nostr_group_id = group_id, relays = remdups_adj (sort_key as_bytes rs) \<rparr>
      in r_bind (validate_nostr_routing parse value) (\<lambda>_. Inr value))"

section \<open>Codec\<close>

definition relay_entry :: "string \<Rightarrow> bytes" where
  "relay_entry relay = encode_quic_varint (of_nat (length relay)) @ as_bytes relay"

definition encode_nostr_routing_v1 :: "url_parser \<Rightarrow> NostrRoutingV1 \<Rightarrow> string + bytes" where
  "encode_nostr_routing_v1 parse routing =
     r_bind (validate_nostr_routing parse routing) (\<lambda>_.
       let relay_entries = concat (map relay_entry (relays routing))
       in Inr (nostr_group_id routing @ encode_quic_varint (of_nat (length relay_entries)) @ relay_entries))"

definition decode_relay :: "bytes \<Rightarrow> string + (string \<times> bytes)" where
  "decode_relay cursor =
     r_bind (decode_var_bytes cursor 512 ''Nostr relay URL'') (\<lambda>(relay, rest).
       if relay = [] then Inl ''Nostr relay URL must not be empty''
       else r_bind (r_map_err (\<lambda>e. ''Nostr relay URL is not UTF-8: '' @ e) (from_utf8 relay)) (\<lambda>relay.
         Inr (relay, rest)))"

lemma decode_relay_Inr:
  "decode_relay bs = Inr (s, r) \<longleftrightarrow>
     (s \<noteq> [] \<and> length s \<le> 512 \<and> is_utf8 s) \<and> bs = relay_entry s @ r"
proof
  assume "decode_relay bs = Inr (s, r)"
  then obtain x r' where d: "decode_var_bytes bs 512 ''Nostr relay URL'' = Inr (x, r')"
      and x: "x \<noteq> []" "is_utf8 s" "x = as_bytes s" "r = r'"
    by (auto simp: decode_relay_def r_simps from_utf8_Inr)
  note v = vb.dec_sound [OF d]
  then have "bs = relay_entry s @ r" unfolding relay_entry_def encode_var_bytes_def x by simp
  then show "(s \<noteq> [] \<and> length s \<le> 512 \<and> is_utf8 s) \<and> bs = relay_entry s @ r"
    using v x by (auto simp: as_bytes_def)
next
  assume s: "(s \<noteq> [] \<and> length s \<le> 512 \<and> is_utf8 s) \<and> bs = relay_entry s @ r"
  then have "bs = encode_var_bytes (as_bytes s) @ r" by (simp add: relay_entry_def encode_var_bytes_def)
  then have "decode_var_bytes bs 512 ''Nostr relay URL'' = Inr (as_bytes s, r)"
    using s decode_encode_var_bytes [of "as_bytes s" 512] by simp
  moreover have "from_utf8 (as_bytes s) = Inr s" using s by (simp add: from_utf8_Inr)
  ultimately show "decode_relay bs = Inr (s, r)" using s by (auto simp: decode_relay_def as_bytes_def)
qed

lemma relay_entry_nonempty: "relay_entry s \<noteq> []"
  by (simp add: relay_entry_def)

function decode_relays :: "bytes \<Rightarrow> string list \<Rightarrow> string + string list" where
  "decode_relays cursor acc =
     (if cursor = [] then Inr acc
      else case decode_relay cursor of
             Inl e \<Rightarrow> Inl e
           | Inr (relay, rest) \<Rightarrow> decode_relays rest (acc @ [relay]))"
  by pat_completeness auto

termination
  by (relation "measure (\<lambda>(cursor, acc). length cursor)")
    (auto simp: decode_relay_Inr relay_entry_nonempty)

declare decode_relays.simps [simp del]

definition decode_nostr_routing_v1 :: "url_parser \<Rightarrow> bytes \<Rightarrow> string + NostrRoutingV1" where
  "decode_nostr_routing_v1 parse bytes =
     (if length bytes < 32 then Inl ''Nostr routing component is missing nostr_group_id''
      else r_bind (decode_var_bytes (drop 32 bytes) USIZE_MAX ''Nostr relay vector'') (\<lambda>(relay_vector, cursor).
        if cursor \<noteq> [] then Inl ''Nostr routing component has trailing bytes''
        else r_bind (decode_relays relay_vector []) (\<lambda>rs.
          let routing = \<lparr> nostr_group_id = take 32 bytes, relays = rs \<rparr>
          in r_bind (validate_nostr_routing parse routing) (\<lambda>_. Inr routing))))"

section \<open>Laws\<close>

definition relay_ok :: "string list \<Rightarrow> string \<Rightarrow> bool" where
  "relay_ok acc s \<longleftrightarrow> s \<noteq> [] \<and> length s \<le> 512 \<and> is_utf8 s"

interpretation relay_loop: item_loop relay_entry relay_ok "\<lambda>acc. decode_relay" decode_relays
proof
  show "decode_relays [] acc = Inr acc" for acc by (simp add: decode_relays.simps)
  show "decode_relays bs acc = r_bind (decode_relay bs) (\<lambda>(x, r). decode_relays r (acc @ [x]))"
    if "bs \<noteq> []" for bs acc
    using that by (subst decode_relays.simps) (cases "decode_relay bs", auto)
qed (simp_all add: decode_relay_Inr relay_ok_def relay_entry_nonempty)

lemma ok_from_relay_ok: "ok_from relay_ok acc xs \<longleftrightarrow> list_all (\<lambda>s. s \<noteq> [] \<and> length s \<le> 512 \<and> is_utf8 s) xs"
  by (induction xs arbitrary: acc) (simp_all add: relay_ok_def)

lemma validate_nostr_relay_url_Inr:
  "validate_nostr_relay_url parse s = Inr u \<Longrightarrow> s \<noteq> [] \<and> length s \<le> 512"
  by (simp add: validate_nostr_relay_url_def split: if_splits)

lemma validate_relay_urls_Inr:
  "validate_relay_urls parse rs = Inr u \<longleftrightarrow> list_all (\<lambda>s. validate_nostr_relay_url parse s = Inr ()) rs"
  by (induction rs) (auto simp: r_simps)

lemma validate_nostr_routing_relays:
  "validate_nostr_routing parse r = Inr u \<Longrightarrow> list_all (\<lambda>s. s \<noteq> [] \<and> length s \<le> 512) (relays r)"
  by (auto simp: validate_nostr_routing_def r_simps validate_relay_urls_Inr list_all_iff
      dest: validate_nostr_relay_url_Inr)

definition routing_encodable :: "NostrRoutingV1 \<Rightarrow> bool" where
  "routing_encodable r \<longleftrightarrow> length (nostr_group_id r) = 32 \<and> list_all is_utf8 (relays r)
     \<and> length (concat (map relay_entry (relays r))) < 2 ^ 62"

lemma encode_nostr_routing_v1_Inr:
  "encode_nostr_routing_v1 parse r = Inr bs \<longleftrightarrow> validate_nostr_routing parse r = Inr () \<and>
     bs = nostr_group_id r @ encode_var_bytes (concat (map relay_entry (relays r)))"
  by (auto simp: encode_nostr_routing_v1_def r_simps encode_var_bytes_def Let_def)

lemma decode_nostr_routing_v1_Inr:
  "decode_nostr_routing_v1 parse bs = Inr r \<longleftrightarrow> 32 \<le> length bs \<and> nostr_group_id r = take 32 bs \<and>
     decode_var_bytes (drop 32 bs) USIZE_MAX ''Nostr relay vector'' = Inr (concat (map relay_entry (relays r)), []) \<and>
     ok_from relay_ok [] (relays r) \<and> validate_nostr_routing parse r = Inr ()"
  (is "?l \<longleftrightarrow> ?r")
proof
  assume ?l
  then show ?r
    by (auto simp: decode_nostr_routing_v1_def r_simps relay_loop.loop_iff Let_def split: if_splits)
next
  assume r: ?r
  then have "decode_relays (concat (map relay_entry (relays r))) [] = Inr (relays r)"
    by (simp add: relay_loop.loop_iff)
  moreover have eq: "\<lparr> nostr_group_id = take 32 bs, relays = relays r \<rparr> = r" using r by simp
  ultimately show ?l using r by (simp add: decode_nostr_routing_v1_def Let_def eq)
qed

lemma decode_nostr_routing_sound:
  assumes "decode_nostr_routing_v1 parse bs = Inr r"
  shows "encode_nostr_routing_v1 parse r = Inr bs" "routing_encodable r"
proof -
  note d = assms [unfolded decode_nostr_routing_v1_Inr]
  then have v: "length (concat (map relay_entry (relays r))) < 2 ^ 62"
      "drop 32 bs = encode_var_bytes (concat (map relay_entry (relays r)))"
    using vb.dec_sound by fastforce+
  have "bs = take 32 bs @ drop 32 bs" by (rule append_take_drop_id [symmetric])
  then have "bs = nostr_group_id r @ encode_var_bytes (concat (map relay_entry (relays r)))"
    unfolding v(2) using d by simp
  then show "encode_nostr_routing_v1 parse r = Inr bs"
    using d by (simp add: encode_nostr_routing_v1_Inr)
  show "routing_encodable r"
    using d v(1) by (simp add: routing_encodable_def ok_from_relay_ok list_all_iff)
qed

lemma decode_encode_nostr_routing:
  assumes a: "encode_nostr_routing_v1 parse r = Inr bs" "routing_encodable r"
  shows "decode_nostr_routing_v1 parse bs = Inr r"
proof -
  let ?e = "concat (map relay_entry (relays r))"
  have b: "bs = nostr_group_id r @ encode_var_bytes ?e" and val: "validate_nostr_routing parse r = Inr ()"
    and g: "length (nostr_group_id r) = 32" and len: "length ?e < 2 ^ 62" and u: "list_all is_utf8 (relays r)"
    using a by (auto simp: encode_nostr_routing_v1_Inr routing_encodable_def)
  have "length ?e \<le> USIZE_MAX" using len by (simp add: USIZE_MAX_def)
  then have "decode_var_bytes (encode_var_bytes ?e @ []) USIZE_MAX ''Nostr relay vector'' = Inr (?e, [])"
    using len by (rule decode_encode_var_bytes)
  moreover have "ok_from relay_ok [] (relays r)"
    using validate_nostr_routing_relays [OF val] u by (simp add: ok_from_relay_ok list_all_iff)
  ultimately show ?thesis
    using b g val by (simp add: decode_nostr_routing_v1_Inr)
qed

interpretation routing_codec: canonical_codec "encode_nostr_routing_v1 parse" "decode_nostr_routing_v1 parse"
  for parse
  by unfold_locales (rule decode_nostr_routing_sound)

text \<open>
  C30: The routing codec is canonical.  For every URL parser, \<^const>\<open>decode_nostr_routing_v1\<close>
  accepts a byte string with the record \<open>r\<close> exactly when \<^const>\<open>encode_nostr_routing_v1\<close> produces
  that byte string from \<open>r\<close>, for records with a 32-byte group id, UTF-8 relay strings and a
  relay vector within the range of a varint: every encoding reads back, and no byte string but
  the encoding is accepted for a record.
\<close>
theorem nostr_routing_canonical:
  "decode_nostr_routing_v1 parse bs = Inr r \<longleftrightarrow>
     encode_nostr_routing_v1 parse r = Inr bs \<and> routing_encodable r"
  using routing_codec.canonical decode_nostr_routing_sound(2) decode_encode_nostr_routing by blast

section \<open>The constructor\<close>

lemma distinct_remdups_adj_sorted: "sorted xs \<Longrightarrow> distinct (remdups_adj xs)"
  by (induction xs rule: remdups_adj.induct) auto

lemma sort_key_dedup:
  fixes f :: "'a \<Rightarrow> 'b::linorder"
  assumes "inj f"
  shows "map f (remdups_adj (sort_key f xs)) = sorted_list_of_set (f ` set xs)"
proof -
  have m: "map f (sort_key f xs) = sort (map f xs)"
    by (rule sym, rule properties_for_sort) simp_all
  have "map f (remdups_adj (sort_key f xs)) = remdups_adj (sort (map f xs))"
    unfolding m [symmetric] by (rule remdups_adj_map_injective [symmetric]) (rule assms)
  also have "\<dots> = sorted_list_of_set (set (map f xs))"
    by (rule sorted_distinct_set_unique)
      (simp_all add: sorted_remdups_adj distinct_remdups_adj_sorted)
  finally show ?thesis by simp
qed

lemma inj_as_bytes: "inj as_bytes"
  by (rule injI) simp

text \<open>
  The constructor normalises the relay list.  \<^const>\<open>NostrRoutingV1_new\<close> gives the same
  outcome for two relay lists with the same members, whatever their order and repetitions, and
  a record it returns is accepted by \<^const>\<open>encode_nostr_routing_v1\<close> and has exactly those members.
\<close>
lemma nostr_routing_new_normalises:
  assumes "set rs = set rs'"
  shows "NostrRoutingV1_new parse g rs = NostrRoutingV1_new parse g rs' \<and>
    (\<forall>r. NostrRoutingV1_new parse g rs = Inr r \<longrightarrow>
       set (relays r) = set rs \<and> distinct (relays r) \<and> (\<exists>bs. encode_nostr_routing_v1 parse r = Inr bs))"
proof -
  have norm: "map as_bytes (remdups_adj (sort_key as_bytes rs)) = map as_bytes (remdups_adj (sort_key as_bytes rs'))"
    by (simp only: sort_key_dedup [OF inj_as_bytes] assms)
  have "remdups_adj (sort_key as_bytes rs) = remdups_adj (sort_key as_bytes rs')"
    by (rule map_injective [OF norm inj_as_bytes])
  then have "NostrRoutingV1_new parse g rs = NostrRoutingV1_new parse g rs'"
    by (simp add: NostrRoutingV1_new_def)
  moreover have "distinct (map as_bytes (remdups_adj (sort_key as_bytes rs)))"
    unfolding sort_key_dedup [OF inj_as_bytes] by simp
  then have "distinct (remdups_adj (sort_key as_bytes rs))" by (simp add: distinct_map)
  ultimately show ?thesis
    using assms by (auto simp: NostrRoutingV1_new_def Let_def r_simps encode_nostr_routing_v1_def)
qed

end
