(* ===== verification/Avatar_Url.thy ===== *)
theory Avatar_Url
  imports Url_Model
begin

text \<open>
  The group avatar URL component, after \<^verbatim>\<open>crates/traits/src/app_components/avatar_url.rs\<close>.
  \<open>parse\<close> is \<^verbatim>\<open>Url::parse\<close>; the optional hints are opaque bytes that a decoder reads as text
  only when they are UTF-8.
\<close>

definition GROUP_AVATAR_URL_MAX_LEN :: nat where
  "GROUP_AVATAR_URL_MAX_LEN = 2048"

definition GROUP_AVATAR_HINT_MAX_LEN :: nat where
  "GROUP_AVATAR_HINT_MAX_LEN = 256"

record GroupAvatarUrlV1 =
  av_url :: string
  av_dim :: "string option"
  av_thumbhash :: "string option"

section \<open>Validation\<close>

fun avatar_host_check :: "Host \<Rightarrow> string + unit" where
  "avatar_host_check (HDomain domain) =
     (if localhost_domain domain then Inl ''group avatar URL must not point at localhost'' else Inr ())"
| "avatar_host_check (HIpv4 addr) = reject_non_routable_ipv4 addr"
| "avatar_host_check (HIpv6 addr) = reject_non_routable_ipv6 addr"

definition validate_and_normalize_group_avatar_url :: "url_parser \<Rightarrow> string \<Rightarrow> string + string" where
  "validate_and_normalize_group_avatar_url parse raw =
     (if raw = [] then Inl ''group avatar URL must not be empty''
      else if length raw > GROUP_AVATAR_URL_MAX_LEN then Inl ''group avatar URL exceeds 2048 bytes''
      else r_bind (r_map_err (\<lambda>e. ''group avatar URL is invalid: '' @ e) (parse raw)) (\<lambda>url.
        if url_scheme url \<noteq> ''https'' then Inl ''group avatar URL scheme must be https''
        else if url_username url \<noteq> [] \<or> url_password url \<noteq> None
        then Inl ''group avatar URL must not include credentials''
        else if url_fragment url \<noteq> None then Inl ''group avatar URL must not include a fragment''
        else case url_host url of
            None \<Rightarrow> Inl ''group avatar URL must include a host''
          | Some host \<Rightarrow> r_bind (avatar_host_check host) (\<lambda>_.
              if length (url_str url) > GROUP_AVATAR_URL_MAX_LEN
              then Inl ''group avatar URL exceeds 2048 bytes''
              else Inr (url_str url))))"

section \<open>Codec\<close>

definition opt_str :: "string option \<Rightarrow> string" where
  "opt_str s = (case s of None \<Rightarrow> [] | Some x \<Rightarrow> x)"

definition encode_group_avatar_url_v1 :: "url_parser \<Rightarrow> GroupAvatarUrlV1 \<Rightarrow> string + bytes" where
  "encode_group_avatar_url_v1 parse avatar =
     (if av_url avatar = [] \<and> (av_dim avatar \<noteq> None \<or> av_thumbhash avatar \<noteq> None)
      then Inl ''group avatar absent state must not include hints''
      else r_bind (if av_url avatar = [] then Inr []
                   else validate_and_normalize_group_avatar_url parse (av_url avatar)) (\<lambda>url.
        let dim = opt_str (av_dim avatar); thumbhash = opt_str (av_thumbhash avatar) in
        if length dim > GROUP_AVATAR_HINT_MAX_LEN then Inl ''group avatar dim exceeds 256 bytes''
        else if length thumbhash > GROUP_AVATAR_HINT_MAX_LEN
        then Inl ''group avatar thumbhash exceeds 256 bytes''
        else Inr (encode_var_bytes (as_bytes url) @ encode_var_bytes (as_bytes dim)
                    @ encode_var_bytes (as_bytes thumbhash))))"

definition decode_hint :: "bytes \<Rightarrow> string option" where
  "decode_hint bs = (if bs = [] then None else case from_utf8 bs of Inl e \<Rightarrow> None | Inr s \<Rightarrow> Some s)"

definition decode_group_avatar_url_v1 :: "url_parser \<Rightarrow> bytes \<Rightarrow> string + GroupAvatarUrlV1" where
  "decode_group_avatar_url_v1 parse bytes =
     r_bind (decode_var_bytes bytes GROUP_AVATAR_URL_MAX_LEN ''group avatar URL'') (\<lambda>(url, cursor).
     r_bind (decode_var_bytes cursor GROUP_AVATAR_HINT_MAX_LEN ''group avatar dim'') (\<lambda>(dim, cursor).
     r_bind (decode_var_bytes cursor GROUP_AVATAR_HINT_MAX_LEN ''group avatar thumbhash'') (\<lambda>(thumbhash, cursor).
       if cursor \<noteq> [] then Inl ''group avatar component has trailing bytes''
       else r_bind (r_map_err (\<lambda>e. ''group avatar URL is not UTF-8: '' @ e) (from_utf8 url)) (\<lambda>url.
         if url = [] \<and> (dim \<noteq> [] \<or> thumbhash \<noteq> [])
         then Inl ''group avatar absent state must not include hints''
         else r_bind (if url = [] then Inr ()
                      else r_bind (validate_and_normalize_group_avatar_url parse url) (\<lambda>normalized.
                        if normalized \<noteq> url then Inl ''group avatar URL is not normalized'' else Inr ())) (\<lambda>_.
           Inr \<lparr> av_url = url, av_dim = decode_hint dim, av_thumbhash = decode_hint thumbhash \<rparr>)))))"

section \<open>Laws\<close>

lemma validate_avatar_url_Inr:
  "validate_and_normalize_group_avatar_url parse raw = Inr s \<longleftrightarrow>
     raw \<noteq> [] \<and> length raw \<le> 2048 \<and> length s \<le> 2048 \<and>
     (\<exists>u h. parse raw = Inr u \<and> url_scheme u = ''https'' \<and> url_username u = [] \<and> url_password u = None \<and>
        url_fragment u = None \<and> url_host u = Some h \<and> avatar_host_check h = Inr () \<and> url_str u = s)"
  by (auto simp: validate_and_normalize_group_avatar_url_def r_simps GROUP_AVATAR_URL_MAX_LEN_def
      split: option.splits)

lemma avatar_host_check_safe: "avatar_host_check h = Inr () \<Longrightarrow> spec_safe_host h \<or> trailing_dot_localhost h"
proof (cases h)
  case (HDomain d)
  assume "avatar_host_check h = Inr ()"
  then show ?thesis using HDomain not_localhost_domain [of d] by (auto split: if_splits)
qed (auto simp: reject_non_routable_ipv4_def reject_non_routable_ipv6_def is_public_ipv4_spec is_public_ipv6_spec
    split: if_splits)

definition avatar_bytes :: "string \<Rightarrow> bytes \<Rightarrow> bytes \<Rightarrow> bytes" where
  "avatar_bytes url dim th = encode_var_bytes (as_bytes url) @ encode_var_bytes dim @ encode_var_bytes th"

lemma encode_avatar_Inr:
  "encode_group_avatar_url_v1 parse a = Inr bs \<longleftrightarrow>
     (\<exists>url. bs = avatar_bytes url (as_bytes (opt_str (av_dim a))) (as_bytes (opt_str (av_thumbhash a))) \<and>
        length (opt_str (av_dim a)) \<le> 256 \<and> length (opt_str (av_thumbhash a)) \<le> 256 \<and>
        (if av_url a = [] then url = [] \<and> av_dim a = None \<and> av_thumbhash a = None
         else validate_and_normalize_group_avatar_url parse (av_url a) = Inr url))"
  by (auto simp: encode_group_avatar_url_v1_def r_simps avatar_bytes_def GROUP_AVATAR_HINT_MAX_LEN_def Let_def)

definition avatar_stored :: "url_parser \<Rightarrow> GroupAvatarUrlV1 \<Rightarrow> bytes \<Rightarrow> bytes \<Rightarrow> bool" where
  "avatar_stored parse a dim th \<longleftrightarrow> length (av_url a) \<le> 2048 \<and> is_utf8 (av_url a) \<and>
     length dim \<le> 256 \<and> length th \<le> 256 \<and> av_dim a = decode_hint dim \<and> av_thumbhash a = decode_hint th \<and>
     (if av_url a = [] then dim = [] \<and> th = []
      else validate_and_normalize_group_avatar_url parse (av_url a) = Inr (av_url a))"

lemma decode_avatar_sound:
  assumes "decode_group_avatar_url_v1 parse bs = Inr a"
  obtains dim th where "bs = avatar_bytes (av_url a) dim th" "avatar_stored parse a dim th"
proof -
  obtain url c1 dim c2 th where
    d: "decode_var_bytes bs 2048 ''group avatar URL'' = Inr (url, c1)"
      "decode_var_bytes c1 256 ''group avatar dim'' = Inr (dim, c2)"
      "decode_var_bytes c2 256 ''group avatar thumbhash'' = Inr (th, [])"
    and u: "from_utf8 url = Inr (av_url a)" "av_dim a = decode_hint dim" "av_thumbhash a = decode_hint th"
      "if av_url a = [] then dim = [] \<and> th = []
       else validate_and_normalize_group_avatar_url parse (av_url a) = Inr (av_url a)"
    using assms
    by (auto simp: decode_group_avatar_url_v1_def r_simps GROUP_AVATAR_URL_MAX_LEN_def
        GROUP_AVATAR_HINT_MAX_LEN_def split: if_splits)
  note v = d [THEN vb.dec_sound]
  have url: "is_utf8 (av_url a)" "url = as_bytes (av_url a)" using u(1) by (simp_all add: from_utf8_Inr)
  have "bs = avatar_bytes (av_url a) dim th" using v unfolding avatar_bytes_def url(2) by simp
  moreover have "avatar_stored parse a dim th" using v u url unfolding avatar_stored_def by simp
  ultimately show ?thesis by (rule that)
qed

lemma decode_avatar_complete:
  assumes "avatar_stored parse a dim th"
  shows "decode_group_avatar_url_v1 parse (avatar_bytes (av_url a) dim th) = Inr a"
proof -
  have "decode_var_bytes (encode_var_bytes (as_bytes (av_url a)) @ r) 2048 l = Inr (as_bytes (av_url a), r)"
      "decode_var_bytes (encode_var_bytes dim @ r) 256 l = Inr (dim, r)"
      "decode_var_bytes (encode_var_bytes th @ r) 256 l = Inr (th, r)" for r l
    using assms by (auto simp: avatar_stored_def intro: decode_encode_var_bytes)
  from this(1,2) this(3) [of "[]"] show ?thesis
    using assms from_utf8_Inr [of "as_bytes (av_url a)" "av_url a"]
    by (auto simp: decode_group_avatar_url_v1_def avatar_bytes_def avatar_stored_def
        GROUP_AVATAR_URL_MAX_LEN_def GROUP_AVATAR_HINT_MAX_LEN_def r_simps)
qed

lemma decode_hint_utf8: "is_utf8 s \<Longrightarrow> decode_hint (as_bytes s) = (if s = [] then None else Some s)"
  using from_utf8_Inr [of "as_bytes s" s] by (simp add: decode_hint_def as_bytes_def)

lemma decode_hint_len: "length bs \<le> n \<Longrightarrow> length (opt_str (decode_hint bs)) \<le> n"
  by (auto simp: decode_hint_def opt_str_def from_utf8_Inr split: sum.splits)

lemma decode_hint_Some: "decode_hint bs = Some s \<Longrightarrow> is_utf8 s \<and> s \<noteq> [] \<and> bs = as_bytes s"
  by (auto simp: decode_hint_def from_utf8_Inr as_bytes_def split: if_splits sum.splits)

lemma hint_Nil [simp]: "opt_str None = []" "opt_str (Some s) = s" "decode_hint [] = None" "as_bytes [] = []"
  by (simp_all add: opt_str_def decode_hint_def as_bytes_def)

lemma decode_hint_reencode:
  "decode_hint (as_bytes (opt_str (decode_hint bs))) = decode_hint bs"
  by (cases "decode_hint bs") (auto dest: decode_hint_Some simp: decode_hint_utf8)

lemma decode_hint_lossless: "bs = [] \<or> decode_hint bs \<noteq> None \<Longrightarrow> as_bytes (opt_str (decode_hint bs)) = bs"
  by (auto dest: decode_hint_Some)

lemma avatar_stored_reencode:
  assumes "avatar_stored parse a dim th"
  shows "encode_group_avatar_url_v1 parse a =
      Inr (avatar_bytes (av_url a) (as_bytes (opt_str (av_dim a))) (as_bytes (opt_str (av_thumbhash a))))"
    and "avatar_stored parse a (as_bytes (opt_str (av_dim a))) (as_bytes (opt_str (av_thumbhash a)))"
proof -
  have h: "av_dim a = decode_hint dim" "av_thumbhash a = decode_hint th" using assms by (simp_all add: avatar_stored_def)
  have e: "av_dim a = None \<and> av_thumbhash a = None" if "av_url a = []"
    using assms that by (simp add: avatar_stored_def decode_hint_def)
  show "encode_group_avatar_url_v1 parse a =
      Inr (avatar_bytes (av_url a) (as_bytes (opt_str (av_dim a))) (as_bytes (opt_str (av_thumbhash a))))"
    using assms e by (auto simp: encode_avatar_Inr avatar_stored_def decode_hint_len)
  show "avatar_stored parse a (as_bytes (opt_str (av_dim a))) (as_bytes (opt_str (av_thumbhash a)))"
    using assms e unfolding avatar_stored_def h
    by (auto simp: decode_hint_reencode decode_hint_len)
qed

text \<open>
  C31: A stored avatar URL is safe to fetch.  Whenever \<^const>\<open>decode_group_avatar_url_v1\<close> accepts
  a component with a present URL, that URL parses as \<^verbatim>\<open>https\<close> without credentials and without a
  fragment, is its own normalized form, and its host is outside the unsafe-host set of
  \<^verbatim>\<open>spec/foundation/host-safety.md\<close> (the listed address ranges, and names whose final label is
  \<^verbatim>\<open>localhost\<close>), with one exception: a \<^verbatim>\<open>localhost\<close> name written with a trailing root dot, which the
  code's test does not recognise.
\<close>
theorem avatar_url_host_safe:
  assumes "decode_group_avatar_url_v1 parse bs = Inr a" and "av_url a \<noteq> []"
  shows "\<exists>u h. parse (av_url a) = Inr u \<and> url_scheme u = ''https'' \<and> url_username u = [] \<and>
    url_password u = None \<and> url_fragment u = None \<and> url_str u = av_url a \<and>
    url_host u = Some h \<and> (spec_safe_host h \<or> trailing_dot_localhost h)"
proof -
  obtain dim th where "avatar_stored parse a dim th" using assms(1) by (rule decode_avatar_sound)
  then have "validate_and_normalize_group_avatar_url parse (av_url a) = Inr (av_url a)"
    using assms(2) by (simp add: avatar_stored_def)
  then show ?thesis unfolding validate_avatar_url_Inr using avatar_host_check_safe by blast
qed

text \<open>
  Re-encoding a decoded avatar is stable.  A decoded component always encodes again, the
  encoding decodes to the same avatar, and it is byte-identical to the stored component unless
  the decoder dropped a hint that is not UTF-8.
\<close>
lemma avatar_reencode_stable:
  assumes "decode_group_avatar_url_v1 parse bs = Inr a"
  shows "\<exists>cs dim th. encode_group_avatar_url_v1 parse a = Inr cs \<and> decode_group_avatar_url_v1 parse cs = Inr a \<and>
    bs = avatar_bytes (av_url a) dim th \<and>
    (cs = bs \<longleftrightarrow> (dim = [] \<or> av_dim a \<noteq> None) \<and> (th = [] \<or> av_thumbhash a \<noteq> None))"
proof -
  obtain dim th where b: "bs = avatar_bytes (av_url a) dim th" and s: "avatar_stored parse a dim th"
    using assms by (rule decode_avatar_sound)
  have h: "av_dim a = decode_hint dim" "av_thumbhash a = decode_hint th" using s by (simp_all add: avatar_stored_def)
  let ?d = "as_bytes (opt_str (av_dim a))" and ?t = "as_bytes (opt_str (av_thumbhash a))"
  have len: "length dim < 2 ^ 62" "length th < 2 ^ 62" "length ?d < 2 ^ 62" "length ?t < 2 ^ 62"
    using s avatar_stored_reencode(2) [OF s] by (auto simp: avatar_stored_def)
  have "avatar_bytes (av_url a) ?d ?t = bs \<longleftrightarrow> ?d = dim \<and> ?t = th"
  proof
    assume "avatar_bytes (av_url a) ?d ?t = bs"
    then have "encode_component_vectors [?d, ?t] = encode_component_vectors [dim, th]"
      by (simp add: b avatar_bytes_def encode_component_vectors_eq)
    then have "[?d, ?t] = [dim, th]" using len by (intro encode_component_vectors_inj) simp_all
    then show "?d = dim \<and> ?t = th" by simp
  qed (simp add: b)
  moreover have "?d = dim \<longleftrightarrow> dim = [] \<or> av_dim a \<noteq> None" "?t = th \<longleftrightarrow> th = [] \<or> av_thumbhash a \<noteq> None"
    unfolding h using decode_hint_lossless by force+
  ultimately show ?thesis
    using avatar_stored_reencode(1) [OF s] decode_avatar_complete [OF avatar_stored_reencode(2) [OF s]] b by blast
qed

definition norm_hint :: "string option \<Rightarrow> string option" where
  "norm_hint h = (if h = Some [] then None else h)"

text \<open>
  Encoding an avatar and decoding the bytes gives the avatar with its URL normalized (and an
  empty hint read as absent), provided the serialization of a parsed URL is non-empty UTF-8 and
  parses to the same URL, as \<^verbatim>\<open>Url::parse\<close> and \<^verbatim>\<open>Url::as_str\<close> document.
\<close>
lemma avatar_roundtrip:
  assumes stable: "\<And>s u. parse s = Inr u \<Longrightarrow> parse (url_str u) = Inr u \<and> url_str u \<noteq> [] \<and> is_utf8 (url_str u)"
    and enc: "encode_group_avatar_url_v1 parse a = Inr bs"
    and hints: "is_utf8 (opt_str (av_dim a))" "is_utf8 (opt_str (av_thumbhash a))"
  shows "\<exists>url. decode_group_avatar_url_v1 parse bs =
      Inr \<lparr> av_url = url, av_dim = norm_hint (av_dim a), av_thumbhash = norm_hint (av_thumbhash a) \<rparr> \<and>
    (if av_url a = [] then url = [] else validate_and_normalize_group_avatar_url parse (av_url a) = Inr url)"
proof -
  let ?d = "as_bytes (opt_str (av_dim a))" and ?t = "as_bytes (opt_str (av_thumbhash a))"
  obtain url where b: "bs = avatar_bytes url ?d ?t"
    and len: "length (opt_str (av_dim a)) \<le> 256" "length (opt_str (av_thumbhash a)) \<le> 256"
    and u: "if av_url a = [] then url = [] \<and> av_dim a = None \<and> av_thumbhash a = None
            else validate_and_normalize_group_avatar_url parse (av_url a) = Inr url"
    using enc unfolding encode_avatar_Inr by blast
  have norm: "url \<noteq> [] \<and> validate_and_normalize_group_avatar_url parse url = Inr url \<and> is_utf8 url \<and> length url \<le> 2048"
    if "av_url a \<noteq> []"
    using u that stable unfolding validate_avatar_url_Inr by fastforce
  have "is_utf8 []" by (simp add: is_utf8_def)
  moreover have "decode_hint ?d = norm_hint (av_dim a)" "decode_hint ?t = norm_hint (av_thumbhash a)"
    using hints by (cases "av_dim a"; cases "av_thumbhash a"; simp add: decode_hint_utf8 norm_hint_def)+
  ultimately have "avatar_stored parse
      \<lparr> av_url = url, av_dim = norm_hint (av_dim a), av_thumbhash = norm_hint (av_thumbhash a) \<rparr> ?d ?t"
    using u norm len by (auto simp: avatar_stored_def split: if_splits)
  from decode_avatar_complete [OF this] show ?thesis using u unfolding b by (auto split: if_splits)
qed

definition ex_avatar :: GroupAvatarUrlV1 where
  "ex_avatar = \<lparr> av_url = ''https://a'', av_dim = Some ''8x8'', av_thumbhash = None \<rparr>"

definition ex_avatar_bytes :: bytes where
  "ex_avatar_bytes = 9 # as_bytes ''https://a'' @ 3 # as_bytes ''8x8'' @ [0]"

lemma ex_avatar_encode: "encode_group_avatar_url_v1 ex_parse ex_avatar = Inr ex_avatar_bytes"
  by code_simp

lemma ex_avatar_decode: "decode_group_avatar_url_v1 ex_parse ex_avatar_bytes = Inr ex_avatar"
proof -
  have "is_utf8 ''https://a''" "is_utf8 ''8x8''" by code_simp+
  moreover have "validate_and_normalize_group_avatar_url ex_parse ''https://a'' = Inr ''https://a''" by code_simp
  ultimately have "avatar_stored ex_parse ex_avatar (as_bytes ''8x8'') []"
    by (simp add: avatar_stored_def ex_avatar_def decode_hint_utf8)
  moreover have "ex_avatar_bytes = avatar_bytes (av_url ex_avatar) (as_bytes ''8x8'') []" by code_simp
  ultimately show ?thesis using decode_avatar_complete by metis
qed

theorem avatar_url_host_safe_witness:
  "decode_group_avatar_url_v1 ex_parse ex_avatar_bytes = Inr ex_avatar \<and> av_url ex_avatar \<noteq> [] \<and>
   (\<exists>u h. ex_parse (av_url ex_avatar) = Inr u \<and> url_scheme u = ''https'' \<and> url_str u = av_url ex_avatar \<and>
      url_host u = Some h \<and> (spec_safe_host h \<or> trailing_dot_localhost h))"
proof -
  have "av_url ex_avatar \<noteq> []" by (simp add: ex_avatar_def)
  then show ?thesis using avatar_url_host_safe [OF ex_avatar_decode] ex_avatar_decode by blast
qed

end
