(* ===== verification/Encrypted_Media.thy ===== *)
theory Encrypted_Media
  imports Url_Model
begin

text \<open>
  The encrypted-media policy component, after
  \<^verbatim>\<open>crates/traits/src/app_components/encrypted_media.rs\<close>: the producer's normalisation, the
  encoder, and the strict decoder.  \<open>parse\<close> is \<^verbatim>\<open>Url::parse\<close>.
\<close>

section \<open>Constants and data\<close>

definition ENCRYPTED_MEDIA_FORMAT_V1 :: string where
  "ENCRYPTED_MEDIA_FORMAT_V1 = ''encrypted-media-v1''"

definition BLOSSOM_LOCATOR_KIND_V1 :: string where
  "BLOSSOM_LOCATOR_KIND_V1 = ''blossom-v1''"

definition ENCRYPTED_MEDIA_LOCATOR_KIND_MAX_LEN :: nat where
  "ENCRYPTED_MEDIA_LOCATOR_KIND_MAX_LEN = 64"

definition ENCRYPTED_MEDIA_ENDPOINT_URL_MAX_LEN :: nat where
  "ENCRYPTED_MEDIA_ENDPOINT_URL_MAX_LEN = 2048"

definition ENCRYPTED_MEDIA_MAX_LOCATOR_KINDS :: nat where
  "ENCRYPTED_MEDIA_MAX_LOCATOR_KINDS = 16"

definition ENCRYPTED_MEDIA_MAX_BLOB_ENDPOINTS :: nat where
  "ENCRYPTED_MEDIA_MAX_BLOB_ENDPOINTS = 16"

definition ENCRYPTED_MEDIA_LOCATOR_KINDS_VECTOR_MAX_LEN :: nat where
  "ENCRYPTED_MEDIA_LOCATOR_KINDS_VECTOR_MAX_LEN =
     ENCRYPTED_MEDIA_MAX_LOCATOR_KINDS * (ENCRYPTED_MEDIA_LOCATOR_KIND_MAX_LEN + 2)"

definition ENCRYPTED_MEDIA_ENDPOINT_ENTRY_MAX_LEN :: nat where
  "ENCRYPTED_MEDIA_ENDPOINT_ENTRY_MAX_LEN =
     (ENCRYPTED_MEDIA_LOCATOR_KIND_MAX_LEN + 2) + (ENCRYPTED_MEDIA_ENDPOINT_URL_MAX_LEN + 2)"

definition ENCRYPTED_MEDIA_BLOB_ENDPOINTS_VECTOR_MAX_LEN :: nat where
  "ENCRYPTED_MEDIA_BLOB_ENDPOINTS_VECTOR_MAX_LEN =
     ENCRYPTED_MEDIA_MAX_BLOB_ENDPOINTS * (ENCRYPTED_MEDIA_ENDPOINT_ENTRY_MAX_LEN + 2)"

lemmas media_consts = ENCRYPTED_MEDIA_LOCATOR_KIND_MAX_LEN_def ENCRYPTED_MEDIA_ENDPOINT_URL_MAX_LEN_def
  ENCRYPTED_MEDIA_MAX_LOCATOR_KINDS_def ENCRYPTED_MEDIA_MAX_BLOB_ENDPOINTS_def
  ENCRYPTED_MEDIA_LOCATOR_KINDS_VECTOR_MAX_LEN_def ENCRYPTED_MEDIA_ENDPOINT_ENTRY_MAX_LEN_def
  ENCRYPTED_MEDIA_BLOB_ENDPOINTS_VECTOR_MAX_LEN_def

record BlobStoreEndpointV1 =
  locator_kind :: string
  base_url :: string

record EncryptedMediaPolicyV1 =
  media_format :: string
  allowed_locator_kinds :: "string list"
  default_blob_endpoints :: "BlobStoreEndpointV1 list"

section \<open>Locator kinds\<close>

definition kind_char :: "char \<Rightarrow> bool" where
  "kind_char c \<longleftrightarrow> CHR ''a'' \<le> c \<and> c \<le> CHR ''z'' \<or> CHR ''0'' \<le> c \<and> c \<le> CHR ''9'' \<or> c = CHR ''-''"

definition validate_locator_kind :: "string \<Rightarrow> string \<Rightarrow> string + unit" where
  "validate_locator_kind value label =
     (if value = [] then Inl (label @ '' must not be empty'')
      else if length value > ENCRYPTED_MEDIA_LOCATOR_KIND_MAX_LEN then Inl (label @ '' exceeds 64 bytes'')
      else if \<not> list_all kind_char value
      then Inl (label @ '' must contain only lowercase ASCII letters, digits, and '' @ [CHR 0x27] @ ''-'' @ [CHR 0x27])
      else Inr ())"

definition normalize_locator_kind :: "string \<Rightarrow> string \<Rightarrow> string + string" where
  "normalize_locator_kind value label =
     (let value = to_ascii_lowercase (trim value)
      in r_bind (validate_locator_kind value label) (\<lambda>_. Inr value))"

fun normalize_kinds_from :: "string list \<Rightarrow> string \<Rightarrow> string list \<Rightarrow> string + string list" where
  "normalize_kinds_from [] label normalized = Inr normalized"
| "normalize_kinds_from (kind # kinds) label normalized =
     r_bind (normalize_locator_kind kind label) (\<lambda>kind.
       normalize_kinds_from kinds label
         (if kind \<notin> set normalized then normalized @ [kind] else normalized))"

definition normalize_locator_kinds :: "string list \<Rightarrow> string \<Rightarrow> string + string list" where
  "normalize_locator_kinds kinds label = normalize_kinds_from kinds label []"

section \<open>Endpoint URLs\<close>

definition routable_host_check :: "Host \<Rightarrow> string + unit" where
  "routable_host_check host =
     (case host of
        HDomain domain \<Rightarrow>
          if localhost_domain domain then Inl ''encrypted media https endpoint must not point at localhost'' else Inr ()
      | HIpv4 addr \<Rightarrow> r_map_err (\<lambda>_. ''encrypted media endpoint URL must not point at a non-routable address'')
                       (reject_non_routable_ipv4 addr)
      | HIpv6 addr \<Rightarrow> r_map_err (\<lambda>_. ''encrypted media endpoint URL must not point at a non-routable address'')
                       (reject_non_routable_ipv6 addr))"

definition scheme_check :: "string \<Rightarrow> Host \<Rightarrow> bool \<Rightarrow> string + unit" where
  "scheme_check scheme host allow_loopback_http =
     (if scheme = ''https'' then routable_host_check host
      else if scheme = ''http'' \<and> allow_loopback_http \<and> is_loopback_host host then Inr ()
      else if scheme = ''http''
      then Inl ''encrypted media endpoint URL scheme must be https unless loopback http is explicitly allowed''
      else Inl ''encrypted media endpoint URL scheme must be https'')"

definition validate_and_normalize_blob_endpoint_url :: "url_parser \<Rightarrow> string \<Rightarrow> bool \<Rightarrow> string + string" where
  "validate_and_normalize_blob_endpoint_url parse raw allow_loopback_http =
     (let raw = trim raw in
      if raw = [] then Inl ''encrypted media endpoint URL must not be empty''
      else if length raw > ENCRYPTED_MEDIA_ENDPOINT_URL_MAX_LEN
      then Inl ''encrypted media endpoint URL exceeds 2048 bytes''
      else r_bind (r_map_err (\<lambda>e. ''encrypted media endpoint URL is invalid: '' @ e) (parse raw)) (\<lambda>url.
        if url_username url \<noteq> [] \<or> url_password url \<noteq> None
        then Inl ''encrypted media endpoint URL must not include credentials''
        else if url_fragment url \<noteq> None then Inl ''encrypted media endpoint URL must not include a fragment''
        else case url_host url of
            None \<Rightarrow> Inl ''encrypted media endpoint URL must include a host''
          | Some host \<Rightarrow> r_bind (scheme_check (url_scheme url) host allow_loopback_http) (\<lambda>_.
              if length (url_str url) > ENCRYPTED_MEDIA_ENDPOINT_URL_MAX_LEN
              then Inl ''encrypted media endpoint URL exceeds 2048 bytes''
              else Inr (url_str url))))"

definition validate_blob_endpoint_url_is_canonical :: "url_parser \<Rightarrow> string \<Rightarrow> string + unit" where
  "validate_blob_endpoint_url_is_canonical parse url =
     r_bind (validate_and_normalize_blob_endpoint_url parse url True) (\<lambda>normalized.
       if normalized \<noteq> url then Inl ''encrypted media endpoint base URL is not normalized'' else Inr ())"

section \<open>The producer\<close>

definition normalize_endpoint ::
  "url_parser \<Rightarrow> bool \<Rightarrow> string list \<Rightarrow> BlobStoreEndpointV1 \<Rightarrow> string + BlobStoreEndpointV1" where
  "normalize_endpoint parse allow_loopback_http allowed endpoint =
     r_bind (normalize_locator_kind (locator_kind endpoint) ''endpoint locator kind'') (\<lambda>kind.
       if kind \<notin> set allowed then Inl ''encrypted media endpoint locator kind is not allowed''
       else r_bind (validate_and_normalize_blob_endpoint_url parse (base_url endpoint) allow_loopback_http) (\<lambda>url.
         Inr \<lparr> locator_kind = kind, base_url = url \<rparr>))"

fun normalize_endpoints_from ::
  "url_parser \<Rightarrow> bool \<Rightarrow> string list \<Rightarrow> BlobStoreEndpointV1 list \<Rightarrow> BlobStoreEndpointV1 list \<Rightarrow>
   string + BlobStoreEndpointV1 list" where
  "normalize_endpoints_from parse allow allowed [] normalized = Inr normalized"
| "normalize_endpoints_from parse allow allowed (endpoint # endpoints) normalized =
     r_bind (normalize_endpoint parse allow allowed endpoint) (\<lambda>endpoint.
       normalize_endpoints_from parse allow allowed endpoints
         (if endpoint \<notin> set normalized then normalized @ [endpoint] else normalized))"

definition EncryptedMediaPolicyV1_new ::
  "url_parser \<Rightarrow> string \<Rightarrow> string list \<Rightarrow> BlobStoreEndpointV1 list \<Rightarrow> bool \<Rightarrow> string + EncryptedMediaPolicyV1" where
  "EncryptedMediaPolicyV1_new parse format kinds endpoints allow_loopback_http =
     (let format = trim format in
      if format \<noteq> ENCRYPTED_MEDIA_FORMAT_V1 then Inl ''encrypted media format must be encrypted-media-v1''
      else r_bind (normalize_locator_kinds kinds ''allowed locator kind'') (\<lambda>allowed.
        if allowed = [] then Inl ''encrypted media policy must allow at least one locator kind''
        else if length allowed > ENCRYPTED_MEDIA_MAX_LOCATOR_KINDS
        then Inl ''encrypted media policy allows more than 16 locator kinds''
        else r_bind (normalize_endpoints_from parse allow_loopback_http allowed endpoints []) (\<lambda>normalized.
          if normalized = [] then Inl ''encrypted media policy must include at least one default blob endpoint''
          else if length normalized > ENCRYPTED_MEDIA_MAX_BLOB_ENDPOINTS
          then Inl ''encrypted media policy includes more than 16 default blob endpoints''
          else Inr \<lparr> media_format = format, allowed_locator_kinds = allowed, default_blob_endpoints = normalized \<rparr>)))"

definition blossom_default :: "url_parser \<Rightarrow> string list \<Rightarrow> bool \<Rightarrow> string + EncryptedMediaPolicyV1" where
  "blossom_default parse endpoints allow_loopback_http =
     EncryptedMediaPolicyV1_new parse ENCRYPTED_MEDIA_FORMAT_V1 [BLOSSOM_LOCATOR_KIND_V1]
       (map (\<lambda>url. \<lparr> locator_kind = BLOSSOM_LOCATOR_KIND_V1, base_url = url \<rparr>) endpoints) allow_loopback_http"

section \<open>The encoder\<close>

definition kind_entry :: "string \<Rightarrow> bytes" where
  "kind_entry kind = encode_var_bytes (as_bytes kind)"

definition endpoint_entry :: "BlobStoreEndpointV1 \<Rightarrow> bytes" where
  "endpoint_entry endpoint =
     encode_var_bytes (as_bytes (locator_kind endpoint)) @ encode_var_bytes (as_bytes (base_url endpoint))"

definition policy_bytes :: "EncryptedMediaPolicyV1 \<Rightarrow> bytes" where
  "policy_bytes policy =
     encode_component_vectors
       [as_bytes (media_format policy), concat (map kind_entry (allowed_locator_kinds policy)),
        concat (map endpoint_entry (default_blob_endpoints policy))]"

definition encode_encrypted_media_policy_v1 :: "url_parser \<Rightarrow> EncryptedMediaPolicyV1 \<Rightarrow> string + bytes" where
  "encode_encrypted_media_policy_v1 parse policy =
     r_bind (EncryptedMediaPolicyV1_new parse (media_format policy) (allowed_locator_kinds policy)
               (default_blob_endpoints policy) True) (\<lambda>policy. Inr (policy_bytes policy))"

section \<open>The strict decoder\<close>

definition decode_kind :: "string list \<Rightarrow> bytes \<Rightarrow> string + (string \<times> bytes)" where
  "decode_kind seen cursor =
     r_bind (decode_var_bytes cursor ENCRYPTED_MEDIA_LOCATOR_KIND_MAX_LEN ''encrypted media locator kind'') (\<lambda>(kind, rest).
     r_bind (r_map_err (\<lambda>e. ''encrypted media locator kind is not UTF-8: '' @ e) (from_utf8 kind)) (\<lambda>kind.
     r_bind (validate_locator_kind kind ''allowed locator kind'') (\<lambda>_.
       if kind \<in> set seen then Inl ''encrypted media policy has a duplicate allowed locator kind''
       else Inr (kind, rest))))"

definition decode_endpoint ::
  "url_parser \<Rightarrow> string list \<Rightarrow> BlobStoreEndpointV1 list \<Rightarrow> bytes \<Rightarrow> string + (BlobStoreEndpointV1 \<times> bytes)" where
  "decode_endpoint parse allowed seen cursor =
     r_bind (decode_var_bytes cursor ENCRYPTED_MEDIA_LOCATOR_KIND_MAX_LEN
       ''encrypted media endpoint locator kind'') (\<lambda>(kind, cursor).
     r_bind (decode_var_bytes cursor ENCRYPTED_MEDIA_ENDPOINT_URL_MAX_LEN
       ''encrypted media endpoint base URL'') (\<lambda>(url, rest).
     r_bind (r_map_err (\<lambda>e. ''encrypted media endpoint locator kind is not UTF-8: '' @ e) (from_utf8 kind)) (\<lambda>kind.
     r_bind (r_map_err (\<lambda>e. ''encrypted media endpoint base URL is not UTF-8: '' @ e) (from_utf8 url)) (\<lambda>url.
     r_bind (validate_locator_kind kind ''endpoint locator kind'') (\<lambda>_.
       if kind \<notin> set allowed then Inl ''encrypted media endpoint locator kind is not allowed''
       else r_bind (validate_blob_endpoint_url_is_canonical parse url) (\<lambda>_.
         let endpoint = \<lparr> locator_kind = kind, base_url = url \<rparr> in
         if endpoint \<in> set seen then Inl ''encrypted media policy has a duplicate default blob endpoint''
         else Inr (endpoint, rest)))))))"

lemma validate_locator_kind_Inr:
  "validate_locator_kind k label = Inr u \<longleftrightarrow> k \<noteq> [] \<and> length k \<le> 64 \<and> list_all kind_char k"
  by (simp add: validate_locator_kind_def media_consts)

lemma kind_char_bytes: "kind_char c \<Longrightarrow> (0x20 :: u8) < of_char c \<and> (of_char c :: u8) < 0x80"
proof -
  assume "kind_char c"
  then have "(32 :: nat) < of_char c \<and> (of_char c :: nat) < 128"
    by (auto simp: kind_char_def less_eq_char_def)
  then show ?thesis by (simp add: word_less_nat_alt unat_of_char)
qed

lemma no_ws_kind: "list_all kind_char k \<Longrightarrow> no_ws k"
  by (auto simp: no_ws_def list_all_iff kind_char_bytes)

lemma decode_kind_Inr:
  "decode_kind seen bs = Inr (k, r) \<longleftrightarrow>
     (k \<noteq> [] \<and> length k \<le> 64 \<and> list_all kind_char k \<and> k \<notin> set seen) \<and> bs = kind_entry k @ r"
proof
  assume "decode_kind seen bs = Inr (k, r)"
  then obtain x where d: "decode_var_bytes bs 64 ''encrypted media locator kind'' = Inr (x, r)"
      and k: "x = as_bytes k" "k \<noteq> []" "length k \<le> 64" "list_all kind_char k" "k \<notin> set seen"
    by (auto simp: decode_kind_def r_simps from_utf8_Inr validate_locator_kind_Inr
        ENCRYPTED_MEDIA_LOCATOR_KIND_MAX_LEN_def)
  then show "(k \<noteq> [] \<and> length k \<le> 64 \<and> list_all kind_char k \<and> k \<notin> set seen) \<and> bs = kind_entry k @ r"
    using vb.dec_sound [OF d] by (simp add: kind_entry_def)
next
  assume k: "(k \<noteq> [] \<and> length k \<le> 64 \<and> list_all kind_char k \<and> k \<notin> set seen) \<and> bs = kind_entry k @ r"
  then have "decode_var_bytes bs 64 ''encrypted media locator kind'' = Inr (as_bytes k, r)"
    unfolding kind_entry_def using decode_encode_var_bytes [of "as_bytes k" 64] by simp
  moreover have "from_utf8 (as_bytes k) = Inr k" using k by (simp add: from_utf8_Inr is_utf8_no_ws no_ws_kind)
  ultimately show "decode_kind seen bs = Inr (k, r)"
    using k by (auto simp: decode_kind_def r_simps validate_locator_kind_Inr ENCRYPTED_MEDIA_LOCATOR_KIND_MAX_LEN_def)
qed

definition endpoint_ok ::
  "url_parser \<Rightarrow> string list \<Rightarrow> BlobStoreEndpointV1 list \<Rightarrow> BlobStoreEndpointV1 \<Rightarrow> bool" where
  "endpoint_ok parse allowed seen e \<longleftrightarrow>
     locator_kind e \<noteq> [] \<and> length (locator_kind e) \<le> 64 \<and> list_all kind_char (locator_kind e) \<and>
     locator_kind e \<in> set allowed \<and> is_utf8 (base_url e) \<and> length (base_url e) \<le> 2048 \<and>
     validate_and_normalize_blob_endpoint_url parse (base_url e) True = Inr (base_url e) \<and> e \<notin> set seen"

lemma decode_endpoint_Inr:
  "decode_endpoint parse allowed seen bs = Inr (e, r) \<longleftrightarrow>
     endpoint_ok parse allowed seen e \<and> bs = endpoint_entry e @ r"
proof
  assume "decode_endpoint parse allowed seen bs = Inr (e, r)"
  then obtain x y c where d: "decode_var_bytes bs 64 ''encrypted media endpoint locator kind'' = Inr (x, c)"
      "decode_var_bytes c 2048 ''encrypted media endpoint base URL'' = Inr (y, r)"
      and e: "x = as_bytes (locator_kind e)" "y = as_bytes (base_url e)" "is_utf8 (base_url e)"
        "list_all kind_char (locator_kind e)" "locator_kind e \<noteq> []" "locator_kind e \<in> set allowed"
        "validate_and_normalize_blob_endpoint_url parse (base_url e) True = Inr (base_url e)" "e \<notin> set seen"
    by (auto simp: decode_endpoint_def r_simps from_utf8_Inr validate_locator_kind_Inr Let_def
        validate_blob_endpoint_url_is_canonical_def ENCRYPTED_MEDIA_LOCATOR_KIND_MAX_LEN_def
        ENCRYPTED_MEDIA_ENDPOINT_URL_MAX_LEN_def)
  then show "endpoint_ok parse allowed seen e \<and> bs = endpoint_entry e @ r"
    using d [THEN vb.dec_sound] by (simp add: endpoint_ok_def endpoint_entry_def)
next
  assume e: "endpoint_ok parse allowed seen e \<and> bs = endpoint_entry e @ r"
  let ?k = "as_bytes (locator_kind e)" and ?u = "as_bytes (base_url e)"
  have "decode_var_bytes bs 64 ''encrypted media endpoint locator kind'' = Inr (?k, encode_var_bytes ?u @ r)"
    using e decode_encode_var_bytes [of ?k 64] by (simp add: endpoint_entry_def endpoint_ok_def)
  moreover have "decode_var_bytes (encode_var_bytes ?u @ r) 2048 ''encrypted media endpoint base URL'' = Inr (?u, r)"
    using e decode_encode_var_bytes [of ?u 2048] by (simp add: endpoint_ok_def)
  moreover have "from_utf8 ?k = Inr (locator_kind e)" "from_utf8 ?u = Inr (base_url e)"
    using e by (simp_all add: from_utf8_Inr is_utf8_no_ws no_ws_kind endpoint_ok_def)
  moreover have eq: "\<lparr> locator_kind = locator_kind e, base_url = base_url e \<rparr> = e" by simp
  ultimately show "decode_endpoint parse allowed seen bs = Inr (e, r)"
    using e by (auto simp: eq decode_endpoint_def r_simps validate_locator_kind_Inr endpoint_ok_def Let_def
        validate_blob_endpoint_url_is_canonical_def ENCRYPTED_MEDIA_LOCATOR_KIND_MAX_LEN_def
        ENCRYPTED_MEDIA_ENDPOINT_URL_MAX_LEN_def)
qed

lemma entry_nonempty: "kind_entry k \<noteq> []" "endpoint_entry e \<noteq> []"
  by (simp_all add: kind_entry_def endpoint_entry_def encode_var_bytes_nonempty)

function decode_kinds :: "bytes \<Rightarrow> string list \<Rightarrow> string + string list" where
  "decode_kinds cursor acc =
     (if cursor = [] then Inr acc
      else case decode_kind acc cursor of
             Inl e \<Rightarrow> Inl e
           | Inr (kind, rest) \<Rightarrow> decode_kinds rest (acc @ [kind]))"
  by pat_completeness auto

termination
  by (relation "measure (\<lambda>(cursor, acc). length cursor)") (auto simp: decode_kind_Inr entry_nonempty)

function decode_endpoints ::
  "url_parser \<Rightarrow> string list \<Rightarrow> bytes \<Rightarrow> BlobStoreEndpointV1 list \<Rightarrow> string + BlobStoreEndpointV1 list" where
  "decode_endpoints parse allowed cursor acc =
     (if cursor = [] then Inr acc
      else case decode_endpoint parse allowed acc cursor of
             Inl e \<Rightarrow> Inl e
           | Inr (endpoint, rest) \<Rightarrow> decode_endpoints parse allowed rest (acc @ [endpoint]))"
  by pat_completeness auto

termination
  by (relation "measure (\<lambda>(parse, allowed, cursor, acc). length cursor)")
    (auto simp: decode_endpoint_Inr entry_nonempty)

declare decode_kinds.simps [simp del] decode_endpoints.simps [simp del]

definition decode_encrypted_media_policy_v1 :: "url_parser \<Rightarrow> bytes \<Rightarrow> string + EncryptedMediaPolicyV1" where
  "decode_encrypted_media_policy_v1 parse bytes =
     r_bind (decode_var_bytes bytes 64 ''encrypted media format'') (\<lambda>(format, cursor).
     r_bind (decode_var_bytes cursor ENCRYPTED_MEDIA_LOCATOR_KINDS_VECTOR_MAX_LEN
       ''encrypted media locator kinds'') (\<lambda>(allowed_bytes, cursor).
     r_bind (decode_var_bytes cursor ENCRYPTED_MEDIA_BLOB_ENDPOINTS_VECTOR_MAX_LEN
       ''encrypted media default blob endpoints'') (\<lambda>(endpoints_bytes, cursor).
       if cursor \<noteq> [] then Inl ''encrypted media policy has trailing bytes''
       else r_bind (r_map_err (\<lambda>e. ''encrypted media format is not UTF-8: '' @ e) (from_utf8 format)) (\<lambda>format.
         if format \<noteq> ENCRYPTED_MEDIA_FORMAT_V1 then Inl ''encrypted media format must be encrypted-media-v1''
         else r_bind (decode_kinds allowed_bytes []) (\<lambda>allowed.
           if allowed = [] then Inl ''encrypted media policy must allow at least one locator kind''
           else if length allowed > ENCRYPTED_MEDIA_MAX_LOCATOR_KINDS
           then Inl ''encrypted media policy allows more than 16 locator kinds''
           else r_bind (decode_endpoints parse allowed endpoints_bytes []) (\<lambda>endpoints.
             if endpoints = [] then Inl ''encrypted media policy must include at least one default blob endpoint''
             else if length endpoints > ENCRYPTED_MEDIA_MAX_BLOB_ENDPOINTS
             then Inl ''encrypted media policy includes more than 16 default blob endpoints''
             else Inr \<lparr> media_format = format, allowed_locator_kinds = allowed,
                        default_blob_endpoints = endpoints \<rparr>))))))"

section \<open>Laws\<close>

definition kind_ok :: "string list \<Rightarrow> string \<Rightarrow> bool" where
  "kind_ok seen k \<longleftrightarrow> k \<noteq> [] \<and> length k \<le> 64 \<and> list_all kind_char k \<and> k \<notin> set seen"

interpretation kind_loop: item_loop kind_entry kind_ok decode_kind decode_kinds
proof
  show "decode_kinds [] acc = Inr acc" for acc by (simp add: decode_kinds.simps)
  show "decode_kinds bs acc = r_bind (decode_kind acc bs) (\<lambda>(x, r). decode_kinds r (acc @ [x]))"
    if "bs \<noteq> []" for bs acc
    using that by (subst decode_kinds.simps) (cases "decode_kind acc bs", auto)
qed (simp_all add: decode_kind_Inr kind_ok_def entry_nonempty)

interpretation endpoint_loop: item_loop endpoint_entry "endpoint_ok parse allowed"
    "decode_endpoint parse allowed" "decode_endpoints parse allowed"
  for parse allowed
proof
  show "decode_endpoints parse allowed [] acc = Inr acc" for acc by (simp add: decode_endpoints.simps)
  show "decode_endpoints parse allowed bs acc =
      r_bind (decode_endpoint parse allowed acc bs) (\<lambda>(x, r). decode_endpoints parse allowed r (acc @ [x]))"
    if "bs \<noteq> []" for bs acc
    using that by (subst decode_endpoints.simps) (cases "decode_endpoint parse allowed acc bs", auto)
qed (simp_all add: decode_endpoint_Inr entry_nonempty)

text \<open>What the strict decoder accepts: the stored policies, and their bytes only.\<close>

definition policy_stored :: "url_parser \<Rightarrow> EncryptedMediaPolicyV1 \<Rightarrow> bool" where
  "policy_stored parse p \<longleftrightarrow> media_format p = ENCRYPTED_MEDIA_FORMAT_V1 \<and>
     allowed_locator_kinds p \<noteq> [] \<and> length (allowed_locator_kinds p) \<le> 16 \<and>
     ok_from kind_ok [] (allowed_locator_kinds p) \<and>
     default_blob_endpoints p \<noteq> [] \<and> length (default_blob_endpoints p) \<le> 16 \<and>
     ok_from (endpoint_ok parse (allowed_locator_kinds p)) [] (default_blob_endpoints p)"

lemma ok_from_list_all: "ok_from ok acc xs \<Longrightarrow> (\<And>acc x. ok acc x \<Longrightarrow> P x) \<Longrightarrow> list_all P xs"
  by (induction xs arbitrary: acc) auto

lemma decode_policy_sound:
  assumes "decode_encrypted_media_policy_v1 parse bs = Inr p"
  shows "bs = policy_bytes p" "policy_stored parse p"
proof -
  obtain f c1 a c2 e where
    d: "decode_var_bytes bs 64 ''encrypted media format'' = Inr (f, c1)"
      "decode_var_bytes c1 ENCRYPTED_MEDIA_LOCATOR_KINDS_VECTOR_MAX_LEN ''encrypted media locator kinds'' = Inr (a, c2)"
      "decode_var_bytes c2 ENCRYPTED_MEDIA_BLOB_ENDPOINTS_VECTOR_MAX_LEN
         ''encrypted media default blob endpoints'' = Inr (e, [])"
    and p: "from_utf8 f = Inr (media_format p)" "media_format p = ENCRYPTED_MEDIA_FORMAT_V1"
      "decode_kinds a [] = Inr (allowed_locator_kinds p)"
      "decode_endpoints parse (allowed_locator_kinds p) e [] = Inr (default_blob_endpoints p)"
      "allowed_locator_kinds p \<noteq> []" "length (allowed_locator_kinds p) \<le> 16"
      "default_blob_endpoints p \<noteq> []" "length (default_blob_endpoints p) \<le> 16"
    using assms
    by (auto simp: decode_encrypted_media_policy_v1_def r_simps ENCRYPTED_MEDIA_MAX_LOCATOR_KINDS_def
        ENCRYPTED_MEDIA_MAX_BLOB_ENDPOINTS_def)
  have "bs = encode_component_vectors [f, a, e]"
    using d [THEN vb.dec_sound] by (simp add: encode_component_vectors_eq)
  moreover have "f = as_bytes (media_format p)" using p(1) by (simp add: from_utf8_Inr)
  ultimately show "bs = policy_bytes p"
    using p by (simp add: policy_bytes_def kind_loop.loop_iff endpoint_loop.loop_iff)
  show "policy_stored parse p"
    using p by (simp add: policy_stored_def kind_loop.loop_iff endpoint_loop.loop_iff)
qed

text \<open>The decoder's bounds on the nested vectors hold for every stored policy.\<close>

lemma length_encode_var_bytes_le: "length bs < 16384 \<Longrightarrow> length (encode_var_bytes bs) \<le> length bs + 2"
proof -
  assume "length bs < 16384"
  then have "of_nat (length bs) < (16384 :: u64)" by (simp add: word_less_nat_alt unat_of_nat_u64)
  then show ?thesis by (simp add: encode_var_bytes_def encode_quic_varint_def)
qed

lemma length_concat_map_le:
  "list_all (\<lambda>x. length (f x) \<le> n) xs \<Longrightarrow> length (concat (map f xs)) \<le> length xs * n"
  by (induction xs) auto

lemma kinds_vector_bound:
  assumes "ok_from kind_ok [] ks" "length ks \<le> 16"
  shows "length (concat (map kind_entry ks)) \<le> ENCRYPTED_MEDIA_LOCATOR_KINDS_VECTOR_MAX_LEN"
proof -
  have "length (kind_entry k) \<le> 66" if "kind_ok acc k" for acc k
    using length_encode_var_bytes_le [of "as_bytes k"] that by (simp add: kind_entry_def kind_ok_def)
  then have "list_all (\<lambda>k. length (kind_entry k) \<le> 66) ks" using assms(1) by (blast intro: ok_from_list_all)
  then have "length (concat (map kind_entry ks)) \<le> length ks * 66" by (rule length_concat_map_le)
  also have "\<dots> \<le> 16 * 66" using assms(2) by (rule mult_le_mono1)
  finally show ?thesis by (simp add: media_consts)
qed

lemma endpoints_vector_bound:
  assumes "ok_from (endpoint_ok parse allowed) [] es" "length es \<le> 16"
  shows "length (concat (map endpoint_entry es)) \<le> ENCRYPTED_MEDIA_BLOB_ENDPOINTS_VECTOR_MAX_LEN"
proof -
  have "length (endpoint_entry e) \<le> 2116" if "endpoint_ok parse allowed acc e" for acc e
    using length_encode_var_bytes_le [of "as_bytes (locator_kind e)"]
      length_encode_var_bytes_le [of "as_bytes (base_url e)"] that
    by (simp add: endpoint_entry_def endpoint_ok_def)
  then have "list_all (\<lambda>e. length (endpoint_entry e) \<le> 2116) es" using assms(1) by (blast intro: ok_from_list_all)
  then have "length (concat (map endpoint_entry es)) \<le> length es * 2116" by (rule length_concat_map_le)
  also have "\<dots> \<le> 16 * 2116" using assms(2) by (rule mult_le_mono1)
  finally show ?thesis by (simp add: media_consts)
qed

lemma decode_policy_complete:
  assumes "policy_stored parse p"
  shows "decode_encrypted_media_policy_v1 parse (policy_bytes p) = Inr p"
proof -
  let ?f = "as_bytes (media_format p)" and ?a = "concat (map kind_entry (allowed_locator_kinds p))"
    and ?e = "concat (map endpoint_entry (default_blob_endpoints p))"
  note s = assms [unfolded policy_stored_def]
  have f: "length ?f \<le> 64" "length ?f < 2 ^ 62" "from_utf8 ?f = Inr (media_format p)"
    using s by (simp_all add: ENCRYPTED_MEDIA_FORMAT_V1_def from_utf8_Inr is_utf8_no_ws no_ws_def word_less_nat_alt)
  have a: "length ?a \<le> ENCRYPTED_MEDIA_LOCATOR_KINDS_VECTOR_MAX_LEN" "length ?a < 2 ^ 62"
    using s kinds_vector_bound [of "allowed_locator_kinds p"] by (simp_all add: media_consts)
  have e: "length ?e \<le> ENCRYPTED_MEDIA_BLOB_ENDPOINTS_VECTOR_MAX_LEN" "length ?e < 2 ^ 62"
    using s endpoints_vector_bound [of parse "allowed_locator_kinds p" "default_blob_endpoints p"]
    by (simp_all add: media_consts)
  have "decode_kinds ?a [] = Inr (allowed_locator_kinds p)"
      "decode_endpoints parse (allowed_locator_kinds p) ?e [] = Inr (default_blob_endpoints p)"
    using s by (simp_all add: kind_loop.loop_iff endpoint_loop.loop_iff)
  moreover have "decode_var_bytes (policy_bytes p) 64 l = Inr (?f, encode_var_bytes ?a @ encode_var_bytes ?e)" for l
    using decode_encode_var_bytes [OF f(1,2)] by (simp add: policy_bytes_def encode_component_vectors_eq)
  moreover have "decode_var_bytes (encode_var_bytes ?a @ encode_var_bytes ?e)
      ENCRYPTED_MEDIA_LOCATOR_KINDS_VECTOR_MAX_LEN l = Inr (?a, encode_var_bytes ?e)" for l
    by (rule decode_encode_var_bytes [OF a])
  moreover have "decode_var_bytes (encode_var_bytes ?e) ENCRYPTED_MEDIA_BLOB_ENDPOINTS_VECTOR_MAX_LEN l = Inr (?e, [])" for l
    using decode_encode_var_bytes [OF e, of "[]"] by simp
  ultimately show ?thesis
    using s f(3) by (simp add: decode_encrypted_media_policy_v1_def ENCRYPTED_MEDIA_MAX_LOCATOR_KINDS_def
        ENCRYPTED_MEDIA_MAX_BLOB_ENDPOINTS_def)
qed

section \<open>The producer meets the decoder\<close>

lemma lowercase_kind: "list_all kind_char k \<Longrightarrow> to_ascii_lowercase k = k"
  unfolding to_ascii_lowercase_def
  by (induction k) (auto simp: kind_char_def less_eq_char_def)

lemma normalize_locator_kind_Inr:
  "normalize_locator_kind v label = Inr k \<longleftrightarrow>
     k = to_ascii_lowercase (trim v) \<and> k \<noteq> [] \<and> length k \<le> 64 \<and> list_all kind_char k"
  by (auto simp: normalize_locator_kind_def r_simps validate_locator_kind_Inr Let_def)

lemma normalize_kind_stored:
  "k \<noteq> [] \<Longrightarrow> length k \<le> 64 \<Longrightarrow> list_all kind_char k \<Longrightarrow> normalize_locator_kind k label = Inr k"
  by (simp add: normalize_locator_kind_Inr trim_no_ws no_ws_kind lowercase_kind)

lemma normalize_kinds_stored: "ok_from kind_ok acc ks \<Longrightarrow> normalize_kinds_from ks label acc = Inr (acc @ ks)"
  by (induction ks arbitrary: acc) (simp_all add: kind_ok_def normalize_kind_stored)

lemma normalize_kinds_sound:
  "normalize_kinds_from ks label acc = Inr ys \<Longrightarrow> \<exists>xs. ys = acc @ xs \<and> ok_from kind_ok acc xs"
proof (induction ks arbitrary: acc)
  case (Cons k ks)
  then obtain k' where k': "normalize_locator_kind k label = Inr k'"
      "normalize_kinds_from ks label (if k' \<notin> set acc then acc @ [k'] else acc) = Inr ys"
    by (auto simp: r_simps)
  from Cons.IH [OF k'(2)] obtain xs where
    xs: "ys = (if k' \<notin> set acc then acc @ [k'] else acc) @ xs"
      "ok_from kind_ok (if k' \<notin> set acc then acc @ [k'] else acc) xs"
    by blast
  show ?case
  proof (cases "k' \<in> set acc")
    case True
    then show ?thesis using xs by auto
  next
    case False
    then have "ys = acc @ (k' # xs) \<and> ok_from kind_ok acc (k' # xs)"
      using xs k'(1) unfolding normalize_locator_kind_Inr by (auto simp: kind_ok_def)
    then show ?thesis by blast
  qed
qed simp

lemma normalize_endpoint_stored:
  "endpoint_ok parse allowed acc e \<Longrightarrow> normalize_endpoint parse True allowed e = Inr e"
  unfolding normalize_endpoint_def endpoint_ok_def
  by (simp add: normalize_kind_stored [of "locator_kind e"])

lemma normalize_endpoints_stored:
  "ok_from (endpoint_ok parse allowed) acc es \<Longrightarrow>
   normalize_endpoints_from parse True allowed es acc = Inr (acc @ es)"
proof (induction es arbitrary: acc)
  case (Cons e es)
  then have "endpoint_ok parse allowed acc e" by simp
  then have "normalize_endpoint parse True allowed e = Inr e" "e \<notin> set acc"
    using normalize_endpoint_stored by (blast, simp add: endpoint_ok_def)
  then show ?case using Cons by simp
qed simp

lemma policy_stored_new:
  "policy_stored parse p \<Longrightarrow> EncryptedMediaPolicyV1_new parse (media_format p) (allowed_locator_kinds p)
     (default_blob_endpoints p) True = Inr p"
proof -
  assume s: "policy_stored parse p"
  have "trim ENCRYPTED_MEDIA_FORMAT_V1 = ENCRYPTED_MEDIA_FORMAT_V1"
    by (rule trim_no_ws) (simp add: ENCRYPTED_MEDIA_FORMAT_V1_def no_ws_def word_less_nat_alt)
  then show ?thesis
    using s normalize_kinds_stored [of "[]" "allowed_locator_kinds p"]
      normalize_endpoints_stored [of parse "allowed_locator_kinds p" "[]" "default_blob_endpoints p"]
    by (simp add: policy_stored_def EncryptedMediaPolicyV1_new_def normalize_locator_kinds_def
        ENCRYPTED_MEDIA_MAX_LOCATOR_KINDS_def ENCRYPTED_MEDIA_MAX_BLOB_ENDPOINTS_def)
qed

text \<open>
  What the producer relies on of \<^verbatim>\<open>Url::parse\<close>: a serialized URL is UTF-8, has no surrounding
  white space, and parses to the same URL.
\<close>

definition serialization_stable :: "url_parser \<Rightarrow> bool" where
  "serialization_stable parse \<longleftrightarrow>
     (\<forall>s u. parse s = Inr u \<longrightarrow>
        parse (url_str u) = Inr u \<and> url_str u \<noteq> [] \<and> is_utf8 (url_str u) \<and> trim (url_str u) = url_str u)"

lemma validate_blob_url_Inr:
  "validate_and_normalize_blob_endpoint_url parse raw allow = Inr s \<longleftrightarrow>
     trim raw \<noteq> [] \<and> length (trim raw) \<le> 2048 \<and> length s \<le> 2048 \<and>
     (\<exists>u h. parse (trim raw) = Inr u \<and> url_username u = [] \<and> url_password u = None \<and>
        url_fragment u = None \<and> url_host u = Some h \<and> scheme_check (url_scheme u) h allow = Inr () \<and> url_str u = s)"
  by (auto simp: validate_and_normalize_blob_endpoint_url_def r_simps ENCRYPTED_MEDIA_ENDPOINT_URL_MAX_LEN_def
      Let_def split: option.splits)

lemma normalize_endpoints_sound:
  assumes "serialization_stable parse"
  shows "normalize_endpoints_from parse True allowed es acc = Inr ys \<Longrightarrow>
    \<exists>xs. ys = acc @ xs \<and> ok_from (endpoint_ok parse allowed) acc xs"
proof (induction es arbitrary: acc)
  case (Cons e es)
  then obtain e' where e': "normalize_endpoint parse True allowed e = Inr e'"
      "normalize_endpoints_from parse True allowed es (if e' \<notin> set acc then acc @ [e'] else acc) = Inr ys"
    by (auto simp: r_simps)
  from Cons.IH [OF e'(2)] obtain xs where
    xs: "ys = (if e' \<notin> set acc then acc @ [e'] else acc) @ xs"
      "ok_from (endpoint_ok parse allowed) (if e' \<notin> set acc then acc @ [e'] else acc) xs"
    by blast
  show ?case
  proof (cases "e' \<in> set acc")
    case True
    then show ?thesis using xs by auto
  next
    case False
    have "validate_and_normalize_blob_endpoint_url parse (base_url e') True = Inr (base_url e') \<and>
        is_utf8 (base_url e') \<and> length (base_url e') \<le> 2048"
      using e'(1) assms unfolding serialization_stable_def
      by (fastforce simp: normalize_endpoint_def r_simps validate_blob_url_Inr)
    moreover have "locator_kind e' \<noteq> [] \<and> length (locator_kind e') \<le> 64 \<and> list_all kind_char (locator_kind e') \<and>
        locator_kind e' \<in> set allowed"
      using e'(1) by (auto simp: normalize_endpoint_def r_simps normalize_locator_kind_Inr)
    ultimately have "ys = acc @ (e' # xs) \<and> ok_from (endpoint_ok parse allowed) acc (e' # xs)"
      using xs False by (simp add: endpoint_ok_def)
    then show ?thesis by blast
  qed
qed simp

lemma new_policy_stored:
  assumes "serialization_stable parse" and "EncryptedMediaPolicyV1_new parse f ks es True = Inr p"
  shows "policy_stored parse p"
proof -
  have p: "media_format p = ENCRYPTED_MEDIA_FORMAT_V1"
      "normalize_kinds_from ks ''allowed locator kind'' [] = Inr (allowed_locator_kinds p)"
      "normalize_endpoints_from parse True (allowed_locator_kinds p) es [] = Inr (default_blob_endpoints p)"
      "allowed_locator_kinds p \<noteq> []" "length (allowed_locator_kinds p) \<le> 16"
      "default_blob_endpoints p \<noteq> []" "length (default_blob_endpoints p) \<le> 16"
    using assms(2)
    by (auto simp: EncryptedMediaPolicyV1_new_def r_simps normalize_locator_kinds_def Let_def
        ENCRYPTED_MEDIA_MAX_LOCATOR_KINDS_def ENCRYPTED_MEDIA_MAX_BLOB_ENDPOINTS_def)
  show ?thesis
    using p normalize_kinds_sound [OF p(2)] normalize_endpoints_sound [OF assms(1) p(3)]
    by (simp add: policy_stored_def)
qed

interpretation media_codec: canonical_codec "encode_encrypted_media_policy_v1 parse" "decode_encrypted_media_policy_v1 parse"
  for parse
proof
  fix bs and p :: EncryptedMediaPolicyV1
  assume "decode_encrypted_media_policy_v1 parse bs = Inr p"
  then show "encode_encrypted_media_policy_v1 parse p = Inr bs"
    using policy_stored_new decode_policy_sound by (simp add: encode_encrypted_media_policy_v1_def)
qed

text \<open>
  C32: The encrypted-media decoder is strict.  For every URL parser, a byte string that
  \<^const>\<open>decode_encrypted_media_policy_v1\<close> accepts is exactly what
  \<^const>\<open>encode_encrypted_media_policy_v1\<close> produces from the decoded policy, so the decoder trims,
  case-folds, normalizes, deduplicates and reorders nothing, and two different accepted byte
  strings decode to different policies.
\<close>
theorem encrypted_media_decode_strict:
  assumes "decode_encrypted_media_policy_v1 parse bs = Inr p"
  shows "encode_encrypted_media_policy_v1 parse p = Inr bs \<and>
    (\<forall>cs. decode_encrypted_media_policy_v1 parse cs = Inr p \<longrightarrow> cs = bs)"
  using media_codec.canonical [OF assms] media_codec.decode_inj [OF assms] by blast

text \<open>
  Everything the producer encodes, the strict decoder accepts.  When the serialization of
  parsed URLs is stable, the encoding of any policy decodes to the normalized policy that
  \<^const>\<open>EncryptedMediaPolicyV1_new\<close> makes of it, within the decoder's bounds on nested vectors.
\<close>
lemma encrypted_media_roundtrip:
  assumes "serialization_stable parse" and "encode_encrypted_media_policy_v1 parse p = Inr bs"
  shows "decode_encrypted_media_policy_v1 parse bs =
    EncryptedMediaPolicyV1_new parse (media_format p) (allowed_locator_kinds p) (default_blob_endpoints p) True"
proof -
  obtain q where q: "EncryptedMediaPolicyV1_new parse (media_format p) (allowed_locator_kinds p)
      (default_blob_endpoints p) True = Inr q" "bs = policy_bytes q"
    using assms(2) by (auto simp: encode_encrypted_media_policy_v1_def r_simps)
  then show ?thesis using decode_policy_complete new_policy_stored assms(1) by metis
qed

lemma scheme_check_safe:
  "scheme_check scheme h allow = Inr () \<Longrightarrow>
     scheme = ''https'' \<and> (spec_safe_host h \<or> trailing_dot_localhost h) \<or> scheme = ''http'' \<and> allow \<and> is_loopback_host h"
proof (cases h)
  case (HDomain d)
  assume "scheme_check scheme h allow = Inr ()"
  then show ?thesis using HDomain not_localhost_domain [of d]
    by (auto simp: scheme_check_def routable_host_check_def r_simps split: if_splits)
qed (auto simp: scheme_check_def routable_host_check_def r_simps reject_non_routable_ipv4_def
    reject_non_routable_ipv6_def is_public_ipv4_spec is_public_ipv6_spec split: if_splits)

text \<open>
  C33: Stored blob endpoints are safe.  Every default endpoint of a decoded policy carries an
  allowed locator kind and a URL without credentials or fragment whose host is either outside
  the unsafe-host set of \<^verbatim>\<open>spec/foundation/host-safety.md\<close>, over \<^verbatim>\<open>https\<close>, or a loopback host, over
  \<^verbatim>\<open>http\<close>.  The one exception over \<^verbatim>\<open>https\<close> is a \<^verbatim>\<open>localhost\<close> name written with a trailing root dot,
  which the code's test does not recognise.
\<close>
theorem encrypted_media_endpoints_safe:
  assumes "decode_encrypted_media_policy_v1 parse bs = Inr p" and "e \<in> set (default_blob_endpoints p)"
  shows "locator_kind e \<in> set (allowed_locator_kinds p) \<and>
    (\<exists>u h. parse (trim (base_url e)) = Inr u \<and> url_str u = base_url e \<and> url_username u = [] \<and>
       url_password u = None \<and> url_fragment u = None \<and> url_host u = Some h \<and>
       (url_scheme u = ''https'' \<and> (spec_safe_host h \<or> trailing_dot_localhost h) \<or> url_scheme u = ''http'' \<and> is_loopback_host h))"
proof -
  have "list_all (\<lambda>e. locator_kind e \<in> set (allowed_locator_kinds p) \<and>
      validate_and_normalize_blob_endpoint_url parse (base_url e) True = Inr (base_url e)) (default_blob_endpoints p)"
    using decode_policy_sound(2) [OF assms(1)] unfolding policy_stored_def
    by (auto intro: ok_from_list_all simp: endpoint_ok_def)
  then show ?thesis using assms(2) scheme_check_safe unfolding list_all_iff validate_blob_url_Inr by blast
qed

section \<open>A sample policy\<close>

definition ex_policy :: EncryptedMediaPolicyV1 where
  "ex_policy = \<lparr> media_format = ''encrypted-media-v1'', allowed_locator_kinds = [''blossom-v1''],
     default_blob_endpoints = [\<lparr> locator_kind = ''blossom-v1'', base_url = ''https://a'' \<rparr>] \<rparr>"

lemma serialization_stable_ex_parse_plain: "serialization_stable ex_parse_plain"
  using ex_parse_plain_stable unfolding serialization_stable_def by blast

lemma ex_policy_new:
  "EncryptedMediaPolicyV1_new ex_parse_plain (media_format ex_policy) (allowed_locator_kinds ex_policy)
     (default_blob_endpoints ex_policy) True = Inr ex_policy"
  by code_simp

lemma ex_policy_decode: "decode_encrypted_media_policy_v1 ex_parse_plain (policy_bytes ex_policy) = Inr ex_policy"
  using new_policy_stored [OF serialization_stable_ex_parse_plain ex_policy_new] by (rule decode_policy_complete)

lemma ex_policy_encode: "encode_encrypted_media_policy_v1 ex_parse_plain ex_policy = Inr (policy_bytes ex_policy)"
  by (simp add: encode_encrypted_media_policy_v1_def ex_policy_new)

theorem encrypted_media_decode_strict_witness:
  "decode_encrypted_media_policy_v1 ex_parse_plain (policy_bytes ex_policy) = Inr ex_policy \<and>
   encode_encrypted_media_policy_v1 ex_parse_plain ex_policy = Inr (policy_bytes ex_policy)"
  using encrypted_media_decode_strict [OF ex_policy_decode] ex_policy_decode by blast

theorem encrypted_media_endpoints_safe_witness:
  "decode_encrypted_media_policy_v1 ex_parse_plain (policy_bytes ex_policy) = Inr ex_policy \<and>
   (\<exists>u h. ex_parse_plain (trim ''https://a'') = Inr u \<and> url_host u = Some h \<and>
     (url_scheme u = ''https'' \<and> (spec_safe_host h \<or> trailing_dot_localhost h) \<or> url_scheme u = ''http'' \<and> is_loopback_host h))"
proof -
  have "\<lparr> locator_kind = ''blossom-v1'', base_url = ''https://a'' \<rparr> \<in> set (default_blob_endpoints ex_policy)"
    by (simp add: ex_policy_def)
  from encrypted_media_endpoints_safe [OF ex_policy_decode this] show ?thesis
    using ex_policy_decode by auto
qed

end
