(* ===== verification/Engine_App_Components.thy ===== *)
theory Engine_App_Components
  imports Engine_Types Nostr_Routing Avatar_Url Encrypted_Media Convergence
begin

text \<open>
  App-component state in the group context, after \<^verbatim>\<open>crates/cgka-engine/src/app_components.rs\<close>:
  the component codecs the engine owns, the validation of components at group creation and on
  update, and the authorization of commits against the admin policy.  \<open>parse\<close> is \<^verbatim>\<open>Url::parse\<close>
  and \<open>hex\<close> is \<^verbatim>\<open>hex::encode\<close>.
\<close>

section \<open>Engine-side field reader\<close>

definition engine_decode_var_bytes :: "bytes \<Rightarrow> nat \<Rightarrow> string \<Rightarrow> EngineError + (bytes \<times> bytes)" where
  "engine_decode_var_bytes cursor max_len label =
     (case decode_quic_varint cursor of
        Inl e \<Rightarrow> Inl (ESerialize (label @ '' length decode failed: '' @ e))
      | Inr (len64, prefix_len) \<Rightarrow>
          (let len = unat len64 in
           if len > max_len then Inl (ESerialize (label @ '' exceeds maximum length''))
           else if prefix_len + len > USIZE_MAX then Inl (ESerialize (label @ '' length overflow''))
           else if length cursor < prefix_len + len then Inl (ESerialize (label @ '' is truncated''))
           else Inr (take len (drop prefix_len cursor), drop (prefix_len + len) cursor)))"

section \<open>Group profile\<close>

definition encode_group_profile :: "string \<Rightarrow> string \<Rightarrow> EngineError + bytes" where
  "encode_group_profile name description =
     (if length name > 256 then Inl (EOther ''group profile name must be at most 256 UTF-8 bytes'')
      else if length description > 4096
      then Inl (EOther ''group profile description must be at most 4096 UTF-8 bytes'')
      else Inr (encode_component_vectors [as_bytes name, as_bytes description]))"

definition decode_group_profile :: "bytes \<Rightarrow> EngineError + (string \<times> string)" where
  "decode_group_profile bytes =
     r_bind (engine_decode_var_bytes bytes 256 ''profile name'') (\<lambda>(name, cursor).
     r_bind (engine_decode_var_bytes cursor 4096 ''profile description'') (\<lambda>(description, cursor).
       if cursor \<noteq> [] then Inl (ESerialize ''profile component has trailing bytes'')
       else r_bind (r_map_err (\<lambda>e. ESerialize (''profile name is not UTF-8: '' @ e)) (from_utf8 name)) (\<lambda>name.
         r_bind (r_map_err (\<lambda>e. ESerialize (''profile description is not UTF-8: '' @ e)) (from_utf8 description))
           (\<lambda>description. Inr (name, description)))))"

section \<open>Admin policy\<close>

definition encode_admin_policy :: "bytes list \<Rightarrow> EngineError + bytes" where
  "encode_admin_policy admins =
     (let admins = remdups_adj (sort admins) in
      if admins = [] then Inl (EOther ''admin policy must contain at least one admin'')
      else (let admin_bytes = concat admins
            in Inr (encode_quic_varint (of_nat (length admin_bytes)) @ admin_bytes)))"

fun chunks_exact :: "nat \<Rightarrow> nat \<Rightarrow> bytes \<Rightarrow> bytes list" where
  "chunks_exact k 0 bs = []"
| "chunks_exact k (Suc n) bs = take k bs # chunks_exact k n (drop k bs)"

definition decode_admin_policy :: "bytes \<Rightarrow> EngineError + bytes list" where
  "decode_admin_policy bytes =
     (case decode_quic_varint bytes of
        Inl e \<Rightarrow> Inl (ESerialize (''admin policy length decode failed: '' @ e))
      | Inr (len64, prefix_len) \<Rightarrow>
          (let len = unat len64 in
           if prefix_len + len > USIZE_MAX then Inl (ESerialize ''admin policy length overflow'')
           else if prefix_len + len \<noteq> length bytes then Inl (ESerialize ''admin policy has trailing bytes'')
           else if len = 0 \<or> len mod 32 \<noteq> 0
           then Inl (ESerialize ''admin policy must contain one or more 32-byte keys'')
           else (let admins = chunks_exact 32 (len div 32) (drop prefix_len bytes) in
                 if remdups_adj (sort admins) \<noteq> admins
                 then Inl (ESerialize ''admin policy keys must be sorted and unique'')
                 else Inr admins)))"

section \<open>Message retention and group image\<close>

definition decode_message_retention :: "bytes \<Rightarrow> EngineError + u64" where
  "decode_message_retention bytes =
     (if length bytes \<noteq> 8
      then Inl (ESerialize (''message-retention component must be 8 bytes, got '' @ dec_string (length bytes)))
      else Inr (from_be_bytes bytes))"

definition validate_message_retention :: "bytes \<Rightarrow> EngineError + unit" where
  "validate_message_retention bytes = r_bind (decode_message_retention bytes) (\<lambda>_. Inr ())"

definition validate_group_image :: "bytes \<Rightarrow> EngineError + unit" where
  "validate_group_image bytes =
     r_bind (engine_decode_var_bytes bytes 32 ''group image hash'') (\<lambda>(image_hash, cursor).
     r_bind (engine_decode_var_bytes cursor 32 ''group image key'') (\<lambda>(image_key, cursor).
     r_bind (engine_decode_var_bytes cursor 12 ''group image nonce'') (\<lambda>(image_nonce, cursor).
     r_bind (engine_decode_var_bytes cursor 32 ''group image upload key'') (\<lambda>(image_upload_key, cursor).
     r_bind (engine_decode_var_bytes cursor 128 ''group image media type'') (\<lambda>(media_type, cursor).
       if cursor \<noteq> [] then Inl (ESerialize ''group image component has trailing bytes'')
       else if image_hash = [] \<and> image_key = [] \<and> image_nonce = [] \<and> image_upload_key = [] \<and> media_type = []
       then Inr ()
       else if length image_hash \<noteq> 32 \<or> length image_key \<noteq> 32 \<or> length image_nonce \<noteq> 12
         \<or> length image_upload_key \<noteq> 32 \<or> media_type = []
       then Inl (ESerialize ''group image component has invalid partial state'')
       else r_bind (r_map_err (\<lambda>e. ESerialize (''group image media type is not UTF-8: '' @ e)) (from_utf8 media_type))
              (\<lambda>_. Inr ()))))))"

definition group_image_present :: "bytes \<Rightarrow> bool" where
  "group_image_present bytes =
     (case r_bind (engine_decode_var_bytes bytes 32 ''group image hash'') (\<lambda>(hash, cursor).
           r_bind (engine_decode_var_bytes cursor 32 ''group image key'') (\<lambda>(key, cursor).
           r_bind (engine_decode_var_bytes cursor 12 ''group image nonce'') (\<lambda>(nonce, cursor).
           r_bind (engine_decode_var_bytes cursor 32 ''group image upload key'') (\<lambda>(upload_key, cursor).
           r_bind (engine_decode_var_bytes cursor 128 ''group image media type'') (\<lambda>(media_type, cursor).
             Inr (hash \<noteq> [] \<or> key \<noteq> [] \<or> nonce \<noteq> [] \<or> upload_key \<noteq> [] \<or> media_type \<noteq> []))))))
      of Inl _ \<Rightarrow> True | Inr present \<Rightarrow> present)"

definition avatar_component_present :: "url_parser \<Rightarrow> AppComponentId \<Rightarrow> bytes \<Rightarrow> bool" where
  "avatar_component_present parse i bytes =
     (if i = GROUP_AVATAR_URL_COMPONENT_ID
      then (case decode_group_avatar_url_v1 parse bytes of Inl _ \<Rightarrow> True | Inr avatar \<Rightarrow> av_url avatar \<noteq> [])
      else if i = GROUP_BLOSSOM_IMAGE_COMPONENT_ID then group_image_present bytes
      else True)"

section \<open>Component validation\<close>

definition validate_group_avatar_url :: "url_parser \<Rightarrow> bytes \<Rightarrow> EngineError + unit" where
  "validate_group_avatar_url parse bytes =
     r_bind (r_map_err (\<lambda>e. ESerialize (''invalid group avatar URL component: '' @ e))
       (decode_group_avatar_url_v1 parse bytes)) (\<lambda>_. Inr ())"

definition validate_encrypted_media_policy :: "url_parser \<Rightarrow> bytes \<Rightarrow> EngineError + unit" where
  "validate_encrypted_media_policy parse bytes =
     r_bind (r_map_err (\<lambda>e. ESerialize (''invalid encrypted media component: '' @ e))
       (decode_encrypted_media_policy_v1 parse bytes)) (\<lambda>_. Inr ())"

definition validate_nostr_routing_component :: "url_parser \<Rightarrow> bytes \<Rightarrow> EngineError + unit" where
  "validate_nostr_routing_component parse bytes =
     r_bind (r_map_err (\<lambda>e. ESerialize (''invalid Nostr routing component: '' @ e))
       (decode_nostr_routing_v1 parse bytes)) (\<lambda>_. Inr ())"

definition validate_agent_text_stream_policy :: "bytes \<Rightarrow> EngineError + unit" where
  "validate_agent_text_stream_policy bytes =
     r_bind (r_map_err (\<lambda>e. ESerialize (''invalid agent text stream component: '' @ policy_error_string e))
       (decode_component_state bytes)) (\<lambda>_. Inr ())"

definition validate_initial_app_component :: "url_parser \<Rightarrow> AppComponentData \<Rightarrow> EngineError + unit" where
  "validate_initial_app_component parse component =
     (let i = component_id component; data = component_data component in
      if i = APP_COMPONENTS_COMPONENT_ID \<or> i = GROUP_PROFILE_COMPONENT_ID \<or> i = GROUP_ADMIN_POLICY_COMPONENT_ID
      then Inl (EOther ''group creation request cannot override engine-owned app components'')
      else if i = NOSTR_ROUTING_COMPONENT_ID then validate_nostr_routing_component parse data
      else if i = GROUP_BLOSSOM_IMAGE_COMPONENT_ID then validate_group_image data
      else if i = GROUP_AVATAR_URL_COMPONENT_ID then validate_group_avatar_url parse data
      else if i = GROUP_MESSAGE_RETENTION_COMPONENT_ID then validate_message_retention data
      else if i = AGENT_TEXT_STREAM_QUIC_COMPONENT_ID then validate_agent_text_stream_policy data
      else if i = GROUP_ENCRYPTED_MEDIA_COMPONENT_ID then validate_encrypted_media_policy parse data
      else Inr ())"

definition validate_app_component_update :: "url_parser \<Rightarrow> AppComponentData \<Rightarrow> EngineError + unit" where
  "validate_app_component_update parse component =
     (let i = component_id component; data = component_data component in
      if i = APP_COMPONENTS_COMPONENT_ID
      then r_bind (r_map_err (\<lambda>e. ESerialize (''invalid app_components component: '' @ e))
             (decode_components_list data)) (\<lambda>_. Inr ())
      else if i = GROUP_PROFILE_COMPONENT_ID then r_bind (decode_group_profile data) (\<lambda>_. Inr ())
      else if i = GROUP_ADMIN_POLICY_COMPONENT_ID then r_bind (decode_admin_policy data) (\<lambda>_. Inr ())
      else if i = NOSTR_ROUTING_COMPONENT_ID then validate_nostr_routing_component parse data
      else if i = GROUP_BLOSSOM_IMAGE_COMPONENT_ID then validate_group_image data
      else if i = GROUP_AVATAR_URL_COMPONENT_ID then validate_group_avatar_url parse data
      else if i = GROUP_MESSAGE_RETENTION_COMPONENT_ID then validate_message_retention data
      else if i = AGENT_TEXT_STREAM_QUIC_COMPONENT_ID then validate_agent_text_stream_policy data
      else if i = GROUP_ENCRYPTED_MEDIA_COMPONENT_ID then validate_encrypted_media_policy parse data
      else Inr ())"

section \<open>Reading components of a group\<close>

definition app_component_bytes :: "MlsGroup \<Rightarrow> AppComponentId \<Rightarrow> bytes option" where
  "app_component_bytes mls_group i =
     (case mg_app_data mls_group of None \<Rightarrow> None | Some dict \<Rightarrow> dict i)"

definition required_app_components_of_group :: "MlsGroup \<Rightarrow> EngineError + AppComponentSet" where
  "required_app_components_of_group mls_group =
     (case app_component_bytes mls_group APP_COMPONENTS_COMPONENT_ID of
        None \<Rightarrow> Inr []
      | Some bytes \<Rightarrow>
          r_map_err (\<lambda>e. ESerialize (''group app_components decode failed: '' @ e)) (decode_components_list bytes))"

definition app_components_of_leaf :: "LeafNode \<Rightarrow> EngineError + AppComponentSet" where
  "app_components_of_leaf leaf =
     (case ln_app_data leaf of
        None \<Rightarrow> Inr []
      | Some dict \<Rightarrow>
          (case dict APP_COMPONENTS_COMPONENT_ID of
             None \<Rightarrow> Inr []
           | Some bytes \<Rightarrow>
               r_map_err (\<lambda>e. ESerialize (''leaf app_components decode failed: '' @ e)) (decode_components_list bytes)))"

definition leaf_app_components_extension :: "AppComponentSet \<Rightarrow> AppDataDictionary" where
  "leaf_app_components_extension supported =
     Map.empty(APP_COMPONENTS_COMPONENT_ID \<mapsto> encode_components_list supported)"

definition group_profile_of_group :: "MlsGroup \<Rightarrow> EngineError + (string \<times> string) option" where
  "group_profile_of_group mls_group =
     (case app_component_bytes mls_group GROUP_PROFILE_COMPONENT_ID of
        None \<Rightarrow> Inr None
      | Some bytes \<Rightarrow> r_bind (decode_group_profile bytes) (\<lambda>p. Inr (Some p)))"

definition admins_of_group :: "MlsGroup \<Rightarrow> EngineError + bytes list" where
  "admins_of_group mls_group =
     (case app_component_bytes mls_group GROUP_ADMIN_POLICY_COMPONENT_ID of
        None \<Rightarrow> Inr []
      | Some bytes \<Rightarrow> decode_admin_policy bytes)"

definition message_retention_seconds_of_group :: "MlsGroup \<Rightarrow> EngineError + u64 option" where
  "message_retention_seconds_of_group mls_group =
     (case app_component_bytes mls_group GROUP_MESSAGE_RETENTION_COMPONENT_ID of
        None \<Rightarrow> Inr None
      | Some bytes \<Rightarrow> r_bind (decode_message_retention bytes) (\<lambda>seconds.
          if seconds = 0 then Inr None else Inr (Some seconds)))"

definition nostr_routing_of_group :: "url_parser \<Rightarrow> MlsGroup \<Rightarrow> EngineError + NostrRoutingV1 option" where
  "nostr_routing_of_group parse mls_group =
     (case app_component_bytes mls_group NOSTR_ROUTING_COMPONENT_ID of
        None \<Rightarrow> Inr None
      | Some bytes \<Rightarrow>
          r_bind (r_map_err (\<lambda>e. ESerialize (''Nostr routing component decode failed: '' @ e))
            (decode_nostr_routing_v1 parse bytes)) (\<lambda>r. Inr (Some r)))"

definition transport_group_id_of_group :: "url_parser \<Rightarrow> MlsGroup \<Rightarrow> EngineError + bytes" where
  "transport_group_id_of_group parse mls_group =
     r_bind (nostr_routing_of_group parse mls_group) (\<lambda>routing.
       case routing of
         Some r \<Rightarrow> Inr (nostr_group_id r)
       | None \<Rightarrow> Inr (mg_group_id mls_group))"

definition validate_app_component_remove :: "MlsGroup \<Rightarrow> AppComponentId \<Rightarrow> EngineError + unit" where
  "validate_app_component_remove mls_group i =
     (if i = APP_COMPONENTS_COMPONENT_ID then Inl (EOther ''app_components component cannot be removed'')
      else r_bind (required_app_components_of_group mls_group) (\<lambda>required.
        if acs_contains required i then Inl (EOther ''required Marmot app components cannot be removed'')
        else Inr ()))"

section \<open>Group creation\<close>

record InitialComponentState =
  ics_name :: string
  ics_description :: string
  ics_admins :: "bytes list"
  ics_app_components :: "AppComponentData list"

fun insert_initial_components ::
  "url_parser \<Rightarrow> AppComponentSet \<Rightarrow> AppComponentData list \<Rightarrow> AppComponentId list \<Rightarrow> AppDataDictionary \<Rightarrow>
   EngineError + AppDataDictionary" where
  "insert_initial_components parse required [] seen dict = Inr dict"
| "insert_initial_components parse required (component # rest) seen dict =
     (if component_id component \<in> set seen
      then Inl (EOther ''group creation request contains duplicate app components'')
      else r_bind (validate_initial_app_component parse component) (\<lambda>_.
        insert_initial_components parse required rest (component_id component # seen)
          (if acs_contains required (component_id component)
           then dict(component_id component \<mapsto> component_data component) else dict)))"

definition app_data_dictionary_extension_for_group ::
  "url_parser \<Rightarrow> AppComponentSet \<Rightarrow> InitialComponentState \<Rightarrow> EngineError + AppDataDictionary" where
  "app_data_dictionary_extension_for_group parse required initial =
     (let dict = Map.empty(APP_COMPONENTS_COMPONENT_ID \<mapsto> encode_components_list required) in
      r_bind (if acs_contains required GROUP_PROFILE_COMPONENT_ID
              then r_bind (encode_group_profile (ics_name initial) (ics_description initial))
                     (\<lambda>bs. Inr (dict(GROUP_PROFILE_COMPONENT_ID \<mapsto> bs)))
              else Inr dict) (\<lambda>dict.
      let dict = (if acs_contains required GROUP_BLOSSOM_IMAGE_COMPONENT_ID
                  then dict(GROUP_BLOSSOM_IMAGE_COMPONENT_ID \<mapsto> encode_component_vectors [[], [], [], [], []])
                  else dict) in
      r_bind (if acs_contains required GROUP_ADMIN_POLICY_COMPONENT_ID
              then r_bind (encode_admin_policy (ics_admins initial))
                     (\<lambda>bs. Inr (dict(GROUP_ADMIN_POLICY_COMPONENT_ID \<mapsto> bs)))
              else Inr dict) (\<lambda>dict.
      insert_initial_components parse required (ics_app_components initial) [] dict)))"

section \<open>Commit authorization\<close>

definition admin_pubkey_from_member_id :: "MemberId \<Rightarrow> EngineError + bytes" where
  "admin_pubkey_from_member_id i =
     (if length i \<noteq> 32
      then Inl (EBackend (''Marmot admin policy requires 32-byte member identities; got '' @ dec_string (length i)))
      else Inr i)"

definition require_admin :: "MlsGroup \<Rightarrow> GroupId \<Rightarrow> MemberId \<Rightarrow> EngineError + unit" where
  "require_admin mls_group group_id member_id =
     r_bind (admin_pubkey_from_member_id member_id) (\<lambda>member_pubkey.
     r_bind (admins_of_group mls_group) (\<lambda>admins.
       if member_pubkey \<in> set admins then Inr () else Inl (NotGroupAdmin group_id)))"

definition member_at :: "MlsGroup \<Rightarrow> u32 \<Rightarrow> MlsMember option" where
  "member_at mls_group leaf = find (\<lambda>m. mm_index m = leaf) (mg_members mls_group)"

fun member_id_of_sender :: "Sender \<Rightarrow> MlsGroup \<Rightarrow> MemberId option" where
  "member_id_of_sender (SenderMember leaf) mls_group =
     (case member_at mls_group leaf of None \<Rightarrow> None | Some m \<Rightarrow> mm_identity m)"
| "member_id_of_sender _ mls_group = None"

fun check_self_removes ::
  "MlsGroup \<Rightarrow> GroupId \<Rightarrow> bytes list \<Rightarrow> (Proposal \<times> Sender) list \<Rightarrow> EngineError + unit" where
  "check_self_removes mls_group group_id admins [] = Inr ()"
| "check_self_removes mls_group group_id admins ((proposal, sender) # queued) =
     (if proposal \<noteq> PropSelfRemove then check_self_removes mls_group group_id admins queued
      else case member_id_of_sender sender mls_group of
          None \<Rightarrow> check_self_removes mls_group group_id admins queued
        | Some m \<Rightarrow> r_bind (admin_pubkey_from_member_id m) (\<lambda>sender_pubkey.
            if sender_pubkey \<in> set admins then Inl (AdminCannotSelfRemove group_id)
            else check_self_removes mls_group group_id admins queued))"

definition reject_admin_self_remove_proposals :: "MlsGroup \<Rightarrow> GroupId \<Rightarrow> StagedCommit \<Rightarrow> EngineError + unit" where
  "reject_admin_self_remove_proposals mls_group group_id staged =
     r_bind (admins_of_group mls_group) (\<lambda>admins.
       if admins = [] then Inr ()
       else check_self_removes mls_group group_id admins (sc_queued_proposals staged))"

fun count_self_removes :: "Proposal list \<Rightarrow> nat \<Rightarrow> nat \<Rightarrow> (nat \<times> nat) option" where
  "count_self_removes [] proposal_count self_remove_count = Some (proposal_count, self_remove_count)"
| "count_self_removes (p # ps) proposal_count self_remove_count =
     (if p = PropSelfRemove then count_self_removes ps (proposal_count + 1) (self_remove_count + 1) else None)"

definition is_allowed_non_admin_commit :: "StagedCommit \<Rightarrow> bool" where
  "is_allowed_non_admin_commit staged =
     (case count_self_removes (map fst (sc_queued_proposals staged)) 0 0 of
        None \<Rightarrow> False
      | Some (proposal_count, self_remove_count) \<Rightarrow>
          (let is_self_update_only = (proposal_count = 0 \<and> sc_update_path_leaf staged \<noteq> None);
               is_self_remove_only = (self_remove_count > 0 \<and> self_remove_count = proposal_count)
           in is_self_update_only \<noteq> is_self_remove_only))"

definition staged_commit_requires_admin :: "StagedCommit \<Rightarrow> bool" where
  "staged_commit_requires_admin staged = (\<not> is_allowed_non_admin_commit staged)"

definition commit_ordering_priority_for_staged :: "StagedCommit \<Rightarrow> CommitOrderingPriority" where
  "commit_ordering_priority_for_staged staged =
     (if staged_commit_requires_admin staged then Privileged else Ordinary)"

definition require_admin_for_staged_commit ::
  "MlsGroup \<Rightarrow> GroupId \<Rightarrow> MemberId option \<Rightarrow> StagedCommit \<Rightarrow> EngineError + unit" where
  "require_admin_for_staged_commit mls_group group_id sender staged =
     r_bind (reject_admin_self_remove_proposals mls_group group_id staged) (\<lambda>_.
       if \<not> staged_commit_requires_admin staged then Inr ()
       else case sender of
           None \<Rightarrow> Inl (NotGroupAdmin group_id)
         | Some sender \<Rightarrow> require_admin mls_group group_id sender)"

definition credential_account_pubkey :: "bytes option \<Rightarrow> bytes option" where
  "credential_account_pubkey cred =
     (case cred of None \<Rightarrow> None | Some identity \<Rightarrow> if length identity = 32 then Some identity else None)"

definition group_id_debug :: "(bytes \<Rightarrow> string) \<Rightarrow> GroupId \<Rightarrow> string" where
  "group_id_debug hex group_id = ''GroupId('' @ hex group_id @ '')''"

fun self_remove_leaves :: "(Proposal \<times> Sender) list \<Rightarrow> u32 set" where
  "self_remove_leaves [] = {}"
| "self_remove_leaves ((proposal, sender) # queued) =
     (case sender of
        SenderMember leaf \<Rightarrow>
          if proposal = PropSelfRemove then insert leaf (self_remove_leaves queued) else self_remove_leaves queued
      | _ \<Rightarrow> self_remove_leaves queued)"

definition removed_leaves :: "StagedCommit \<Rightarrow> u32 set" where
  "removed_leaves staged = set (sc_remove_proposals staged) \<union> self_remove_leaves (sc_queued_proposals staged)"

definition resulting_accounts :: "MlsGroup \<Rightarrow> StagedCommit \<Rightarrow> bytes list" where
  "resulting_accounts mls_group staged =
     bs_of_list
       (List.map_filter (\<lambda>m. if mm_index m \<in> removed_leaves staged then None
                               else credential_account_pubkey (mm_identity m)) (mg_members mls_group)
        @ List.map_filter (\<lambda>leaf. credential_account_pubkey (ln_identity leaf)) (sc_add_leaves staged))"

definition validate_admin_leaf_coupling_for_staged_commit ::
  "(bytes \<Rightarrow> string) \<Rightarrow> MlsGroup \<Rightarrow> GroupId \<Rightarrow> StagedCommit \<Rightarrow> EngineError + unit" where
  "validate_admin_leaf_coupling_for_staged_commit hex mls_group group_id staged =
     (case sc_app_data staged of
        None \<Rightarrow> Inr ()
      | Some dict \<Rightarrow>
          (case dict GROUP_ADMIN_POLICY_COMPONENT_ID of
             None \<Rightarrow> Inr ()
           | Some admin_bytes \<Rightarrow>
               r_bind (decode_admin_policy admin_bytes) (\<lambda>resulting_admins.
                 if resulting_admins = [] then Inr ()
                 else if list_ex (\<lambda>a. a \<notin> set (resulting_accounts mls_group staged)) resulting_admins
                 then Inl (EOther (''admin-policy update is invalid: an admin key has no member leaf in the resulting epoch (group ''
                             @ group_id_debug hex group_id @ '')''))
                 else Inr ())))"

definition reject_admins_without_member_leaf ::
  "(bytes \<Rightarrow> string) \<Rightarrow> MlsGroup \<Rightarrow> GroupId \<Rightarrow> bytes list \<Rightarrow> EngineError + unit" where
  "reject_admins_without_member_leaf hex mls_group group_id admins =
     (if admins = [] then Inr ()
      else (let accounts = bs_of_list (List.map_filter (\<lambda>m. credential_account_pubkey (mm_identity m)) (mg_members mls_group)) in
            if list_ex (\<lambda>a. a \<notin> set accounts) admins
            then Inl (EOther (''admin-policy update is invalid: an admin key has no member leaf (group ''
                        @ group_id_debug hex group_id @ '')''))
            else Inr ()))"

section \<open>Codec laws\<close>

lemma engine_decode_var_bytes_eq:
  "engine_decode_var_bytes cursor max_len label = r_map_err ESerialize (decode_var_bytes cursor max_len label)"
  by (cases "decode_quic_varint cursor") (auto simp: engine_decode_var_bytes_def decode_var_bytes_def Let_def)

lemma engine_decode_var_bytes_Inr:
  "engine_decode_var_bytes bs max_len label = Inr (x, r) \<longleftrightarrow>
     (length x \<le> max_len \<and> length x < 2 ^ 62) \<and> bs = encode_var_bytes x @ r"
  unfolding engine_decode_var_bytes_eq r_map_err_Inr by (rule vb.dec_iff)

interpretation evb: prefix_codec encode_var_bytes "\<lambda>bs. engine_decode_var_bytes bs max_len label"
    "\<lambda>x. length x \<le> max_len \<and> length x < 2 ^ 62"
  for max_len label
  by unfold_locales (simp_all add: engine_decode_var_bytes_Inr encode_var_bytes_nonempty)

lemma decode_group_profile_Inr:
  "decode_group_profile bs = Inr (n, d) \<longleftrightarrow> encode_group_profile n d = Inr bs \<and> is_utf8 n \<and> is_utf8 d"
  (is "?l \<longleftrightarrow> ?r")
proof
  assume ?l
  then obtain x y c where e: "engine_decode_var_bytes bs 256 ''profile name'' = Inr (x, c)"
      "engine_decode_var_bytes c 4096 ''profile description'' = Inr (y, [])"
      and u: "is_utf8 n" "x = as_bytes n" "is_utf8 d" "y = as_bytes d"
    by (auto simp: decode_group_profile_def r_simps from_utf8_Inr)
  show ?r using e [THEN evb.dec_sound] u
    by (simp add: encode_group_profile_def encode_component_vectors_eq)
next
  assume r: ?r
  then have b: "bs = encode_var_bytes (as_bytes n) @ encode_var_bytes (as_bytes d) @ []"
      and len: "length n \<le> 256" "length d \<le> 4096"
    by (auto simp: encode_group_profile_def encode_component_vectors_eq r_simps)
  have "engine_decode_var_bytes bs 256 ''profile name'' = Inr (as_bytes n, encode_var_bytes (as_bytes d) @ [])"
      "engine_decode_var_bytes (encode_var_bytes (as_bytes d) @ []) 4096 ''profile description'' = Inr (as_bytes d, [])"
    using len unfolding b engine_decode_var_bytes_Inr by simp_all
  moreover have "from_utf8 (as_bytes n) = Inr n" "from_utf8 (as_bytes d) = Inr d"
    using r by (simp_all add: from_utf8_Inr)
  ultimately show ?l by (simp add: decode_group_profile_def)
qed

interpretation profile_codec: canonical_codec "\<lambda>(n, d). encode_group_profile n d" decode_group_profile
  by unfold_locales (auto simp: decode_group_profile_Inr)

lemma chunks_exact_concat: "list_all (\<lambda>x. length x = k) xs \<Longrightarrow> chunks_exact k (length xs) (concat xs) = xs"
  by (induction xs) auto

lemma concat_chunks_exact:
  "length bs = n * k \<Longrightarrow> concat (chunks_exact k n bs) = bs \<and> list_all (\<lambda>x. length x = k) (chunks_exact k n bs)"
  by (induction n arbitrary: bs) auto

lemma length_chunks_exact [simp]: "length (chunks_exact k n bs) = n"
  by (induction n arbitrary: bs) auto

lemma length_concat_same: "list_all (\<lambda>x. length x = k) xs \<Longrightarrow> length (concat xs) = length xs * k"
  by (induction xs) auto

lemma dedup_sorted_iff: "remdups_adj (sort xs) = xs \<longleftrightarrow> sorted xs \<and> distinct (xs :: 'a::linorder list)"
proof
  assume e: "remdups_adj (sort xs) = xs"
  have "sorted (remdups_adj (sort xs))" "distinct (remdups_adj (sort xs))"
    by (simp_all add: sorted_remdups_adj distinct_remdups_adj_sorted)
  then show "sorted xs \<and> distinct xs" unfolding e by blast
next
  assume "sorted xs \<and> distinct xs"
  then show "remdups_adj (sort xs) = xs" by (simp add: sorted_sort_id remdups_adj_distinct)
qed

definition admin_list_ok :: "bytes list \<Rightarrow> bool" where
  "admin_list_ok admins \<longleftrightarrow> admins \<noteq> [] \<and> sorted admins \<and> distinct admins \<and> list_all (\<lambda>a. length a = 32) admins
     \<and> length admins * 32 < 2 ^ 62"

lemma decode_admin_policy_sound:
  assumes "decode_admin_policy bs = Inr admins"
  shows "admin_list_ok admins \<and> bs = encode_var_bytes (concat admins)"
proof -
  obtain v k where d: "decode_quic_varint bs = Inr (v, k)"
  proof (cases "decode_quic_varint bs")
    case (Inl e)
    then show ?thesis using assms by (simp add: decode_admin_policy_def)
  next
    case (Inr p)
    then show ?thesis using that by (cases p) simp
  qed
  note s = decode_quic_varint_sound [OF d]
  have b: "k + unat v = length bs" "unat v \<noteq> 0" "unat v mod 32 = 0"
      "remdups_adj (sort admins) = admins" "admins = chunks_exact 32 (unat v div 32) (drop k bs)"
    using assms unfolding decode_admin_policy_def d sum.case prod.case Let_def
    by (simp_all split: if_split_asm)
  have len: "length (drop k bs) = unat v div 32 * 32" using b(1,3) by (simp add: minus_mod_eq_div_mult [symmetric])
  note c = concat_chunks_exact [OF len, folded b(5)]
  have n: "length admins = unat v div 32" unfolding b(5) by simp
  have v: "length (concat admins) = unat v" using c len b(1) by simp
  have "bs = take k bs @ drop k bs" by (rule append_take_drop_id [symmetric])
  then have "bs = encode_quic_varint v @ concat admins" unfolding s(3) using c by simp
  moreover have "encode_var_bytes (concat admins) = encode_quic_varint v @ concat admins"
    unfolding encode_var_bytes_def v by simp
  moreover have "admin_list_ok admins"
    using b(2,3,4) c s(1) n length_concat_same [of 32 admins] v
    by (auto simp: admin_list_ok_def dedup_sorted_iff)
  ultimately show ?thesis by simp
qed

lemma decode_admin_policy_complete:
  assumes "admin_list_ok admins"
  shows "decode_admin_policy (encode_var_bytes (concat admins)) = Inr admins"
proof -
  note a = assms [unfolded admin_list_ok_def]
  define m where "m = length (concat admins)"
  have m: "m = length admins * 32" unfolding m_def using a length_concat_same by blast
  define n where "n = (of_nat m :: u64)"
  have un: "unat n = m" unfolding n_def using a m by (intro unat_of_nat_u64) simp
  define e where "e = encode_quic_varint n"
  have d: "decode_quic_varint (e @ concat admins) = Inr (n, length e)"
    unfolding e_def by (rule decode_encode_quic_varint) (use un a m in simp)
  have u: "\<not> USIZE_MAX < length e + m"
    using encode_quic_varint_length_le [of n] a m unfolding e_def by (simp add: USIZE_MAX_def)
  have c: "encode_var_bytes (concat admins) = e @ concat admins"
    unfolding encode_var_bytes_def e_def n_def m_def ..
  have "m \<noteq> 0" "m mod 32 = 0" "m div 32 = length admins" using a m by auto
  moreover have "chunks_exact 32 (length admins) (concat admins) = admins" using a chunks_exact_concat by blast
  moreover have "remdups_adj (sort admins) = admins" using a dedup_sorted_iff by blast
  ultimately show ?thesis
    unfolding c decode_admin_policy_def d sum.case prod.case Let_def un using u m_def by simp
qed

lemma encode_admin_policy_Inr:
  "encode_admin_policy admins = Inr bs \<longleftrightarrow>
     admins \<noteq> [] \<and> bs = encode_var_bytes (concat (remdups_adj (sort admins)))"
proof -
  have "remdups_adj (sort admins) = [] \<longleftrightarrow> admins = []" by (metis remdups_adj_Nil_iff set_empty set_sort)
  then show ?thesis by (auto simp: encode_admin_policy_def Let_def encode_var_bytes_def)
qed


text \<open>
  C21: The admin-policy codec is canonical.  \<^const>\<open>decode_admin_policy\<close> accepts a byte string
  with the keys \<open>admins\<close> exactly when the keys are a non-empty, strictly sorted list of 32-byte
  keys and the string is what \<^const>\<open>encode_admin_policy\<close> writes for them.  So an admin set has
  one encoding, and two clients that accept the same bytes agree on the admins.
\<close>
theorem admin_policy_canonical:
  "decode_admin_policy bs = Inr admins \<longleftrightarrow>
     encode_admin_policy admins = Inr bs \<and> sorted admins \<and> distinct admins
     \<and> (\<forall>a. a \<in> set admins \<longrightarrow> length a = 32) \<and> length admins * 32 < 2 ^ 62"
proof
  assume "decode_admin_policy bs = Inr admins"
  note s = decode_admin_policy_sound [OF this]
  then have "remdups_adj (sort admins) = admins" using dedup_sorted_iff admin_list_ok_def by blast
  then show "encode_admin_policy admins = Inr bs \<and> sorted admins \<and> distinct admins
     \<and> (\<forall>a. a \<in> set admins \<longrightarrow> length a = 32) \<and> length admins * 32 < 2 ^ 62"
    using s by (auto simp: admin_list_ok_def encode_admin_policy_Inr list_all_iff)
next
  assume a: "encode_admin_policy admins = Inr bs \<and> sorted admins \<and> distinct admins
     \<and> (\<forall>a. a \<in> set admins \<longrightarrow> length a = 32) \<and> length admins * 32 < 2 ^ 62"
  then have "remdups_adj (sort admins) = admins" using dedup_sorted_iff by blast
  then have "admin_list_ok admins" "bs = encode_var_bytes (concat admins)"
    using a by (auto simp: admin_list_ok_def encode_admin_policy_Inr list_all_iff)
  then show "decode_admin_policy bs = Inr admins" using decode_admin_policy_complete by blast
qed

theorem admin_policy_canonical_witness:
  "decode_admin_policy (encode_var_bytes (replicate 32 1 @ replicate 32 2)) = Inr [replicate 32 1, replicate 32 2]"
proof -
  have "encode_admin_policy [replicate 32 1, replicate 32 2] =
      Inr (encode_var_bytes (replicate 32 1 @ replicate 32 2))" by code_simp
  moreover have "sorted [replicate 32 (1 :: u8), replicate 32 2]" "distinct [replicate 32 (1 :: u8), replicate 32 2]"
    by code_simp+
  ultimately show ?thesis using admin_policy_canonical by simp
qed

section \<open>Group creation\<close>

definition component_valid :: "url_parser \<Rightarrow> AppComponentId \<Rightarrow> bytes \<Rightarrow> bool" where
  "component_valid parse i data \<longleftrightarrow>
     validate_app_component_update parse \<lparr> component_id = i, component_data = data \<rparr> = Inr ()"

definition dict_valid :: "url_parser \<Rightarrow> AppDataDictionary \<Rightarrow> bool" where
  "dict_valid parse dict \<longleftrightarrow> (\<forall>i data. dict i = Some data \<longrightarrow> component_valid parse i data)"

lemma dict_valid_empty [simp]: "dict_valid parse Map.empty"
  by (simp add: dict_valid_def)

lemma dict_valid_upd: "dict_valid parse dict \<Longrightarrow> component_valid parse i data \<Longrightarrow> dict_valid parse (dict(i \<mapsto> data))"
  by (simp add: dict_valid_def)

lemma dict_valid_remove: "dict_valid parse dict \<Longrightarrow> dict_valid parse (dict(i := None))"
  by (simp add: dict_valid_def)

lemma validate_initial_eq_update:
  assumes "component_id c \<noteq> APP_COMPONENTS_COMPONENT_ID" "component_id c \<noteq> GROUP_PROFILE_COMPONENT_ID"
    "component_id c \<noteq> GROUP_ADMIN_POLICY_COMPONENT_ID"
  shows "validate_initial_app_component parse c = validate_app_component_update parse c"
  using assms unfolding validate_initial_app_component_def validate_app_component_update_def Let_def by simp

lemma validate_initial_imp_update:
  assumes "validate_initial_app_component parse c = Inr ()"
  shows "component_valid parse (component_id c) (component_data c)"
proof -
  have "component_id c \<noteq> APP_COMPONENTS_COMPONENT_ID" "component_id c \<noteq> GROUP_PROFILE_COMPONENT_ID"
      "component_id c \<noteq> GROUP_ADMIN_POLICY_COMPONENT_ID"
    using assms unfolding validate_initial_app_component_def Let_def by auto
  then show ?thesis using assms validate_initial_eq_update [of c parse] by (cases c) (simp add: component_valid_def)
qed

lemma insert_initial_components_valid:
  "insert_initial_components parse required cs seen dict = Inr dict' \<Longrightarrow> dict_valid parse dict \<Longrightarrow> dict_valid parse dict'"
  by (induction cs arbitrary: seen dict)
    (auto simp: r_simps dict_valid_upd validate_initial_imp_update split: if_split_asm)

lemma insert_initial_components_keeps:
  assumes "i = APP_COMPONENTS_COMPONENT_ID \<or> i = GROUP_PROFILE_COMPONENT_ID \<or> i = GROUP_ADMIN_POLICY_COMPONENT_ID"
  shows "insert_initial_components parse required cs seen dict = Inr dict' \<Longrightarrow> dict' i = dict i"
proof (induction cs arbitrary: seen dict)
  case (Cons c cs)
  then have v: "validate_initial_app_component parse c = Inr ()"
    by (auto simp: r_simps split: if_split_asm)
  then have "component_id c \<noteq> i" using assms unfolding validate_initial_app_component_def Let_def by auto
  then show ?case using Cons v by (auto split: if_split_asm)
qed simp

lemma components_list_valid: "distinct ids \<Longrightarrow> component_valid parse APP_COMPONENTS_COMPONENT_ID (encode_components_list ids)"
  using components_list_canonical [of "encode_components_list ids" "bs_of_list ids"]
  by (auto simp: component_valid_def validate_app_component_update_def)

lemma profile_valid:
  "encode_group_profile n d = Inr bs \<Longrightarrow> is_utf8 n \<Longrightarrow> is_utf8 d \<Longrightarrow> component_valid parse GROUP_PROFILE_COMPONENT_ID bs"
  using decode_group_profile_Inr [of bs n d]
  by (simp add: component_valid_def validate_app_component_update_def component_ids)

lemma empty_image_valid:
  "component_valid parse GROUP_BLOSSOM_IMAGE_COMPONENT_ID (encode_component_vectors [[], [], [], [], []])"
proof -
  have e: "engine_decode_var_bytes (encode_var_bytes [] @ r) m l = Inr ([], r)" for r m l
    by (simp add: engine_decode_var_bytes_Inr)
  show ?thesis
    using e [of "[]"]
    by (simp add: component_valid_def validate_app_component_update_def component_ids
          validate_group_image_def encode_component_vectors_eq e)
qed

lemma decode_encoded_admins:
  assumes "encode_admin_policy admins = Inr bs" "list_all (\<lambda>a. length a = 32) admins" "length admins * 32 < 2 ^ 62"
  shows "decode_admin_policy bs = Inr (remdups_adj (sort admins))"
proof -
  let ?s = "remdups_adj (sort admins)"
  have "length ?s \<le> length admins" using remdups_adj_length [of "sort admins"] by simp
  moreover have "list_all (\<lambda>a. length a = 32) ?s" using assms(2) by (simp add: list_all_iff)
  moreover have "sorted ?s" "distinct ?s" by (simp_all add: sorted_remdups_adj distinct_remdups_adj_sorted)
  moreover have "?s \<noteq> []" using assms(1) by (auto simp: encode_admin_policy_def Let_def split: if_split_asm)
  ultimately have "admin_list_ok ?s" using assms(3) by (simp add: admin_list_ok_def)
  then show ?thesis using assms(1) decode_admin_policy_complete by (simp add: encode_admin_policy_Inr)
qed

lemma admin_policy_valid:
  "encode_admin_policy admins = Inr bs \<Longrightarrow> list_all (\<lambda>a. length a = 32) admins \<Longrightarrow> length admins * 32 < 2 ^ 62 \<Longrightarrow>
   component_valid parse GROUP_ADMIN_POLICY_COMPONENT_ID bs"
  using decode_encoded_admins
  by (simp add: component_valid_def validate_app_component_update_def component_ids)

lemma creation_dict_valid:
  assumes "app_data_dictionary_extension_for_group parse required initial = Inr dict"
    and "bs_inv required" "is_utf8 (ics_name initial)" "is_utf8 (ics_description initial)"
    and "list_all (\<lambda>a. length a = 32) (ics_admins initial)" "length (ics_admins initial) * 32 < 2 ^ 62"
  shows "dict_valid parse dict"
proof -
  let ?d0 = "Map.empty(APP_COMPONENTS_COMPONENT_ID \<mapsto> encode_components_list required)"
  have d0: "dict_valid parse ?d0"
    using assms(2) by (intro dict_valid_upd components_list_valid) (simp_all add: bs_inv_iff)
  have d1: "dict_valid parse (?d0(GROUP_PROFILE_COMPONENT_ID \<mapsto> bs))"
    if "encode_group_profile (ics_name initial) (ics_description initial) = Inr bs" for bs
    using dict_valid_upd [OF d0 profile_valid [OF that assms(3,4)]] .
  note d2 = dict_valid_upd [OF _ empty_image_valid]
  note d3 = dict_valid_upd [OF _ admin_policy_valid [OF _ assms(5,6)]]
  show ?thesis
    using assms(1) d0 d1
    by (auto simp: app_data_dictionary_extension_for_group_def Let_def r_simps split: if_split_asm
          elim!: insert_initial_components_valid intro!: d2 d3)
qed


lemma creation_owned_entries:
  assumes "app_data_dictionary_extension_for_group parse required initial = Inr dict"
  shows "dict APP_COMPONENTS_COMPONENT_ID = Some (encode_components_list required)"
    and "acs_contains required GROUP_PROFILE_COMPONENT_ID \<Longrightarrow>
      \<exists>bs. dict GROUP_PROFILE_COMPONENT_ID = Some bs \<and>
        encode_group_profile (ics_name initial) (ics_description initial) = Inr bs"
    and "acs_contains required GROUP_ADMIN_POLICY_COMPONENT_ID \<Longrightarrow>
      \<exists>bs. dict GROUP_ADMIN_POLICY_COMPONENT_ID = Some bs \<and> encode_admin_policy (ics_admins initial) = Inr bs"
proof -
  obtain d where i: "insert_initial_components parse required (ics_app_components initial) [] d = Inr dict"
    and d: "d APP_COMPONENTS_COMPONENT_ID = Some (encode_components_list required)"
      "acs_contains required GROUP_PROFILE_COMPONENT_ID \<Longrightarrow>
        \<exists>bs. d GROUP_PROFILE_COMPONENT_ID = Some bs \<and>
          encode_group_profile (ics_name initial) (ics_description initial) = Inr bs"
      "acs_contains required GROUP_ADMIN_POLICY_COMPONENT_ID \<Longrightarrow>
        \<exists>bs. d GROUP_ADMIN_POLICY_COMPONENT_ID = Some bs \<and> encode_admin_policy (ics_admins initial) = Inr bs"
    using assms
    by (auto simp: app_data_dictionary_extension_for_group_def Let_def r_simps component_ids split: if_split_asm)
  note k = insert_initial_components_keeps [OF _ i]
  show "dict APP_COMPONENTS_COMPONENT_ID = Some (encode_components_list required)"
    using k [of APP_COMPONENTS_COMPONENT_ID] d(1) by simp
  show "acs_contains required GROUP_PROFILE_COMPONENT_ID \<Longrightarrow>
      \<exists>bs. dict GROUP_PROFILE_COMPONENT_ID = Some bs \<and>
        encode_group_profile (ics_name initial) (ics_description initial) = Inr bs"
    using k [of GROUP_PROFILE_COMPONENT_ID] d(2) by simp
  show "acs_contains required GROUP_ADMIN_POLICY_COMPONENT_ID \<Longrightarrow>
      \<exists>bs. dict GROUP_ADMIN_POLICY_COMPONENT_ID = Some bs \<and> encode_admin_policy (ics_admins initial) = Inr bs"
    using k [of GROUP_ADMIN_POLICY_COMPONENT_ID] d(3) by simp
qed

text \<open>
  C13: The dictionary a new group is created with is valid and says what was asked for.  If
  \<^const>\<open>app_data_dictionary_extension_for_group\<close> succeeds on an ordered set of required components,
  UTF-8 texts and 32-byte admin keys, every entry passes the check that a later update of that
  component has to pass, and the group's readers return the required components, the name and
  description, and the sorted admins without duplicates, whenever those components are required.
\<close>
theorem creation_state_self_validates:
  assumes "app_data_dictionary_extension_for_group parse required initial = Inr dict"
    and "bs_inv required" "is_utf8 (ics_name initial)" "is_utf8 (ics_description initial)"
    and "list_all (\<lambda>a. length a = 32) (ics_admins initial)" "length (ics_admins initial) * 32 < 2 ^ 62"
    and "mg_app_data g = Some dict"
  shows "(\<forall>i data. dict i = Some data \<longrightarrow>
           validate_app_component_update parse \<lparr> component_id = i, component_data = data \<rparr> = Inr ())
    \<and> required_app_components_of_group g = Inr required
    \<and> (acs_contains required GROUP_PROFILE_COMPONENT_ID \<longrightarrow>
         group_profile_of_group g = Inr (Some (ics_name initial, ics_description initial)))
    \<and> (acs_contains required GROUP_ADMIN_POLICY_COMPONENT_ID \<longrightarrow>
         admins_of_group g = Inr (remdups_adj (sort (ics_admins initial))))"
proof (intro conjI impI)
  show "\<forall>i data. dict i = Some data \<longrightarrow>
      validate_app_component_update parse \<lparr> component_id = i, component_data = data \<rparr> = Inr ()"
    using creation_dict_valid [OF assms(1-6)] by (simp add: dict_valid_def component_valid_def)
  note e = creation_owned_entries [OF assms(1)]
  have "bs_of_list required = required" using assms(2) by (intro bs_ext) simp_all
  then have "decode_components_list (encode_components_list required) = Inr required"
    using components_list_canonical [of "encode_components_list required" required] assms(2) bs_inv_iff by metis
  then show "required_app_components_of_group g = Inr required"
    using e(1) assms(7) by (simp add: required_app_components_of_group_def app_component_bytes_def)
  show "group_profile_of_group g = Inr (Some (ics_name initial, ics_description initial))"
    if r: "acs_contains required GROUP_PROFILE_COMPONENT_ID"
    using e(2) [OF r] assms(3,4,7) decode_group_profile_Inr [THEN iffD2]
    by (auto simp: group_profile_of_group_def app_component_bytes_def)
  show "admins_of_group g = Inr (remdups_adj (sort (ics_admins initial)))"
    if r: "acs_contains required GROUP_ADMIN_POLICY_COMPONENT_ID"
    using e(3) [OF r] assms(5-7) decode_encoded_admins by (auto simp: admins_of_group_def app_component_bytes_def)
qed

definition ex_initial :: InitialComponentState where
  "ex_initial = \<lparr> ics_name = ''team'', ics_description = [], ics_admins = [replicate 32 2, replicate 32 1],
     ics_app_components = [] \<rparr>"

definition ex_created_dict :: AppDataDictionary where
  "ex_created_dict = [APP_COMPONENTS_COMPONENT_ID \<mapsto> encode_components_list default_group_components,
     GROUP_PROFILE_COMPONENT_ID \<mapsto> [4, 0x74, 0x65, 0x61, 0x6d, 0],
     GROUP_ADMIN_POLICY_COMPONENT_ID \<mapsto> 0x40 # 0x40 # replicate 32 1 @ replicate 32 2]"

lemma ex_created:
  "app_data_dictionary_extension_for_group ex_parse default_group_components ex_initial = Inr ex_created_dict"
proof -
  have "encode_group_profile ''team'' [] = Inr [4, 0x74, 0x65, 0x61, 0x6d, 0]"
      "encode_admin_policy [replicate 32 2, replicate 32 1] = Inr (0x40 # 0x40 # replicate 32 1 @ replicate 32 2)"
      "acs_contains default_group_components GROUP_PROFILE_COMPONENT_ID"
      "acs_contains default_group_components GROUP_ADMIN_POLICY_COMPONENT_ID"
      "\<not> acs_contains default_group_components GROUP_BLOSSOM_IMAGE_COMPONENT_ID"
    by code_simp+
  then show ?thesis
    by (simp add: app_data_dictionary_extension_for_group_def ex_initial_def ex_created_dict_def Let_def)
qed

theorem creation_state_self_validates_witness:
  "admins_of_group \<lparr> mg_group_id = [], mg_required_capabilities = [], mg_app_data = Some ex_created_dict,
     mg_members = [] \<rparr> = Inr [replicate 32 1, replicate 32 2]"
proof -
  let ?g = "\<lparr> mg_group_id = [], mg_required_capabilities = [], mg_app_data = Some ex_created_dict, mg_members = [] \<rparr>"
  have h: "bs_inv default_group_components" "is_utf8 (ics_name ex_initial)" "is_utf8 (ics_description ex_initial)"
      "list_all (\<lambda>a. length a = 32) (ics_admins ex_initial)"
      "acs_contains default_group_components GROUP_ADMIN_POLICY_COMPONENT_ID"
      "remdups_adj (sort (ics_admins ex_initial)) = [replicate 32 1, replicate 32 2]"
    by code_simp+
  have "length (ics_admins ex_initial) * 32 < 2 ^ 62" by (simp add: ex_initial_def)
  from creation_state_self_validates [OF ex_created h(1-4) this, of ?g] h(5,6) show ?thesis by simp
qed

end
