(* ===== verification/Account_Identity.thy ===== *)
theory Account_Identity
  imports Engine_App_Components
begin

text \<open>
  The account identity proof that binds an MLS leaf to a Marmot account
  (\<^verbatim>\<open>crates/cgka-engine/src/account_identity_proof.rs\<close>) and the identity checks of
  \<^verbatim>\<open>crates/cgka-engine/src/identity.rs\<close>.  The curve, signature and hash functions of \<^verbatim>\<open>k256\<close> and
  \<^verbatim>\<open>sha2\<close> and the tables of OpenMLS are the fields of a record that every operation takes.
\<close>

section \<open>External functions\<close>

record Crypto =
  ck_valid_key :: "bytes \<Rightarrow> bool"
  ck_valid_signature :: "bytes \<Rightarrow> bool"
  ck_verify_prehash :: "bytes \<Rightarrow> bytes \<Rightarrow> bytes \<Rightarrow> bool"
  ck_sha256 :: "bytes \<Rightarrow> bytes"
  ck_signature_algorithm :: "u16 \<Rightarrow> u16"
  ck_credential_error :: string

section \<open>Credential identities\<close>

definition validate_credential_identity :: "Crypto \<Rightarrow> bytes \<Rightarrow> EngineError + unit" where
  "validate_credential_identity ck identity =
     (if length identity \<noteq> 32
      then Inl (InvalidCredentialIdentity
             (''credential identity must be exactly 32 bytes; got '' @ dec_string (length identity)))
      else if \<not> ck_valid_key ck identity
      then Inl (InvalidCredentialIdentity ''credential identity is not a valid x-only secp256k1 public key'')
      else Inr ())"

definition basic_identity :: "Crypto \<Rightarrow> bytes option \<Rightarrow> EngineError + bytes" where
  "basic_identity ck credential =
     (case credential of
        None \<Rightarrow> Inl (InvalidCredentialIdentity (''not a BasicCredential: '' @ ck_credential_error ck))
      | Some identity \<Rightarrow> Inr identity)"

definition validated_member_id :: "Crypto \<Rightarrow> bytes option \<Rightarrow> EngineError + MemberId" where
  "validated_member_id ck credential =
     r_bind (basic_identity ck credential) (\<lambda>identity.
     r_bind (validate_credential_identity ck identity) (\<lambda>_. Inr identity))"

definition validated_member_id_of_leaf :: "Crypto \<Rightarrow> LeafNode \<Rightarrow> EngineError + MemberId" where
  "validated_member_id_of_leaf ck leaf = validated_member_id ck (ln_identity leaf)"

definition member_id_at_leaf :: "Crypto \<Rightarrow> MlsGroup \<Rightarrow> u32 \<Rightarrow> MemberId option" where
  "member_id_at_leaf ck mls_group leaf_idx =
     (case member_at mls_group leaf_idx of
        None \<Rightarrow> None
      | Some member \<Rightarrow> (case validated_member_id ck (mm_identity member) of Inl _ \<Rightarrow> None | Inr i \<Rightarrow> Some i))"

fun validated_sender_id :: "Crypto \<Rightarrow> Sender \<Rightarrow> MlsGroup \<Rightarrow> MemberId option" where
  "validated_sender_id ck (SenderMember leaf_idx) mls_group = member_id_at_leaf ck mls_group leaf_idx"
| "validated_sender_id ck _ mls_group = None"

section \<open>Proof requests\<close>

definition ACCOUNT_IDENTITY_PROOF_EXTENSION_TYPE :: u16 where "ACCOUNT_IDENTITY_PROOF_EXTENSION_TYPE = 0xF2F1"
definition ACCOUNT_IDENTITY_PROOF_VERSION :: u8 where "ACCOUNT_IDENTITY_PROOF_VERSION = 1"
definition ACCOUNT_IDENTITY_PROOF_DOMAIN :: bytes where
  "ACCOUNT_IDENTITY_PROOF_DOMAIN = as_bytes ''marmot.account-identity-proof.v1''"
definition SCHNORR_SIGNATURE_LEN :: nat where "SCHNORR_SIGNATURE_LEN = 64"

record AccountIdentityProofRequest =
  account_identity :: bytes
  mls_signature_public_key :: bytes
  pr_ciphersuite :: u16
  signature_scheme :: u16

definition proof_request_new :: "bytes \<Rightarrow> bytes \<Rightarrow> u16 \<Rightarrow> u16 \<Rightarrow> AccountIdentityProofRequest" where
  "proof_request_new identity key cs scheme =
     \<lparr> account_identity = identity, mls_signature_public_key = key, pr_ciphersuite = cs, signature_scheme = scheme \<rparr>"

text \<open>The two length fields are the low 16 bits of the lengths, as the cast \<^verbatim>\<open>as u16\<close> leaves them.\<close>

definition canonical_message :: "AccountIdentityProofRequest \<Rightarrow> bytes" where
  "canonical_message r =
     ACCOUNT_IDENTITY_PROOF_DOMAIN @ [0] @ to_be_bytes 2 ACCOUNT_IDENTITY_PROOF_EXTENSION_TYPE
     @ [ACCOUNT_IDENTITY_PROOF_VERSION] @ to_be_bytes 2 (pr_ciphersuite r) @ to_be_bytes 2 (signature_scheme r)
     @ to_be_bytes 2 (of_nat (length (account_identity r)) :: u16) @ account_identity r
     @ to_be_bytes 2 (of_nat (length (mls_signature_public_key r)) :: u16) @ mls_signature_public_key r"

definition signing_digest :: "Crypto \<Rightarrow> AccountIdentityProofRequest \<Rightarrow> bytes" where
  "signing_digest ck r = ck_sha256 ck (canonical_message r)"

record AccountIdentityProof =
  proof_request :: AccountIdentityProofRequest
  proof_signature :: bytes

section \<open>The extension codec\<close>

definition encode_proof :: "AccountIdentityProof \<Rightarrow> bytes" where
  "encode_proof p =
     [ACCOUNT_IDENTITY_PROOF_VERSION] @ to_be_bytes 2 (pr_ciphersuite (proof_request p))
     @ to_be_bytes 2 (signature_scheme (proof_request p)) @ account_identity (proof_request p)
     @ to_be_bytes 2 (of_nat (length (mls_signature_public_key (proof_request p))) :: u16)
     @ mls_signature_public_key (proof_request p) @ proof_signature p"

definition read_exact :: "bytes \<Rightarrow> nat \<Rightarrow> string \<Rightarrow> EngineError + (bytes \<times> bytes)" where
  "read_exact cursor len field =
     (if length cursor < len then Inl (InvalidAccountIdentityProof (''proof '' @ field @ '' is truncated''))
      else Inr (take len cursor, drop len cursor))"

definition read_u8 :: "bytes \<Rightarrow> string \<Rightarrow> EngineError + (u8 \<times> bytes)" where
  "read_u8 cursor field =
     (case cursor of
        [] \<Rightarrow> Inl (InvalidAccountIdentityProof (''proof missing '' @ field))
      | value # rest \<Rightarrow> Inr (value, rest))"

definition read_u16 :: "bytes \<Rightarrow> string \<Rightarrow> EngineError + (u16 \<times> bytes)" where
  "read_u16 cursor field =
     r_bind (read_exact cursor 2 field) (\<lambda>(bytes, rest). Inr (from_be_bytes bytes, rest))"

definition decode_proof :: "bytes \<Rightarrow> EngineError + AccountIdentityProof" where
  "decode_proof bytes =
     r_bind (read_u8 bytes ''version'') (\<lambda>(version, cursor).
     if version \<noteq> ACCOUNT_IDENTITY_PROOF_VERSION
     then Inl (InvalidAccountIdentityProof (''unsupported proof version '' @ dec_string (unat version)))
     else r_bind (read_u16 cursor ''ciphersuite'') (\<lambda>(cs, cursor).
       r_bind (read_u16 cursor ''signature scheme'') (\<lambda>(scheme, cursor).
       r_bind (read_exact cursor 32 ''account identity'') (\<lambda>(identity, cursor).
       r_bind (read_u16 cursor ''MLS signature key length'') (\<lambda>(key_len, cursor).
       r_bind (read_exact cursor (unat key_len) ''MLS signature public key'') (\<lambda>(key, cursor).
       r_bind (read_exact cursor SCHNORR_SIGNATURE_LEN ''signature'') (\<lambda>(signature_bytes, cursor).
         if cursor \<noteq> [] then Inl (InvalidAccountIdentityProof ''proof has trailing bytes'')
         else Inr \<lparr> proof_request = proof_request_new identity key cs scheme,
                    proof_signature = signature_bytes \<rparr>)))))))"

definition account_identity_proof_extension ::
  "(AccountIdentityProofRequest \<Rightarrow> string + bytes) \<Rightarrow> bytes \<Rightarrow> bytes \<Rightarrow> u16 \<Rightarrow> u16 \<Rightarrow> EngineError + (u16 \<times> bytes)" where
  "account_identity_proof_extension sign identity key cs scheme =
     (let request = proof_request_new identity key cs scheme in
      r_bind (r_map_err (\<lambda>e. InvalidAccountIdentityProof (''signing failed: '' @ e)) (sign request)) (\<lambda>signature.
        Inr (ACCOUNT_IDENTITY_PROOF_EXTENSION_TYPE,
             encode_proof \<lparr> proof_request = request, proof_signature = signature \<rparr>)))"

section \<open>Leaf validation\<close>

definition check_proof :: "Crypto \<Rightarrow> bytes \<Rightarrow> LeafNode \<Rightarrow> u16 \<Rightarrow> AccountIdentityProof \<Rightarrow> EngineError + unit" where
  "check_proof ck identity leaf cs p =
     (if account_identity (proof_request p) \<noteq> identity
      then Inl (InvalidAccountIdentityProof ''proof account identity does not match credential identity'')
      else if mls_signature_public_key (proof_request p) \<noteq> ln_signature_key leaf
      then Inl (InvalidAccountIdentityProof ''proof MLS signature key does not match leaf signature key'')
      else if pr_ciphersuite (proof_request p) \<noteq> cs
      then Inl (InvalidAccountIdentityProof ''proof ciphersuite does not match expected ciphersuite'')
      else if signature_scheme (proof_request p) \<noteq> ck_signature_algorithm ck cs
      then Inl (InvalidAccountIdentityProof ''proof signature scheme does not match ciphersuite'')
      else if \<not> ck_valid_key ck identity
      then Inl (InvalidCredentialIdentity ''credential identity is not a valid x-only secp256k1 public key'')
      else if \<not> ck_valid_signature ck (proof_signature p)
      then Inl (InvalidAccountIdentityProof ''proof signature is not a BIP-340 signature'')
      else if \<not> ck_verify_prehash ck identity (signing_digest ck (proof_request p)) (proof_signature p)
      then Inl (InvalidAccountIdentityProof ''proof signature does not verify for credential identity'')
      else Inr ())"

definition validate_leaf_account_identity_proof :: "Crypto \<Rightarrow> LeafNode \<Rightarrow> u16 \<Rightarrow> EngineError + unit" where
  "validate_leaf_account_identity_proof ck leaf cs =
     r_bind (basic_identity ck (ln_identity leaf)) (\<lambda>identity.
     r_bind (validate_credential_identity ck identity) (\<lambda>_.
       case ln_unknown leaf ACCOUNT_IDENTITY_PROOF_EXTENSION_TYPE of
         None \<Rightarrow> Inl (InvalidAccountIdentityProof ''missing marmot.account-identity-proof.v1 LeafNode extension'')
       | Some raw \<Rightarrow> r_bind (decode_proof raw) (\<lambda>p. check_proof ck identity leaf cs p)))"

definition validate_leaf_account_identity_proof_for_member ::
  "Crypto \<Rightarrow> LeafNode \<Rightarrow> u16 \<Rightarrow> MemberId \<Rightarrow> string \<Rightarrow> EngineError + unit" where
  "validate_leaf_account_identity_proof_for_member ck leaf cs expected context_label =
     r_bind (validated_member_id_of_leaf ck leaf) (\<lambda>actual.
     r_bind (validate_leaf_account_identity_proof ck leaf cs) (\<lambda>_.
       if actual \<noteq> expected
       then Inl (InvalidAccountIdentityProof
              (context_label @ '' credential identity does not match existing member identity''))
       else Inr ()))"

section \<open>Staged commits\<close>

fun validate_add_leaves :: "Crypto \<Rightarrow> u16 \<Rightarrow> LeafNode list \<Rightarrow> MemberId list \<Rightarrow> EngineError + MemberId list" where
  "validate_add_leaves ck cs [] added = Inr added"
| "validate_add_leaves ck cs (leaf # rest) added =
     r_bind (validate_leaf_account_identity_proof ck leaf cs) (\<lambda>_.
     r_bind (validated_member_id_of_leaf ck leaf) (\<lambda>i. validate_add_leaves ck cs rest (added @ [i])))"

fun validate_update_leaves :: "Crypto \<Rightarrow> MlsGroup \<Rightarrow> u16 \<Rightarrow> (LeafNode \<times> Sender) list \<Rightarrow> EngineError + unit" where
  "validate_update_leaves ck mls_group cs [] = Inr ()"
| "validate_update_leaves ck mls_group cs ((leaf, sender) # rest) =
     (case validated_sender_id ck sender mls_group of
        None \<Rightarrow> Inl (InvalidAccountIdentityProof ''Update proposal has no authenticated member sender'')
      | Some expected \<Rightarrow>
          r_bind (validate_leaf_account_identity_proof_for_member ck leaf cs expected ''Update proposal'')
            (\<lambda>_. validate_update_leaves ck mls_group cs rest))"

definition validate_staged_commit_account_identity_proofs ::
  "Crypto \<Rightarrow> StagedCommit \<Rightarrow> MlsGroup \<Rightarrow> MemberId \<Rightarrow> u16 \<Rightarrow> EngineError + MemberId list" where
  "validate_staged_commit_account_identity_proofs ck staged mls_group committer cs =
     r_bind (validate_add_leaves ck cs (sc_add_leaves staged) []) (\<lambda>added.
     r_bind (validate_update_leaves ck mls_group cs (sc_update_proposals staged)) (\<lambda>_.
     r_bind (case sc_update_path_leaf staged of
               None \<Rightarrow> Inr ()
             | Some leaf \<Rightarrow>
                 validate_leaf_account_identity_proof_for_member ck leaf cs committer ''commit update path'') (\<lambda>_.
       Inr added)))"

section \<open>Codec laws\<close>

lemma read_exact_Inr: "read_exact bs n field = Inr (x, r) \<longleftrightarrow> length x = n \<and> bs = x @ r"
  by (auto simp: read_exact_def)

lemma read_u8_Inr: "read_u8 bs field = Inr (v, r) \<longleftrightarrow> bs = v # r"
  by (auto simp: read_u8_def split: list.splits)

lemma read_u16_Inr: "read_u16 bs field = Inr (w, r) \<longleftrightarrow> bs = to_be_bytes 2 w @ r"
proof -
  have "length x = 2 \<Longrightarrow> to_be_bytes 2 (from_be_bytes x :: u16) = x" for x
    by (rule to_be_from_be_bytes) simp_all
  moreover have "from_be_bytes (to_be_bytes 2 w) = w" by (rule from_be_to_be_bytes) simp
  moreover have "length (to_be_bytes 2 w) = 2" by (rule length_to_be_bytes)
  ultimately show ?thesis unfolding read_u16_def r_bind_Inr by (force simp: read_exact_Inr)
qed

interpretation u16c: prefix_codec "to_be_bytes 2 :: u16 \<Rightarrow> bytes" "\<lambda>bs. read_u16 bs field" "\<lambda>_. True"
  for field
proof unfold_locales
  show "to_be_bytes 2 x \<noteq> []" for x :: u16 using length_to_be_bytes [of 2 x] by fastforce
qed (simp_all add: read_u16_Inr)

definition request_wf :: "AccountIdentityProofRequest \<Rightarrow> bool" where
  "request_wf r \<longleftrightarrow> length (account_identity r) < 65536 \<and> length (mls_signature_public_key r) < 65536"

definition proof_wf :: "AccountIdentityProof \<Rightarrow> bool" where
  "proof_wf p \<longleftrightarrow> length (account_identity (proof_request p)) = 32
     \<and> length (mls_signature_public_key (proof_request p)) < 65536 \<and> length (proof_signature p) = SCHNORR_SIGNATURE_LEN"

lemma unat_of_nat_u16: "n < 65536 \<Longrightarrow> unat (of_nat n :: u16) = n"
  by (simp add: unsigned_of_nat take_bit_nat_eq_self)

lemma unat_u16_lt: "unat (w :: u16) < 65536"
  using unsigned_less [of w] by simp

lemma decode_proof_sound:
  assumes "decode_proof bs = Inr p"
  shows "proof_wf p \<and> bs = encode_proof p"
proof -
  obtain cs scheme n :: u16 and i key sig :: bytes where b: "bs = ACCOUNT_IDENTITY_PROOF_VERSION # to_be_bytes 2 cs @ to_be_bytes 2 scheme
        @ i @ to_be_bytes 2 n @ key @ sig"
      and l: "length i = 32" "length key = unat n" "length sig = SCHNORR_SIGNATURE_LEN"
      and p: "p = \<lparr> proof_request = proof_request_new i key cs scheme, proof_signature = sig \<rparr>"
    using assms by (auto simp: decode_proof_def r_simps read_u8_Inr read_u16_Inr read_exact_Inr)
  have "of_nat (length key) = n" "length key < 65536" using l(2) unat_u16_lt [of n] by simp_all
  then show ?thesis using b l p by (simp add: proof_wf_def encode_proof_def proof_request_new_def)
qed

lemma decode_proof_complete:
  assumes "proof_wf p"
  shows "decode_proof (encode_proof p) = Inr p"
proof -
  let ?r = "proof_request p"
  let ?n = "of_nat (length (mls_signature_public_key ?r)) :: u16"
  have n: "unat ?n = length (mls_signature_public_key ?r)"
    using assms by (intro unat_of_nat_u16) (simp add: proof_wf_def)
  have x: "read_exact (x @ r) m field = Inr (x, r)" if "length x = m" for x r m field
    using that by (simp add: read_exact_def)
  have i: "length (account_identity ?r) = 32" "length (proof_signature p) = SCHNORR_SIGNATURE_LEN"
    using assms by (simp_all add: proof_wf_def)
  have e: "encode_proof p = ACCOUNT_IDENTITY_PROOF_VERSION # to_be_bytes 2 (pr_ciphersuite ?r)
      @ to_be_bytes 2 (signature_scheme ?r) @ account_identity ?r @ to_be_bytes 2 ?n
      @ mls_signature_public_key ?r @ proof_signature p @ []"
    by (simp only: encode_proof_def append_Cons append_Nil append_Nil2)
  have eq: "\<lparr> proof_request = proof_request_new (account_identity ?r) (mls_signature_public_key ?r)
      (pr_ciphersuite ?r) (signature_scheme ?r), proof_signature = proof_signature p \<rparr> = p"
    by (simp add: proof_request_new_def)
  show ?thesis
    unfolding decode_proof_def e
    using x [OF i(1)] x [OF n [symmetric]] x [OF i(2), of "[]"] eq
    by (simp add: read_u8_def u16c.dec_enc del: append_Nil2)
qed

interpretation proof_codec: canonical_codec "\<lambda>p. Inr (encode_proof p) :: EngineError + bytes" decode_proof
  by unfold_locales (use decode_proof_sound in blast)

lemma canonical_message_inj:
  assumes "request_wf r" "request_wf s" "canonical_message r = canonical_message s"
  shows "r = s"
proof -
  note e = assms(3) [unfolded canonical_message_def append_assoc same_append_eq]
  note e1 = e [THEN u16c.enc_append_eqD [OF TrueI TrueI]]
  note e2 = e1 [THEN conjunct2, THEN u16c.enc_append_eqD [OF TrueI TrueI]]
  note e3 = e2 [THEN conjunct2, THEN u16c.enc_append_eqD [OF TrueI TrueI]]
  have li: "length (account_identity r) = length (account_identity s)"
    using e3 assms(1,2) unat_of_nat_u16 unfolding request_wf_def by metis
  then have ei: "account_identity r = account_identity s"
      and rest: "to_be_bytes 2 (of_nat (length (mls_signature_public_key r)) :: u16) @ mls_signature_public_key r
        = to_be_bytes 2 (of_nat (length (mls_signature_public_key s)) :: u16) @ mls_signature_public_key s"
    using e3 [THEN conjunct2] by (simp_all add: append_eq_append_conv)
  have "mls_signature_public_key r = mls_signature_public_key s"
    using u16c.enc_append_eqD [OF TrueI TrueI rest] by blast
  then show ?thesis using ei e1 e2 by simp
qed


text \<open>
  C28: The account identity proof has one encoding.  \<^const>\<open>decode_proof\<close> returns a proof exactly for
  the bytes \<^const>\<open>encode_proof\<close> writes for it, and then the identity has 32 bytes, the signature 64,
  and the key length fits its 16-bit field; truncated, extended or re-framed extensions are rejected.
\<close>
theorem identity_proof_codec_canonical:
  "decode_proof bs = Inr p \<longleftrightarrow>
     bs = encode_proof p \<and> length (account_identity (proof_request p)) = 32
     \<and> length (mls_signature_public_key (proof_request p)) < 65536 \<and> length (proof_signature p) = 64"
  using decode_proof_sound [of bs p] decode_proof_complete [of p] by (auto simp: proof_wf_def SCHNORR_SIGNATURE_LEN_def)

section \<open>What an accepted leaf proves\<close>

lemma basic_identity_Inr: "basic_identity ck c = Inr i \<longleftrightarrow> c = Some i"
  by (auto simp: basic_identity_def split: option.splits)

lemma validate_credential_identity_Inr:
  "validate_credential_identity ck i = Inr u \<longleftrightarrow> length i = 32 \<and> ck_valid_key ck i"
  by (simp add: validate_credential_identity_def)

lemma validated_member_id_Inr:
  "validated_member_id ck c = Inr i \<longleftrightarrow> c = Some i \<and> length i = 32 \<and> ck_valid_key ck i"
  by (auto simp: validated_member_id_def r_simps basic_identity_Inr validate_credential_identity_Inr)

lemma member_id_at_leaf_Some:
  "member_id_at_leaf ck g idx = Some i \<longleftrightarrow>
     (\<exists>m. member_at g idx = Some m \<and> mm_identity m = Some i \<and> length i = 32 \<and> ck_valid_key ck i)"
proof (cases "member_at g idx")
  case (Some m)
  then show ?thesis
    using validated_member_id_Inr [of ck "mm_identity m" i]
    by (cases "validated_member_id ck (mm_identity m)") (auto simp: member_id_at_leaf_def)
qed (simp add: member_id_at_leaf_def)

definition leaf_request :: "Crypto \<Rightarrow> LeafNode \<Rightarrow> u16 \<Rightarrow> bytes \<Rightarrow> AccountIdentityProofRequest" where
  "leaf_request ck leaf cs identity =
     proof_request_new identity (ln_signature_key leaf) cs (ck_signature_algorithm ck cs)"

lemma validate_leaf_Inr:
  assumes "validate_leaf_account_identity_proof ck leaf cs = Inr u"
  obtains i sig where "ln_identity leaf = Some i" "length i = 32" "length (ln_signature_key leaf) < 65536"
    "ck_verify_prehash ck i (signing_digest ck (leaf_request ck leaf cs i)) sig"
proof -
  obtain i raw p where i: "ln_identity leaf = Some i" "length i = 32" and p: "decode_proof raw = Inr p"
      and c: "check_proof ck i leaf cs p = Inr ()"
    using assms by (auto simp: validate_leaf_account_identity_proof_def r_simps basic_identity_Inr
        validate_credential_identity_Inr split: option.splits)
  have "proof_request p = leaf_request ck leaf cs i"
      and v: "ck_verify_prehash ck i (signing_digest ck (proof_request p)) (proof_signature p)"
      and k: "mls_signature_public_key (proof_request p) = ln_signature_key leaf"
    using c by (auto simp: check_proof_def leaf_request_def proof_request_new_def split: if_split_asm)
  moreover have "length (mls_signature_public_key (proof_request p)) < 65536"
    using decode_proof_sound [OF p] by (simp add: proof_wf_def)
  ultimately show ?thesis using that [of i "proof_signature p"] i by simp
qed

text \<open>
  What an account key signs.  Besides account identity proofs, whose preimages are canonical messages
  of the requests in \<open>issued account\<close>, the same key signs other preimages, such as the Nostr event
  serialization \<^verbatim>\<open>[0, pubkey, ...]\<close> of the media upload events; they are \<open>other account\<close>.
\<close>

definition signed_messages ::
  "(bytes \<Rightarrow> AccountIdentityProofRequest set) \<Rightarrow> (bytes \<Rightarrow> bytes set) \<Rightarrow> bytes \<Rightarrow> bytes set" where
  "signed_messages issued other account = canonical_message ` issued account \<union> other account"

text \<open>Unforgeability: what verifies under an account key is the digest of a message it signed.\<close>

definition signatures_unforgeable :: "Crypto \<Rightarrow> (bytes \<Rightarrow> bytes set) \<Rightarrow> bool" where
  "signatures_unforgeable ck messages \<longleftrightarrow>
     (\<forall>account digest sig. ck_verify_prehash ck account digest sig \<longrightarrow>
        (\<exists>m \<in> messages account. digest = ck_sha256 ck m))"

text \<open>Other uses of the key stay out of the domain that \<^verbatim>\<open>account-identity-proof-v1.md\<close> reserves.\<close>

definition domain_reserved :: "(bytes \<Rightarrow> bytes set) \<Rightarrow> bool" where
  "domain_reserved other \<longleftrightarrow>
     (\<forall>account. \<forall>m \<in> other account. \<forall>rest. m \<noteq> as_bytes ''marmot.account-identity-proof.v1'' @ [0] @ rest)"

lemma canonical_message_domain:
  "\<exists>rest. canonical_message r = as_bytes ''marmot.account-identity-proof.v1'' @ [0] @ rest"
  unfolding canonical_message_def ACCOUNT_IDENTITY_PROOF_DOMAIN_def by blast

text \<open>
  C5: A leaf that passes the proof check was authorized by its account.  Suppose signatures cannot be
  forged: whatever verifies under an account key is the digest of some message that account signed, be
  it the canonical message of a proof request (with both lengths below 65536) or any other message that
  does not begin with the reserved domain tag.  Then either the account named by the leaf's credential
  signed a request that names exactly this account, this leaf's signature key, this ciphersuite and its
  signature scheme, or one of the messages it signed collides under SHA-256 with the canonical message
  of that request.  A proof can therefore not be moved to another leaf key or another account, and
  nothing else the account signs passes for a proof.
\<close>
theorem accepted_leaf_authorized:
  assumes "validate_leaf_account_identity_proof ck leaf cs = Inr ()"
    and "signatures_unforgeable ck (signed_messages issued other)"
    and "domain_reserved other"
    and "\<forall>account. \<forall>r \<in> issued account. length (account_identity r) < 65536 \<and> length (mls_signature_public_key r) < 65536"
  shows "\<exists>account request. ln_identity leaf = Some account \<and> length account = 32 \<and>
    request = proof_request_new account (ln_signature_key leaf) cs (ck_signature_algorithm ck cs) \<and>
    (request \<in> issued account \<or>
     (\<exists>m \<in> signed_messages issued other account.
        m \<noteq> canonical_message request \<and> ck_sha256 ck m = ck_sha256 ck (canonical_message request)))"
proof -
  obtain i sig where i: "ln_identity leaf = Some i" "length i = 32" "length (ln_signature_key leaf) < 65536"
      and v: "ck_verify_prehash ck i (signing_digest ck (leaf_request ck leaf cs i)) sig"
    using validate_leaf_Inr [OF assms(1)] .
  let ?r = "leaf_request ck leaf cs i"
  obtain m where m: "m \<in> signed_messages issued other i" "signing_digest ck ?r = ck_sha256 ck m"
    using assms(2) v unfolding signatures_unforgeable_def by blast
  have "?r \<in> issued i" if e: "m = canonical_message ?r"
  proof -
    have "m \<notin> other i" using canonical_message_domain [of ?r] assms(3) e unfolding domain_reserved_def by blast
    then obtain r where r: "r \<in> issued i" "canonical_message ?r = canonical_message r"
      using m(1) e unfolding signed_messages_def by auto
    moreover have "request_wf ?r" "request_wf r"
      using i r(1) assms(4) by (simp_all add: request_wf_def leaf_request_def proof_request_new_def)
    ultimately show ?thesis using canonical_message_inj [of ?r r] by simp
  qed
  then have "?r \<in> issued i \<or> (\<exists>m \<in> signed_messages issued other i. m \<noteq> canonical_message ?r \<and>
      ck_sha256 ck m = ck_sha256 ck (canonical_message ?r))"
    using m unfolding signing_digest_def by auto
  then show ?thesis using i unfolding leaf_request_def by blast
qed

definition ex_account :: bytes where "ex_account = replicate 32 1"

definition ex_request :: AccountIdentityProofRequest where
  "ex_request = proof_request_new ex_account [9, 9] 1 0x0807"

text \<open>An account that signed a proof request and the serialization of a Nostr event; the hash is injective.\<close>

definition ex_event :: bytes where "ex_event = as_bytes ''[0,]''"

definition ex_crypto :: Crypto where
  "ex_crypto = \<lparr> ck_valid_key = (\<lambda>k. True), ck_valid_signature = (\<lambda>s. True),
     ck_verify_prehash = (\<lambda>k d s. k = ex_account \<and> (d = canonical_message ex_request \<or> d = ex_event)),
     ck_sha256 = (\<lambda>m. m), ck_signature_algorithm = (\<lambda>c. 0x0807), ck_credential_error = [] \<rparr>"

definition ex_leaf :: LeafNode where
  "ex_leaf = \<lparr> ln_identity = Some ex_account, ln_signature_key = [9, 9],
     ln_unknown = [ACCOUNT_IDENTITY_PROOF_EXTENSION_TYPE \<mapsto>
       encode_proof \<lparr> proof_request = ex_request, proof_signature = replicate 64 5 \<rparr>],
     ln_app_data = None, ln_cap_extensions = [], ln_cap_proposals = [] \<rparr>"

lemma ex_leaf_valid: "validate_leaf_account_identity_proof ex_crypto ex_leaf 1 = Inr ()"
  by code_simp

definition ex_issued :: "bytes \<Rightarrow> AccountIdentityProofRequest set" where
  "ex_issued a = (if a = ex_account then {ex_request} else {})"

definition ex_other :: "bytes \<Rightarrow> bytes set" where
  "ex_other a = (if a = ex_account then {ex_event} else {})"

lemma ex_other_reserved: "domain_reserved ex_other"
  unfolding domain_reserved_def ex_other_def by (auto simp: ex_event_def as_bytes_def)

lemma ex_unforgeable: "signatures_unforgeable ex_crypto (signed_messages ex_issued ex_other)"
  by (simp add: signatures_unforgeable_def signed_messages_def ex_crypto_def ex_issued_def ex_other_def)

theorem accepted_leaf_authorized_witness:
  "validate_leaf_account_identity_proof ex_crypto ex_leaf 1 = Inr () \<and>
   (\<exists>account. ln_identity ex_leaf = Some account \<and> length account = 32 \<and>
      proof_request_new account [9, 9] 1 0x0807 \<in> ex_issued account)"
proof -
  have "\<forall>account. \<forall>r \<in> ex_issued account.
      length (account_identity r) < 65536 \<and> length (mls_signature_public_key r) < 65536"
    by (simp add: ex_issued_def ex_request_def proof_request_new_def ex_account_def)
  from accepted_leaf_authorized [OF ex_leaf_valid ex_unforgeable ex_other_reserved this] show ?thesis
    using ex_leaf_valid by (auto simp: ex_crypto_def ex_leaf_def)
qed

end
