(* ===== verification/Capabilities.thy ===== *)
theory Capabilities
  imports Account_Identity "HOL-Library.AList"
begin

text \<open>
  Capability negotiation: the feature registry (\<^verbatim>\<open>crates/cgka-engine/src/feature_registry.rs\<close>), the
  translation of features into advertised and required capabilities (\<^verbatim>\<open>capabilities.rs\<close>), the capability
  cache and feature status (\<^verbatim>\<open>capability_manager.rs\<close>), the checks that group creation, invitation and
  joining apply to key packages (\<^verbatim>\<open>group_lifecycle.rs\<close>, \<^verbatim>\<open>message_processor/send.rs\<close>,
  \<^verbatim>\<open>key_package.rs\<close>), and the upgrade of required capabilities (\<^verbatim>\<open>upgrade.rs\<close>).

  Extension and proposal types are their 16-bit codes.  The codes and the order that OpenMLS gives its own
  types, and the parsing and validation of key packages, are fields of a record.
\<close>

section \<open>External functions\<close>

datatype MlsMessageBodyIn = BodyKeyPackage bytes | BodyOther

record Mls =
  mt_required_capabilities :: u16
  mt_app_data_dictionary :: u16
  mt_last_resort :: u16
  mt_app_data_update :: u16
  mt_is_grease :: "u16 \<Rightarrow> bool"
  mt_extension_rank :: "u16 \<Rightarrow> nat"
  mt_proposal_rank :: "u16 \<Rightarrow> nat"
  mt_deserialize :: "bytes \<Rightarrow> string + MlsMessageBodyIn"
  mt_validate :: "bytes \<Rightarrow> string + LeafNode"

section \<open>The feature registry\<close>

text \<open>The hash map of features is an association list; its order stands for the order of iteration.\<close>

record FeatureRegistry =
  fr_features :: "(Feature \<times> CapabilityRequirement) list"

definition registry_new :: FeatureRegistry where
  "registry_new = \<lparr> fr_features = [] \<rparr>"

definition register :: "Feature \<Rightarrow> CapabilityRequirement \<Rightarrow> FeatureRegistry \<Rightarrow> FeatureRegistry" where
  "register feature req registry = registry \<lparr> fr_features := AList.update feature req (fr_features registry) \<rparr>"

definition registry_get :: "FeatureRegistry \<Rightarrow> Feature \<Rightarrow> CapabilityRequirement option" where
  "registry_get registry feature = map_of (fr_features registry) feature"

definition require_step :: "TransportKind list \<Rightarrow> Feature \<times> CapabilityRequirement \<Rightarrow> GroupCapabilities \<Rightarrow> GroupCapabilities" where
  "require_step active_transports entry out =
     (case cr_level (snd entry) of
        Required \<Rightarrow> gc_insert (cr_requires (snd entry)) out
      | TransportRequired transport \<Rightarrow>
          if transport \<in> set active_transports then gc_insert (cr_requires (snd entry)) out else out
      | Optional \<Rightarrow> out)"

definition required_for_transports :: "FeatureRegistry \<Rightarrow> TransportKind list \<Rightarrow> GroupCapabilities" where
  "required_for_transports registry active_transports =
     fold (require_step active_transports) (fr_features registry) gc_default"

section \<open>Advertised and required capabilities\<close>

record Capabilities =
  cap_ciphersuites :: "u16 list"
  cap_extensions :: "u16 list"
  cap_proposals :: "u16 list"

definition leaf_step :: "Feature \<times> CapabilityRequirement \<Rightarrow> u16 list \<times> u16 list \<Rightarrow> u16 list \<times> u16 list" where
  "leaf_step entry types =
     (case cr_requires (snd entry) of
        CapExtension t \<Rightarrow> (fst types @ [t], snd types)
      | CapProposal t \<Rightarrow> (fst types, snd types @ [t])
      | CapAppComponent _ \<Rightarrow> types)"

definition leaf_capabilities :: "Mls \<Rightarrow> FeatureRegistry \<Rightarrow> u16 \<Rightarrow> Capabilities" where
  "leaf_capabilities M registry ciphersuite =
     (let (ext_types, proposal_types) =
        fold leaf_step (fr_features registry)
          ([mt_required_capabilities M, mt_app_data_dictionary M, mt_last_resort M,
            ACCOUNT_IDENTITY_PROOF_EXTENSION_TYPE], [mt_app_data_update M])
      in \<lparr> cap_ciphersuites = [ciphersuite],
           cap_extensions = remdups_adj (sort_key (mt_extension_rank M) ext_types),
           cap_proposals = remdups_adj (sort_key (mt_proposal_rank M) proposal_types) \<rparr>)"

definition extension_from_group_capabilities :: "GroupCapabilities \<Rightarrow> u16 list \<times> u16 list" where
  "extension_from_group_capabilities caps = (gc_extensions caps, gc_proposals caps)"

definition required_capabilities_extension ::
  "Mls \<Rightarrow> FeatureRegistry \<Rightarrow> TransportKind list \<Rightarrow> GroupCapabilities \<times> (u16 list \<times> u16 list)" where
  "required_capabilities_extension M registry active_transports =
     (let caps = gc_insert (CapExtension (mt_app_data_dictionary M)) gc_default;
          caps = gc_insert (CapExtension ACCOUNT_IDENTITY_PROOF_EXTENSION_TYPE) caps;
          caps = gc_insert (CapProposal (mt_app_data_update M)) caps;
          caps = fold (require_step active_transports) (fr_features registry) caps
      in (caps, extension_from_group_capabilities caps))"

fun require_features :: "FeatureRegistry \<Rightarrow> Feature list \<Rightarrow> GroupCapabilities \<Rightarrow> EngineError + GroupCapabilities" where
  "require_features registry [] caps = Inr caps"
| "require_features registry (feature # requested) caps =
     (case registry_get registry feature of
        None \<Rightarrow> Inl (EOther (''unknown feature '' @ feature))
      | Some req \<Rightarrow> require_features registry requested (gc_insert (cr_requires req) caps))"

definition required_capabilities_extension_for_features ::
  "Mls \<Rightarrow> FeatureRegistry \<Rightarrow> TransportKind list \<Rightarrow> Feature list \<Rightarrow>
   EngineError + (GroupCapabilities \<times> (u16 list \<times> u16 list))" where
  "required_capabilities_extension_for_features M registry active_transports requested =
     r_bind (require_features registry requested (fst (required_capabilities_extension M registry active_transports)))
       (\<lambda>caps. Inr (caps, extension_from_group_capabilities caps))"

definition group_capabilities_from_caps :: "Mls \<Rightarrow> u16 list \<Rightarrow> u16 list \<Rightarrow> GroupCapabilities" where
  "group_capabilities_from_caps M extensions proposals =
     gc_default \<lparr> gc_extensions := bs_of_list (filter (\<lambda>t. \<not> mt_is_grease M t) extensions),
                  gc_proposals := bs_of_list proposals \<rparr>"

definition capabilities_of_leaf :: "Mls \<Rightarrow> LeafNode \<Rightarrow> GroupCapabilities" where
  "capabilities_of_leaf M leaf =
     (group_capabilities_from_caps M (ln_cap_extensions leaf) (ln_cap_proposals leaf))
       \<lparr> gc_app_components := (case app_components_of_leaf leaf of Inr s \<Rightarrow> s | Inl _ \<Rightarrow> []) \<rparr>"

definition self_supported_capabilities :: "Mls \<Rightarrow> FeatureRegistry \<Rightarrow> u16 \<Rightarrow> AppComponentSet \<Rightarrow> GroupCapabilities" where
  "self_supported_capabilities M registry ciphersuite supported_app_components =
     (let caps = leaf_capabilities M registry ciphersuite in
      (group_capabilities_from_caps M (cap_extensions caps) (cap_proposals caps))
        \<lparr> gc_app_components := supported_app_components \<rparr>)"

definition leaf_capabilities_as_marmot :: "FeatureRegistry \<Rightarrow> AppComponentSet \<Rightarrow> GroupCapabilities" where
  "leaf_capabilities_as_marmot registry supported_app_components =
     (fold (\<lambda>entry. gc_insert (cr_requires (snd entry))) (fr_features registry) gc_default)
       \<lparr> gc_app_components := supported_app_components \<rparr>"

section \<open>Roles of agent text streams\<close>

definition AGENT_TEXT_STREAM_QUIC_RECEIVE_CAPABILITY :: Capability where
  "AGENT_TEXT_STREAM_QUIC_RECEIVE_CAPABILITY = CapExtension 0xF2D1"
definition AGENT_TEXT_STREAM_QUIC_SEND_CAPABILITY :: Capability where
  "AGENT_TEXT_STREAM_QUIC_SEND_CAPABILITY = CapExtension 0xF2D2"
definition AGENT_TEXT_STREAM_QUIC_FANOUT_CAPABILITY :: Capability where
  "AGENT_TEXT_STREAM_QUIC_FANOUT_CAPABILITY = CapExtension 0xF2D4"

definition AGENT_TEXT_STREAM_QUIC_ROLES :: "(u8 \<times> Feature \<times> Capability) list" where
  "AGENT_TEXT_STREAM_QUIC_ROLES =
     [(AGENT_TEXT_STREAM_ROLE_RECEIVE, ''marmot.feature.agent_text_stream_quic.receive.v1'',
       AGENT_TEXT_STREAM_QUIC_RECEIVE_CAPABILITY),
      (AGENT_TEXT_STREAM_ROLE_SEND, ''marmot.feature.agent_text_stream_quic.send.v1'',
       AGENT_TEXT_STREAM_QUIC_SEND_CAPABILITY),
      (AGENT_TEXT_STREAM_ROLE_FANOUT, ''marmot.feature.agent_text_stream_quic.fanout.v1'',
       AGENT_TEXT_STREAM_QUIC_FANOUT_CAPABILITY)]"

definition required_role_capabilities :: "u8 \<Rightarrow> GroupCapabilities" where
  "required_role_capabilities roles =
     fold (\<lambda>(bit, feature, capability) out. if roles AND bit \<noteq> 0 then gc_insert capability out else out)
       AGENT_TEXT_STREAM_QUIC_ROLES gc_default"

definition role_capabilities_of_bytes :: "bytes option \<Rightarrow> GroupCapabilities" where
  "role_capabilities_of_bytes data =
     (case data of
        None \<Rightarrow> gc_default
      | Some bytes \<Rightarrow>
          (case decode_component_state bytes of
             Inl _ \<Rightarrow> gc_default
           | Inr policy \<Rightarrow> required_role_capabilities (required_member_roles policy)))"

definition required_role_capabilities_from_group :: "MlsGroup \<Rightarrow> GroupCapabilities" where
  "required_role_capabilities_from_group mls_group =
     role_capabilities_of_bytes (app_component_bytes mls_group AGENT_TEXT_STREAM_QUIC_COMPONENT_ID)"

definition required_role_capabilities_from_request_components :: "AppComponentData list \<Rightarrow> GroupCapabilities" where
  "required_role_capabilities_from_request_components components =
     role_capabilities_of_bytes
       (map_option component_data (find (\<lambda>c. component_id c = AGENT_TEXT_STREAM_QUIC_COMPONENT_ID) components))"

definition required_capabilities_from_group :: "MlsGroup \<Rightarrow> GroupCapabilities" where
  "required_capabilities_from_group mls_group =
     (let out = fold (\<lambda>(extensions, proposals) out.
                  fold (\<lambda>t. gc_insert (CapProposal t)) proposals (fold (\<lambda>t. gc_insert (CapExtension t)) extensions out))
                (mg_required_capabilities mls_group) gc_default
      in case required_app_components_of_group mls_group of
           Inr components \<Rightarrow> out \<lparr> gc_app_components := components \<rparr>
         | Inl _ \<Rightarrow> out)"

definition merge_capabilities :: "GroupCapabilities \<Rightarrow> GroupCapabilities \<Rightarrow> GroupCapabilities" where
  "merge_capabilities required extra =
     \<lparr> gc_proposals = fold insort_insert (gc_proposals extra) (gc_proposals required),
       gc_extensions = fold insort_insert (gc_extensions extra) (gc_extensions required),
       gc_app_components = fold acs_insert (gc_app_components extra) (gc_app_components required) \<rparr>"

section \<open>Key packages\<close>

definition parse_key_package :: "Crypto \<Rightarrow> Mls \<Rightarrow> u16 \<Rightarrow> bytes \<Rightarrow> EngineError + LeafNode" where
  "parse_key_package ck M ciphersuite kp =
     r_bind (r_map_err (\<lambda>e. ESerialize (''key_package deserialize: '' @ e)) (mt_deserialize M kp)) (\<lambda>msg.
       case msg of
         BodyOther \<Rightarrow> Inl (ESerialize ''MLS message did not carry a KeyPackage'')
       | BodyKeyPackage kp_in \<Rightarrow>
           r_bind (r_map_err (\<lambda>e. EBackend (''key_package validate: '' @ e)) (mt_validate M kp_in)) (\<lambda>leaf.
           r_bind (validated_member_id_of_leaf ck leaf) (\<lambda>_.
           r_bind (validate_leaf_account_identity_proof ck leaf ciphersuite) (\<lambda>_. Inr leaf))))"

text \<open>The leaf a client puts into its key packages and, as creator, into a new group.\<close>

definition own_leaf :: "Mls \<Rightarrow> FeatureRegistry \<Rightarrow> u16 \<Rightarrow> AppComponentSet \<Rightarrow> bytes \<Rightarrow> bytes \<Rightarrow> bytes \<Rightarrow> LeafNode" where
  "own_leaf M registry ciphersuite supported identity signature_key proof_bytes =
     (let caps = leaf_capabilities M registry ciphersuite in
      \<lparr> ln_identity = Some identity, ln_signature_key = signature_key,
        ln_unknown = [ACCOUNT_IDENTITY_PROOF_EXTENSION_TYPE \<mapsto> proof_bytes],
        ln_app_data = Some (leaf_app_components_extension supported),
        ln_cap_extensions = cap_extensions caps, ln_cap_proposals = cap_proposals caps \<rparr>)"

fun constructable_rest ::
  "Crypto \<Rightarrow> Mls \<Rightarrow> u16 \<Rightarrow> bytes list \<Rightarrow> GroupCapabilities \<Rightarrow> EngineError + GroupCapabilities" where
  "constructable_rest ck M ciphersuite [] acc = Inr acc"
| "constructable_rest ck M ciphersuite (kp # kps) acc =
     r_bind (parse_key_package ck M ciphersuite kp) (\<lambda>parsed.
       let other = capabilities_of_leaf M parsed in
       constructable_rest ck M ciphersuite kps
         \<lparr> gc_proposals = filter (\<lambda>t. t \<in> set (gc_proposals other)) (gc_proposals acc),
           gc_extensions = filter (\<lambda>t. t \<in> set (gc_extensions other)) (gc_extensions acc),
           gc_app_components = acs_intersection (gc_app_components acc) (gc_app_components other) \<rparr>)"

definition do_constructable_capabilities ::
  "Crypto \<Rightarrow> Mls \<Rightarrow> FeatureRegistry \<Rightarrow> u16 \<Rightarrow> AppComponentSet \<Rightarrow> bytes list \<Rightarrow> EngineError + GroupCapabilities" where
  "do_constructable_capabilities ck M registry ciphersuite supported key_packages =
     (case key_packages of
        [] \<Rightarrow> Inr (leaf_capabilities_as_marmot registry supported)
      | kp # kps \<Rightarrow>
          r_bind (parse_key_package ck M ciphersuite kp) (\<lambda>first.
            constructable_rest ck M ciphersuite kps (capabilities_of_leaf M first)))"

section \<open>Group creation and joining\<close>

record CreateGroupRequest =
  cg_name :: string
  cg_description :: string
  cg_members :: "bytes list"
  cg_required_features :: "Feature list"
  cg_app_components :: "AppComponentData list"
  cg_initial_admins :: "MemberId list"

text \<open>What the engine knows of itself.\<close>

record EngineConfig =
  ec_registry :: FeatureRegistry
  ec_ciphersuite :: u16
  ec_supported_app_components :: AppComponentSet
  ec_self_id :: MemberId

fun check_invitees ::
  "Crypto \<Rightarrow> Mls \<Rightarrow> u16 \<Rightarrow> GroupCapabilities \<Rightarrow> GroupCapabilities \<Rightarrow> bytes list \<Rightarrow> AppComponentSet \<Rightarrow> LeafNode list \<Rightarrow>
   EngineError + (AppComponentSet \<times> LeafNode list)" where
  "check_invitees ck M cs required roles [] negotiated parsed = Inr (negotiated, parsed)"
| "check_invitees ck M cs required roles (kp # kps) negotiated parsed =
     r_bind (parse_key_package ck M cs kp) (\<lambda>leaf.
       let had = capabilities_of_leaf M leaf in
       if \<not> gc_is_empty (gc_missing_from required had) then Inl (MissingRequiredCapabilities required had)
       else if \<not> gc_is_empty (gc_missing_from roles had) then Inl (MissingRequiredCapabilities roles had)
       else check_invitees ck M cs required roles kps
              (acs_intersection negotiated (gc_app_components had)) (parsed @ [leaf]))"

definition create_capabilities ::
  "Crypto \<Rightarrow> Mls \<Rightarrow> EngineConfig \<Rightarrow> CreateGroupRequest \<Rightarrow> EngineError + (GroupCapabilities \<times> LeafNode list)" where
  "create_capabilities ck M eng req =
     r_bind (required_capabilities_extension_for_features M (ec_registry eng) [] (cg_required_features req)) (\<lambda>(required, _).
       let requested = map component_id (cg_app_components req);
           desired = fold acs_insert requested (fold acs_insert (gc_app_components required) default_group_components);
           required = required \<lparr> gc_app_components := fold acs_insert requested (gc_app_components required) \<rparr>;
           supported = ec_supported_app_components eng in
       if acs_missing_from (gc_app_components required) supported \<noteq> []
       then Inl (MissingRequiredCapabilities required (gc_default \<lparr> gc_app_components := supported \<rparr>))
       else r_bind (check_invitees ck M (ec_ciphersuite eng) required
                      (required_role_capabilities_from_request_components (cg_app_components req))
                      (cg_members req) (acs_intersection desired supported) []) (\<lambda>(negotiated, parsed).
              Inr (required \<lparr> gc_app_components := negotiated \<rparr>, parsed)))"

fun push_admins :: "MemberId list \<Rightarrow> bytes list \<Rightarrow> EngineError + bytes list" where
  "push_admins [] admin_set = Inr admin_set"
| "push_admins (extra # extras) admin_set =
     r_bind (admin_pubkey_from_member_id extra) (\<lambda>pk.
       push_admins extras (if pk \<in> set admin_set then admin_set else admin_set @ [pk]))"

text \<open>
  The group context of a new group: its required capabilities, its app data and the parsed key packages of
  its first members.
\<close>

definition create_group_context ::
  "url_parser \<Rightarrow> Crypto \<Rightarrow> Mls \<Rightarrow> EngineConfig \<Rightarrow> CreateGroupRequest \<Rightarrow>
   EngineError + (GroupCapabilities \<times> LeafNode list \<times> (u16 list \<times> u16 list) \<times> AppDataDictionary)" where
  "create_group_context parse ck M eng req =
     r_bind (create_capabilities ck M eng req) (\<lambda>(required, parsed).
     r_bind (admin_pubkey_from_member_id (ec_self_id eng)) (\<lambda>creator_pubkey.
     r_bind (push_admins (cg_initial_admins req) [creator_pubkey]) (\<lambda>admin_set.
     r_bind (app_data_dictionary_extension_for_group parse (gc_app_components required)
               \<lparr> ics_name = cg_name req, ics_description = cg_description req, ics_admins = admin_set,
                 ics_app_components = cg_app_components req \<rparr>) (\<lambda>dict.
       Inr (required, parsed, extension_from_group_capabilities required, dict)))))"

definition join_capability_check :: "Mls \<Rightarrow> EngineConfig \<Rightarrow> MlsGroup \<Rightarrow> EngineError + unit" where
  "join_capability_check M eng mls_group =
     (let required = merge_capabilities (required_capabilities_from_group mls_group)
                       (required_role_capabilities_from_group mls_group);
          had = self_supported_capabilities M (ec_registry eng) (ec_ciphersuite eng) (ec_supported_app_components eng)
      in if \<not> gc_is_empty (gc_missing_from required had) then Inl (MissingRequiredCapabilities required had)
         else Inr ())"

fun validate_member_credentials :: "Crypto \<Rightarrow> MlsMember list \<Rightarrow> EngineError + unit" where
  "validate_member_credentials ck [] = Inr ()"
| "validate_member_credentials ck (m # ms) =
     r_bind (validated_member_id ck (mm_identity m)) (\<lambda>_. validate_member_credentials ck ms)"

fun validate_leaf_proofs :: "Crypto \<Rightarrow> u16 \<Rightarrow> LeafNode list \<Rightarrow> EngineError + unit" where
  "validate_leaf_proofs ck cs [] = Inr ()"
| "validate_leaf_proofs ck cs (leaf # leaves) =
     r_bind (validate_leaf_account_identity_proof ck leaf cs) (\<lambda>_. validate_leaf_proofs ck cs leaves)"

definition validate_member_credentials_and_account_proofs ::
  "Crypto \<Rightarrow> u16 \<Rightarrow> MlsGroup \<Rightarrow> LeafNode list \<Rightarrow> EngineError + unit" where
  "validate_member_credentials_and_account_proofs ck cs mls_group tree_leaves =
     r_bind (validate_member_credentials ck (mg_members mls_group)) (\<lambda>_. validate_leaf_proofs ck cs tree_leaves)"

text \<open>The checks of \<^verbatim>\<open>do_join_welcome\<close> on the staged group, before anything is stored.\<close>

definition join_checks ::
  "Crypto \<Rightarrow> Mls \<Rightarrow> EngineConfig \<Rightarrow> MlsGroup \<Rightarrow> LeafNode list \<Rightarrow> MemberId \<Rightarrow> EngineError + unit" where
  "join_checks ck M eng mls_group tree_leaves welcome_sender_id =
     r_bind (validate_member_credentials_and_account_proofs ck (ec_ciphersuite eng) mls_group tree_leaves) (\<lambda>_.
     r_bind (join_capability_check M eng mls_group) (\<lambda>_.
       require_admin mls_group (mg_group_id mls_group) welcome_sender_id))"

fun invite_check :: "Crypto \<Rightarrow> Mls \<Rightarrow> u16 \<Rightarrow> GroupCapabilities \<Rightarrow> bytes list \<Rightarrow> EngineError + LeafNode list" where
  "invite_check ck M cs required [] = Inr []"
| "invite_check ck M cs required (kp # kps) =
     r_bind (parse_key_package ck M cs kp) (\<lambda>leaf.
       let had = capabilities_of_leaf M leaf in
       if \<not> gc_is_empty (gc_missing_from required had) then Inl (MissingRequiredCapabilities required had)
       else r_bind (invite_check ck M cs required kps) (\<lambda>leaves. Inr (leaf # leaves)))"

section \<open>Storage, capability cache and feature status\<close>

record Member =
  mb_id :: MemberId
  mb_credential :: bytes

record Group =
  gr_id :: GroupId
  gr_name :: string
  gr_description :: string
  gr_epoch :: EpochId
  gr_members :: "Member list"
  gr_required_capabilities :: GroupCapabilities

text \<open>
  The part of the storage that these operations use: loading the MLS group, reading group records and
  cached capabilities, each of which may fail, and their updates.
\<close>

record EngineStorage =
  st_mls :: "GroupId \<Rightarrow> string + MlsGroup option"
  st_group :: "GroupId \<Rightarrow> StorageError + Group"
  st_caps :: "GroupId \<Rightarrow> MemberId \<Rightarrow> StorageError + GroupCapabilities option"

definition put_group :: "Group \<Rightarrow> EngineStorage \<Rightarrow> EngineStorage" where
  "put_group g st = st \<lparr> st_group := (st_group st)(gr_id g := Inr g) \<rparr>"

definition save_member_capabilities :: "GroupId \<Rightarrow> MemberId \<Rightarrow> GroupCapabilities \<Rightarrow> EngineStorage \<Rightarrow> EngineStorage" where
  "save_member_capabilities gid m caps st =
     st \<lparr> st_caps := (st_caps st)(gid := (st_caps st gid)(m := Inr (Some caps))) \<rparr>"

definition load_mls_group :: "EngineStorage \<Rightarrow> GroupId \<Rightarrow> EngineError + MlsGroup" where
  "load_mls_group st gid =
     r_bind (r_map_err (\<lambda>e. EBackend (''load: '' @ e)) (st_mls st gid)) (\<lambda>loaded.
       case loaded of None \<Rightarrow> Inl (UnknownGroup gid) | Some g \<Rightarrow> Inr g)"

definition cache_leaf ::
  "Crypto \<Rightarrow> Mls \<Rightarrow> u16 \<Rightarrow> GroupId \<Rightarrow> LeafNode \<Rightarrow> EngineStorage \<Rightarrow> (EngineError + unit) \<times> EngineStorage" where
  "cache_leaf ck M cs gid leaf st =
     (case validate_leaf_account_identity_proof ck leaf cs of
        Inl e \<Rightarrow> (Inl e, st)
      | Inr _ \<Rightarrow>
          (case ln_identity leaf of
             None \<Rightarrow> (Inl (EBackend (''credential: '' @ ck_credential_error ck)), st)
           | Some identity \<Rightarrow> (Inr (), save_member_capabilities gid identity (capabilities_of_leaf M leaf) st)))"

fun cache_from_key_packages ::
  "Crypto \<Rightarrow> Mls \<Rightarrow> u16 \<Rightarrow> GroupId \<Rightarrow> LeafNode list \<Rightarrow> EngineStorage \<Rightarrow> (EngineError + unit) \<times> EngineStorage" where
  "cache_from_key_packages ck M cs gid [] st = (Inr (), st)"
| "cache_from_key_packages ck M cs gid (leaf # leaves) st =
     (case cache_leaf ck M cs gid leaf st of
        (Inl e, st) \<Rightarrow> (Inl e, st)
      | (Inr _, st) \<Rightarrow> cache_from_key_packages ck M cs gid leaves st)"

definition cache_from_staged_commit ::
  "Crypto \<Rightarrow> Mls \<Rightarrow> u16 \<Rightarrow> GroupId \<Rightarrow> StagedCommit \<Rightarrow> EngineStorage \<Rightarrow> (EngineError + unit) \<times> EngineStorage" where
  "cache_from_staged_commit ck M cs gid staged st = cache_from_key_packages ck M cs gid (sc_add_leaves staged) st"

definition cache_self_capabilities ::
  "Crypto \<Rightarrow> Mls \<Rightarrow> u16 \<Rightarrow> GroupId \<Rightarrow> LeafNode option \<Rightarrow> MemberId \<Rightarrow> EngineStorage \<Rightarrow> (EngineError + unit) \<times> EngineStorage" where
  "cache_self_capabilities ck M cs gid own self_id st =
     (case own of
        None \<Rightarrow> (Inr (), st)
      | Some leaf \<Rightarrow>
          (case validate_leaf_account_identity_proof ck leaf cs of
             Inl e \<Rightarrow> (Inl e, st)
           | Inr _ \<Rightarrow>
               (case ln_identity leaf of
                  None \<Rightarrow> (Inl (EBackend (''credential: '' @ ck_credential_error ck)), st)
                | Some leaf_id \<Rightarrow>
                    if leaf_id \<noteq> self_id
                    then (Inl (EBackend ''own_leaf_node identity does not match engine self_id''), st)
                    else (Inr (), save_member_capabilities gid leaf_id (capabilities_of_leaf M leaf) st))))"

fun members_support ::
  "(MemberId \<Rightarrow> StorageError + GroupCapabilities option) \<Rightarrow> Capability \<Rightarrow> Member list \<Rightarrow> EngineError + bool" where
  "members_support caps_of cap [] = Inr True"
| "members_support caps_of cap (member # members) =
     r_bind (r_map_err EStorage (caps_of (mb_id member))) (\<lambda>caps.
       if \<not> gc_contains (case caps of Some c \<Rightarrow> c | None \<Rightarrow> gc_default) cap then Inr False
       else members_support caps_of cap members)"

definition do_feature_status :: "FeatureRegistry \<Rightarrow> EngineStorage \<Rightarrow> GroupId \<Rightarrow> Feature \<Rightarrow> EngineError + FeatureStatus" where
  "do_feature_status registry st gid feature =
     (case registry_get registry feature of
        None \<Rightarrow> Inl (EOther (''unknown feature '' @ feature))
      | Some req \<Rightarrow>
          r_bind (load_mls_group st gid) (\<lambda>mls_group.
            if gc_contains (required_capabilities_from_group mls_group) (cr_requires req) then Inr Available
            else r_bind (r_map_err EStorage (st_group st gid)) (\<lambda>group_record.
              r_bind (members_support (st_caps st gid) (cr_requires req) (gr_members group_record)) (\<lambda>all_ok.
                if \<not> all_ok then Inr (Unavailable (gc_insert (cr_requires req) gc_default))
                else Inr Upgradeable))))"

fun upgradeable_loop ::
  "(MemberId \<Rightarrow> StorageError + GroupCapabilities option) \<Rightarrow> Member list \<Rightarrow> GroupCapabilities \<Rightarrow>
   (Feature \<times> CapabilityRequirement) list \<Rightarrow> GroupCapabilities \<Rightarrow> EngineError + GroupCapabilities" where
  "upgradeable_loop caps_of members already [] upgradeable = Inr upgradeable"
| "upgradeable_loop caps_of members already ((feature, spec) # rest) upgradeable =
     (if (case cr_level spec of TransportRequired _ \<Rightarrow> True | _ \<Rightarrow> False) \<or> gc_contains already (cr_requires spec)
      then upgradeable_loop caps_of members already rest upgradeable
      else r_bind (members_support caps_of (cr_requires spec) members) (\<lambda>all_ok.
        upgradeable_loop caps_of members already rest
          (if all_ok then gc_insert (cr_requires spec) upgradeable else upgradeable)))"

definition do_upgradeable_capabilities :: "FeatureRegistry \<Rightarrow> EngineStorage \<Rightarrow> GroupId \<Rightarrow> EngineError + GroupCapabilities" where
  "do_upgradeable_capabilities registry st gid =
     r_bind (load_mls_group st gid) (\<lambda>mls_group.
     r_bind (r_map_err EStorage (st_group st gid)) (\<lambda>group_record.
       upgradeable_loop (st_caps st gid) (gr_members group_record) (required_capabilities_from_group mls_group)
         (fr_features registry) gc_default))"

section \<open>Upgrading the required capabilities\<close>

text \<open>
  What the upgrade commit changes: the new required-capabilities extension, if MLS types are upgraded, and
  the new bytes of the \<^verbatim>\<open>app_components\<close> component, if components are.
\<close>

record UpgradePlan =
  up_required :: "(u16 list \<times> u16 list) option"
  up_components :: "bytes option"

definition push_new :: "u16 list \<Rightarrow> u16 list \<Rightarrow> u16 list" where
  "push_new new old = remdups_adj (sort (old @ filter (\<lambda>t. t \<notin> set old) new))"

definition upgrade_plan_of :: "MlsGroup \<Rightarrow> GroupCapabilities \<Rightarrow> EngineError + UpgradePlan" where
  "upgrade_plan_of mls_group upgradeable =
     (let req_exts = push_new (gc_extensions upgradeable) (concat (map fst (mg_required_capabilities mls_group)));
          req_props = push_new (gc_proposals upgradeable) (concat (map snd (mg_required_capabilities mls_group)));
          new_rc = (if gc_extensions upgradeable \<noteq> [] \<or> gc_proposals upgradeable \<noteq> []
                    then Some (req_exts, req_props) else None)
      in if gc_app_components upgradeable = [] then Inr \<lparr> up_required = new_rc, up_components = None \<rparr>
         else r_bind (required_app_components_of_group mls_group) (\<lambda>before.
           let required = fold acs_insert (gc_app_components upgradeable) before in
           Inr \<lparr> up_required = new_rc,
                 up_components = (if required \<noteq> before then Some (encode_components_list required) else None) \<rparr>))"

definition require_stable :: "'m EpochState option \<Rightarrow> string \<Rightarrow> string \<Rightarrow> EngineError + unit" where
  "require_stable state operation reason =
     (case state of
        None \<Rightarrow> Inr ()
      | Some s \<Rightarrow>
          if es_is_stable s then Inr ()
          else Inl (EInvalidTransition \<lparr> it_from = es_name s, it_to = operation, it_reason = reason \<rparr>))"

definition upgrade_plan ::
  "EngineConfig \<Rightarrow> 'm EpochState option \<Rightarrow> EngineStorage \<Rightarrow> GroupId \<Rightarrow> EngineError + UpgradePlan" where
  "upgrade_plan eng state st gid =
     r_bind (require_stable state ''Upgrade'' ''upgrade requires Stable'') (\<lambda>_.
     r_bind (load_mls_group st gid) (\<lambda>mls_group.
     r_bind (require_admin mls_group gid (ec_self_id eng)) (\<lambda>_.
     r_bind (do_upgradeable_capabilities (ec_registry eng) st gid) (\<lambda>upgradeable.
       if gc_is_empty upgradeable then Inl (EOther ''no upgradeable capabilities to apply'')
       else upgrade_plan_of mls_group upgradeable))))"

end
