(* ===== verification/Group_Commits.thy ===== *)
theory Group_Commits
  imports Account_Identity
begin

text \<open>
  How a commit changes a group: the validation of the app data updates a commit carries
  (\<^verbatim>\<open>process_commit_with_app_data_updates\<close> of \<^verbatim>\<open>crates/cgka-engine/src/openmls_projection.rs\<close>), the
  checks of an inbound staged commit before it is merged
  (\<^verbatim>\<open>crates/cgka-engine/src/message_processor/ingest.rs\<close>), and the invariants that hold along every
  history of accepted commits.  What OpenMLS does when it stages and merges a commit is a
  hypothesis on the staged commit and on the merged group.
\<close>

section \<open>App data updates of a commit\<close>

datatype AppDataUpdateOperation = OpUpdate bytes | OpRemove

record AppDataUpdateProposal =
  adu_component_id :: AppComponentId
  adu_operation :: AppDataUpdateOperation

datatype CommittedBody = BodyAppDataUpdate AppDataUpdateProposal | BodyOther

datatype ProposalOrRef = ByValue CommittedBody | ByReference bytes

datatype ProcessMessageError = PmValidation string | WrongWireFormat | FoundAppDataUpdateProposal

type_synonym AppDataChange = "AppComponentId \<times> bytes option"

definition resolve_proposal :: "(bytes \<times> CommittedBody) list \<Rightarrow> ProposalOrRef \<Rightarrow> ProcessMessageError + CommittedBody" where
  "resolve_proposal store p =
     (case p of
        ByValue body \<Rightarrow> Inr body
      | ByReference reference \<Rightarrow>
          (case find (\<lambda>q. fst q = reference) store of
             None \<Rightarrow> Inl FoundAppDataUpdateProposal
           | Some q \<Rightarrow> Inr (snd q)))"

definition app_data_change ::
  "url_parser \<Rightarrow> MlsGroup \<Rightarrow> AppDataUpdateProposal \<Rightarrow> ProcessMessageError + AppDataChange" where
  "app_data_change parse mls_group update =
     (case adu_operation update of
        OpUpdate data \<Rightarrow>
          r_bind (r_map_err (\<lambda>_. WrongWireFormat) (validate_app_component_update parse
              \<lparr> component_id = adu_component_id update, component_data = data \<rparr>))
            (\<lambda>_. Inr (adu_component_id update, Some data))
      | OpRemove \<Rightarrow>
          r_bind (r_map_err (\<lambda>_. WrongWireFormat) (validate_app_component_remove mls_group (adu_component_id update)))
            (\<lambda>_. Inr (adu_component_id update, None)))"

fun commit_app_data_changes ::
  "url_parser \<Rightarrow> (ProposalOrRef \<Rightarrow> ProcessMessageError + ProposalOrRef) \<Rightarrow> (bytes \<times> CommittedBody) list \<Rightarrow> MlsGroup \<Rightarrow>
   ProposalOrRef list \<Rightarrow> AppDataChange list \<Rightarrow> ProcessMessageError + AppDataChange list" where
  "commit_app_data_changes parse validate store mls_group [] updater = Inr updater"
| "commit_app_data_changes parse validate store mls_group (p # ps) updater =
     r_bind (validate p) (\<lambda>validated.
     r_bind (resolve_proposal store validated) (\<lambda>proposal.
       case proposal of
         BodyOther \<Rightarrow> commit_app_data_changes parse validate store mls_group ps updater
       | BodyAppDataUpdate update \<Rightarrow>
           r_bind (app_data_change parse mls_group update) (\<lambda>change.
             commit_app_data_changes parse validate store mls_group ps (updater @ [change]))))"

section \<open>Admission of a staged commit\<close>

definition admit_staged_commit ::
  "(bytes \<Rightarrow> string) \<Rightarrow> Crypto \<Rightarrow> u16 \<Rightarrow> MlsGroup \<Rightarrow> GroupId \<Rightarrow> Sender \<Rightarrow> StagedCommit \<Rightarrow>
   EngineError + (MemberId \<times> CommitOrderingPriority \<times> MemberId list)" where
  "admit_staged_commit hex ck cs mls_group group_id sender staged =
     (let sender_id = validated_sender_id ck sender mls_group in
      r_bind (require_admin_for_staged_commit mls_group group_id sender_id staged) (\<lambda>_.
      r_bind (validate_admin_leaf_coupling_for_staged_commit hex mls_group group_id staged) (\<lambda>_.
        case sender_id of
          None \<Rightarrow> Inl (EBackend ''commit has no authenticated member sender'')
        | Some commit_committer \<Rightarrow>
            (let commit_priority = commit_ordering_priority_for_staged staged in
             r_bind (validate_staged_commit_account_identity_proofs ck staged mls_group commit_committer cs)
               (\<lambda>added. Inr (commit_committer, commit_priority, added))))))"

section \<open>Staging and merging\<close>

text \<open>
  The effect of OpenMLS.  Staging applies the changes to the dictionary of the group, last change
  first to win, and the queued proposals list every proposal of the commit.  Merging takes over the
  staged dictionary, keeps each leaf that is not removed, with the credential of the leaf itself,
  of an update by that leaf, or of the path when that leaf committed, and adds every added leaf.
\<close>

definition apply_changes :: "AppDataChange list \<Rightarrow> AppDataDictionary \<Rightarrow> AppDataDictionary" where
  "apply_changes changes dict = fold (\<lambda>(i, v) d. d(i := v)) changes dict"

definition dict_of :: "AppDataDictionary option \<Rightarrow> AppDataDictionary" where
  "dict_of d = (case d of None \<Rightarrow> Map.empty | Some dict \<Rightarrow> dict)"

definition mls_stages :: "MlsGroup \<Rightarrow> AppDataChange list \<Rightarrow> StagedCommit \<Rightarrow> bool" where
  "mls_stages g changes staged \<longleftrightarrow>
     dict_of (sc_app_data staged) = apply_changes changes (dict_of (mg_app_data g))
     \<and> (changes = [] \<or> PropAppDataUpdate \<in> fst ` set (sc_queued_proposals staged))
     \<and> (sc_remove_proposals staged = [] \<or> PropRemove \<in> fst ` set (sc_queued_proposals staged))
     \<and> (sc_add_leaves staged = [] \<or> PropAdd \<in> fst ` set (sc_queued_proposals staged))
     \<and> (sc_update_proposals staged = [] \<or> PropUpdate \<in> fst ` set (sc_queued_proposals staged))"

definition merged_identities :: "Sender \<Rightarrow> StagedCommit \<Rightarrow> MlsMember \<Rightarrow> bytes option list" where
  "merged_identities sender staged m =
     mm_identity m # map (\<lambda>u. ln_identity (fst u)) (filter (\<lambda>u. snd u = SenderMember (mm_index m)) (sc_update_proposals staged))
     @ (case sc_update_path_leaf staged of
          None \<Rightarrow> []
        | Some leaf \<Rightarrow> if sender = SenderMember (mm_index m) then [ln_identity leaf] else [])"

definition mls_merges :: "MlsGroup \<Rightarrow> Sender \<Rightarrow> StagedCommit \<Rightarrow> MlsGroup \<Rightarrow> bool" where
  "mls_merges g sender staged g' \<longleftrightarrow>
     mg_app_data g' = sc_app_data staged
     \<and> distinct (map mm_index (mg_members g'))
     \<and> list_all (\<lambda>m. mm_index m \<in> removed_leaves staged \<or>
          list_ex (\<lambda>m'. mm_index m' = mm_index m \<and> mm_identity m' \<in> set (merged_identities sender staged m))
            (mg_members g')) (mg_members g)
     \<and> list_all (\<lambda>leaf. list_ex (\<lambda>m'. mm_identity m' = ln_identity leaf) (mg_members g')) (sc_add_leaves staged)"

record CommitEnv =
  ce_hex :: "bytes \<Rightarrow> string"
  ce_parse :: url_parser
  ce_crypto :: Crypto
  ce_ciphersuite :: u16

inductive commit_step :: "CommitEnv \<Rightarrow> MlsGroup \<Rightarrow> MlsGroup \<Rightarrow> bool" for env where
  accept: "commit_app_data_changes (ce_parse env) validate store g committed [] = Inr changes \<Longrightarrow>
    mls_stages g changes staged \<Longrightarrow>
    admit_staged_commit (ce_hex env) (ce_crypto env) (ce_ciphersuite env) g group_id sender staged = Inr admitted \<Longrightarrow>
    mls_merges g sender staged g' \<Longrightarrow> commit_step env g g'"

inductive commit_history :: "CommitEnv \<Rightarrow> MlsGroup \<Rightarrow> MlsGroup \<Rightarrow> bool" for env where
  start: "commit_history env g g"
| commit: "commit_history env g0 g \<Longrightarrow> commit_step env g g' \<Longrightarrow> commit_history env g0 g'"

inductive_cases commit_stepE: "commit_step env g g'"

section \<open>Identities along a history\<close>

lemma validate_for_member_Inr:
  assumes "validate_leaf_account_identity_proof_for_member ck leaf cs expected label = Inr u"
  shows "ln_identity leaf = Some expected"
  using assms by (auto simp: validate_leaf_account_identity_proof_for_member_def validated_member_id_of_leaf_def r_simps
      validated_member_id_Inr split: if_split_asm)

lemma validate_update_leaves_Inr:
  "validate_update_leaves ck g cs us = Inr u \<Longrightarrow> (leaf, sender) \<in> set us \<Longrightarrow>
   \<exists>i. validated_sender_id ck sender g = Some i \<and> ln_identity leaf = Some i"
  by (induction us) (auto simp: r_simps dest: validate_for_member_Inr split: option.splits)

lemma member_at_distinct:
  assumes "distinct (map mm_index (mg_members g))" "m \<in> set (mg_members g)"
  shows "member_at g (mm_index m) = Some m"
proof -
  obtain m' where m': "member_at g (mm_index m) = Some m'"
    using assms(2) unfolding member_at_def by (metis (mono_tags, lifting) find_None_iff2 option.exhaust)
  then have "m' \<in> set (mg_members g)" "mm_index m' = mm_index m"
    unfolding member_at_def by (auto simp: find_Some_iff)
  then have "m' = m" using assms by (metis distinct_map inj_on_eq_iff)
  then show ?thesis using m' by simp
qed

lemma validated_sender_id_member:
  assumes "distinct (map mm_index (mg_members g))" "m \<in> set (mg_members g)"
    and "validated_sender_id ck (SenderMember (mm_index m)) g = Some i"
  shows "mm_identity m = Some i"
  using assms(3) member_at_distinct [OF assms(1,2)] by (simp add: member_id_at_leaf_Some)

lemma merged_identity_unchanged:
  assumes "distinct (map mm_index (mg_members g))" "m \<in> set (mg_members g)"
    and "validated_sender_id ck sender g = Some committer"
    and "validate_staged_commit_account_identity_proofs ck staged g committer cs = Inr added"
    and "i \<in> set (merged_identities sender staged m)"
  shows "i = mm_identity m"
proof -
  have u: "validate_update_leaves ck g cs (sc_update_proposals staged) = Inr ()"
      and p: "sc_update_path_leaf staged = Some leaf \<Longrightarrow> ln_identity leaf = Some committer" for leaf
    using assms(4) by (auto simp: validate_staged_commit_account_identity_proofs_def r_simps dest: validate_for_member_Inr)
  have s: "\<exists>j. validated_sender_id ck (SenderMember (mm_index m)) g = Some j \<and> ln_identity leaf = Some j"
    if "(leaf, SenderMember (mm_index m)) \<in> set (sc_update_proposals staged)" for leaf
    using validate_update_leaves_Inr [OF u that] .
  show ?thesis
    using assms(3,5) p s validated_sender_id_member [OF assms(1,2)]
    by (fastforce simp: merged_identities_def split: option.splits if_split_asm)
qed

section \<open>Admins keep a member leaf\<close>

lemma admit_Inr:
  assumes "admit_staged_commit hex ck cs g gid sender staged = Inr (committer, priority, added)"
  shows "validated_sender_id ck sender g = Some committer"
    and "require_admin_for_staged_commit g gid (Some committer) staged = Inr ()"
    and "validate_admin_leaf_coupling_for_staged_commit hex g gid staged = Inr ()"
    and "validate_staged_commit_account_identity_proofs ck staged g committer cs = Inr added"
    and "priority = commit_ordering_priority_for_staged staged"
  using assms by (auto simp: admit_staged_commit_def Let_def r_simps split: option.splits)

lemma credential_account_pubkey_Some: "credential_account_pubkey c = Some pk \<longleftrightarrow> c = Some pk \<and> length pk = 32"
  by (auto simp: credential_account_pubkey_def split: option.splits)

lemma set_map_filter: "set (List.map_filter f xs) = {y. \<exists>x \<in> set xs. f x = Some y}"
  by (induction xs) (auto simp: List.map_filter_simps split: option.splits)

lemma resulting_accounts_iff:
  "pk \<in> set (resulting_accounts g staged) \<longleftrightarrow> length pk = 32 \<and>
     ((\<exists>m \<in> set (mg_members g). mm_index m \<notin> removed_leaves staged \<and> mm_identity m = Some pk) \<or>
      (\<exists>leaf \<in> set (sc_add_leaves staged). ln_identity leaf = Some pk))"
  by (auto simp: resulting_accounts_def set_map_filter credential_account_pubkey_Some split: if_split_asm)

definition admins_have_leaf :: "MlsGroup \<Rightarrow> bool" where
  "admins_have_leaf g \<longleftrightarrow>
     (\<forall>admins. admins_of_group g = Inr admins \<longrightarrow>
        (\<forall>a \<in> set admins. \<exists>m \<in> set (mg_members g). mm_identity m = Some a))"

lemma coupling_admins:
  assumes "validate_admin_leaf_coupling_for_staged_commit hex g gid staged = Inr ()"
    and "mg_app_data g' = sc_app_data staged" "admins_of_group g' = Inr admins" "a \<in> set admins"
  shows "a \<in> set (resulting_accounts g staged)"
proof -
  obtain dict bs where d: "sc_app_data staged = Some dict" "dict GROUP_ADMIN_POLICY_COMPONENT_ID = Some bs"
      "decode_admin_policy bs = Inr admins"
    using assms(2-4) by (auto simp: admins_of_group_def app_component_bytes_def split: option.splits)
  have "\<not> list_ex (\<lambda>a. a \<notin> set (resulting_accounts g staged)) admins"
    using assms(1,4) d unfolding validate_admin_leaf_coupling_for_staged_commit_def
    by (auto split: if_split_asm)
  then show ?thesis using assms(4) by (auto simp: list_ex_iff)
qed

lemma step_admins_have_leaf:
  assumes "commit_step env g g'" "distinct (map mm_index (mg_members g))"
  shows "distinct (map mm_index (mg_members g')) \<and> admins_have_leaf g'"
  using assms(1)
proof (rule commit_stepE)
  fix validate store committed changes staged gid sender admitted
  assume ad: "admit_staged_commit (ce_hex env) (ce_crypto env) (ce_ciphersuite env) g gid sender staged = Inr admitted"
    and mg: "mls_merges g sender staged g'"
  obtain c pr added where "admitted = (c, pr, added)" by (cases admitted)
  note a = admit_Inr [OF ad [unfolded this]]
  note m = mg [unfolded mls_merges_def]
  have "\<exists>m \<in> set (mg_members g'). mm_identity m = Some pk"
    if pk: "admins_of_group g' = Inr admins" "pk \<in> set admins" for admins pk
  proof -
    have "pk \<in> set (resulting_accounts g staged)" using coupling_admins [OF a(3) _ pk] m by blast
    then consider (kept) k where "k \<in> set (mg_members g)" "mm_index k \<notin> removed_leaves staged" "mm_identity k = Some pk"
      | (added) leaf where "leaf \<in> set (sc_add_leaves staged)" "ln_identity leaf = Some pk"
      by (auto simp: resulting_accounts_iff)
    then show ?thesis
    proof cases
      case kept
      then obtain k' where k': "k' \<in> set (mg_members g')" "mm_identity k' \<in> set (merged_identities sender staged k)"
        using m by (auto simp: list_all_iff list_ex_iff)
      have "mm_identity k' = mm_identity k"
        using merged_identity_unchanged [OF assms(2) kept(1) a(1,4) k'(2)] .
      then show ?thesis using k'(1) kept(3) by auto
    next
      case added
      then show ?thesis using m by (fastforce simp: list_all_iff list_ex_iff)
    qed
  qed
  then show ?thesis using m by (auto simp: admins_have_leaf_def)
qed

section \<open>Component data stays valid\<close>

definition group_data_valid :: "url_parser \<Rightarrow> MlsGroup \<Rightarrow> bool" where
  "group_data_valid parse g \<longleftrightarrow> dict_valid parse (dict_of (mg_app_data g))"

definition change_valid :: "url_parser \<Rightarrow> AppDataChange \<Rightarrow> bool" where
  "change_valid parse c = (case snd c of None \<Rightarrow> True | Some data \<Rightarrow> component_valid parse (fst c) data)"

lemma app_data_change_valid: "app_data_change parse g u = Inr c \<Longrightarrow> change_valid parse c"
  by (auto simp: app_data_change_def r_simps change_valid_def component_valid_def
      split: AppDataUpdateOperation.splits)

lemma commit_app_data_changes_valid:
  "commit_app_data_changes parse validate store g ps cs = Inr changes \<Longrightarrow> list_all (change_valid parse) cs \<Longrightarrow>
   list_all (change_valid parse) changes"
proof (induction ps arbitrary: cs)
  case (Cons p ps)
  then obtain x b where v: "validate p = Inr x" "resolve_proposal store x = Inr b" by (auto simp: r_simps)
  show ?case
  proof (cases b)
    case (BodyAppDataUpdate u)
    then show ?thesis using Cons v by (auto simp: r_simps app_data_change_valid)
  next
    case BodyOther
    then show ?thesis using Cons v by simp
  qed
qed simp

lemma apply_changes_valid:
  "dict_valid parse dict \<Longrightarrow> list_all (change_valid parse) changes \<Longrightarrow> dict_valid parse (apply_changes changes dict)"
  unfolding apply_changes_def
proof (induction changes arbitrary: dict)
  case (Cons c cs)
  obtain i v where c: "c = (i, v)" by (cases c)
  have "dict_valid parse (dict(i := v))"
    using Cons.prems c by (cases v) (simp_all add: dict_valid_remove dict_valid_upd change_valid_def)
  then show ?case using Cons.IH [of "dict(i := v)"] Cons.prems(2) c by (simp del: fun_upd_apply)
qed simp

lemma step_group_data_valid:
  assumes "commit_step env g g'" "group_data_valid (ce_parse env) g"
  shows "group_data_valid (ce_parse env) g'"
  using assms(1)
proof (rule commit_stepE)
  fix validate store committed changes staged gid sender admitted
  assume c: "commit_app_data_changes (ce_parse env) validate store g committed [] = Inr changes"
    and s: "mls_stages g changes staged" and m: "mls_merges g sender staged g'"
  have "dict_of (mg_app_data g') = apply_changes changes (dict_of (mg_app_data g))"
    using s m by (simp add: mls_stages_def mls_merges_def)
  then show ?thesis
    using apply_changes_valid commit_app_data_changes_valid [OF c] assms(2) by (simp add: group_data_valid_def)
qed

lemma commit_history_data_valid:
  "commit_history env g0 g \<Longrightarrow> group_data_valid (ce_parse env) g0 \<Longrightarrow> group_data_valid (ce_parse env) g"
  by (induction rule: commit_history.induct) (auto intro: step_group_data_valid)

lemma group_data_component:
  "group_data_valid parse g \<Longrightarrow> app_component_bytes g i = Some data \<Longrightarrow> component_valid parse i data"
  by (auto simp: group_data_valid_def dict_of_def dict_valid_def app_component_bytes_def split: option.splits)


lemma component_valid_readers:
  "component_valid parse APP_COMPONENTS_COMPONENT_ID data \<Longrightarrow> \<exists>s. decode_components_list data = Inr s"
  "component_valid parse GROUP_PROFILE_COMPONENT_ID data \<Longrightarrow> \<exists>p. decode_group_profile data = Inr p"
  "component_valid parse GROUP_ADMIN_POLICY_COMPONENT_ID data \<Longrightarrow> \<exists>a. decode_admin_policy data = Inr a"
  "component_valid parse NOSTR_ROUTING_COMPONENT_ID data \<Longrightarrow> \<exists>r. decode_nostr_routing_v1 parse data = Inr r"
  "component_valid parse GROUP_MESSAGE_RETENTION_COMPONENT_ID data \<Longrightarrow> \<exists>s. decode_message_retention data = Inr s"
  by (simp_all add: component_valid_def validate_app_component_update_def component_ids r_simps
      validate_nostr_routing_component_def validate_message_retention_def del: split_paired_Ex)

text \<open>
  C2: Along every history of accepted commits every admin of the group has a member leaf.  A step
  of the history validates the commit's app data updates, passes the admission checks, and merges
  as MLS does; the group at the start has one member per leaf index.  If every admin of that group
  has a leaf, so has every admin of every later group.  The admission check looks at the current
  credentials only, so this also rests on the identity proofs: an update or a path cannot give a
  surviving leaf another account.
\<close>
theorem admins_always_have_leaf:
  assumes "commit_history env g0 g"
    and "distinct (map mm_index (mg_members g0))"
    and "\<And>admins a. admins_of_group g0 = Inr admins \<Longrightarrow> a \<in> set admins \<Longrightarrow>
      \<exists>m \<in> set (mg_members g0). mm_identity m = Some a"
    and "admins_of_group g = Inr admins" and "a \<in> set admins"
  shows "\<exists>m \<in> set (mg_members g). mm_identity m = Some a"
proof -
  have "distinct (map mm_index (mg_members g)) \<and> admins_have_leaf g"
    using assms(1-3)
  proof (induction rule: commit_history.induct)
    case (start g)
    then show ?case by (auto simp: admins_have_leaf_def)
  next
    case (commit g0 g g')
    then show ?case using step_admins_have_leaf by blast
  qed
  then show ?thesis using assms(4,5) by (auto simp: admins_have_leaf_def)
qed

text \<open>
  C7: Component data stays readable.  If every component of the group at the start passes its
  check, as it does after creation, then after any history of accepted commits every component
  still does, and none of the group's readers can fail: the required components, the profile, the
  admins, the retention time, the routing and the transport group id can all be read.
\<close>
theorem group_data_stays_valid:
  assumes "commit_history env g0 g"
    and "\<And>i data. app_component_bytes g0 i = Some data \<Longrightarrow>
      validate_app_component_update (ce_parse env) \<lparr> component_id = i, component_data = data \<rparr> = Inr ()"
  shows "(app_component_bytes g i = Some data \<longrightarrow>
      validate_app_component_update (ce_parse env) \<lparr> component_id = i, component_data = data \<rparr> = Inr ())
    \<and> (\<exists>required. required_app_components_of_group g = Inr required)
    \<and> (\<exists>profile. group_profile_of_group g = Inr profile)
    \<and> (\<exists>admins. admins_of_group g = Inr admins)
    \<and> (\<exists>seconds. message_retention_seconds_of_group g = Inr seconds)
    \<and> (\<exists>transport_id. transport_group_id_of_group (ce_parse env) g = Inr transport_id)"
proof -
  have "group_data_valid (ce_parse env) g0"
    using assms(2) by (auto simp: group_data_valid_def dict_of_def dict_valid_def component_valid_def
        app_component_bytes_def split: option.splits)
  then have v: "group_data_valid (ce_parse env) g" by (rule commit_history_data_valid [OF assms(1)])
  note c = group_data_component [OF v]
  note r = component_valid_readers [OF c]
  have "\<exists>required. required_app_components_of_group g = Inr required"
    using r(1) by (auto simp: required_app_components_of_group_def r_simps split: option.split)
  moreover have "\<exists>profile. group_profile_of_group g = Inr profile"
    using r(2) by (fastforce simp: group_profile_of_group_def split: option.split)
  moreover have "\<exists>admins. admins_of_group g = Inr admins"
    using r(3) by (auto simp: admins_of_group_def split: option.split)
  moreover have "\<exists>seconds. message_retention_seconds_of_group g = Inr seconds"
    using r(5) by (fastforce simp: message_retention_seconds_of_group_def split: option.split)
  moreover have n: "\<exists>routing. nostr_routing_of_group (ce_parse env) g = Inr routing"
    using r(4) by (fastforce simp: nostr_routing_of_group_def split: option.split)
  have "\<exists>transport_id. transport_group_id_of_group (ce_parse env) g = Inr transport_id"
    using n by (fastforce simp: transport_group_id_of_group_def split: option.split)
  moreover have "app_component_bytes g i = Some data \<longrightarrow>
      validate_app_component_update (ce_parse env) \<lparr> component_id = i, component_data = data \<rparr> = Inr ()"
    using c by (simp add: component_valid_def)
  ultimately show ?thesis by blast
qed


section \<open>What a non-admin may commit\<close>

lemma count_self_removes_Some:
  "count_self_removes ps m n = Some (p, s) \<Longrightarrow> p = m + length ps \<and> s = n + length ps \<and> set ps \<subseteq> {PropSelfRemove}"
  by (induction ps arbitrary: m n) (fastforce split: if_split_asm)+

lemma allowed_non_admin_shape:
  assumes "is_allowed_non_admin_commit staged"
  shows "fst ` set (sc_queued_proposals staged) \<subseteq> {PropSelfRemove}"
proof -
  obtain p s where "count_self_removes (map fst (sc_queued_proposals staged)) 0 0 = Some (p, s)"
    using assms by (auto simp: is_allowed_non_admin_commit_def split: option.splits)
  from count_self_removes_Some [OF this] show ?thesis by simp
qed

lemma self_remove_leaves_iff: "leaf \<in> self_remove_leaves queued \<longleftrightarrow> (PropSelfRemove, SenderMember leaf) \<in> set queued"
  by (induction queued rule: self_remove_leaves.induct) (auto split: Sender.splits)

lemma check_self_removes_Inr:
  "check_self_removes g gid admins queued = Inr () \<Longrightarrow> (PropSelfRemove, sender) \<in> set queued \<Longrightarrow>
   member_id_of_sender sender g = Some m \<Longrightarrow> m \<notin> set admins"
  by (induction queued rule: check_self_removes.induct)
    (auto simp: r_simps admin_pubkey_from_member_id_def split: if_split_asm option.splits)

lemma require_admin_non_admin:
  assumes "require_admin_for_staged_commit g gid (Some committer) staged = Inr ()"
    and "admins_of_group g = Inr admins" "committer \<notin> set admins"
  shows "is_allowed_non_admin_commit staged"
    and "admins = [] \<or> check_self_removes g gid admins (sc_queued_proposals staged) = Inr ()"
  using assms
  by (auto simp: require_admin_for_staged_commit_def reject_admin_self_remove_proposals_def require_admin_def
      staged_commit_requires_admin_def admin_pubkey_from_member_id_def r_simps split: if_split_asm)

lemma validate_add_leaves_length: "validate_add_leaves ck cs ls acc = Inr added \<Longrightarrow> length added = length acc + length ls"
  by (induction ls arbitrary: acc) (auto simp: r_simps)

text \<open>
  C4: A commit of a member that is not an admin changes nothing but keys and consenting leaves.  If
  such a commit is admitted, it adds no member, removes nobody by a Remove proposal, leaves the
  group's component data, and with it the admin set, as it was, and ranks below every privileged
  commit.  Every leaf it does remove asked for that itself with a SelfRemove proposal, and does not
  belong to an admin.
\<close>
theorem non_admin_commit_limited:
  assumes "admit_staged_commit hex ck cs g gid sender staged = Inr (committer, priority, added)"
    and "mls_stages g changes staged"
    and "admins_of_group g = Inr admins" and "committer \<notin> set admins"
  shows "added = [] \<and> sc_remove_proposals staged = [] \<and> priority = Ordinary
    \<and> dict_of (sc_app_data staged) = dict_of (mg_app_data g)
    \<and> (\<forall>leaf. leaf \<in> removed_leaves staged \<longrightarrow>
         (PropSelfRemove, SenderMember leaf) \<in> set (sc_queued_proposals staged) \<and>
         (\<forall>m a. member_at g leaf = Some m \<and> mm_identity m = Some a \<longrightarrow> a \<notin> set admins))"
proof -
  note a = admit_Inr [OF assms(1)]
  note r = require_admin_non_admin [OF a(2) assms(3,4)]
  note q = allowed_non_admin_shape [OF r(1)]
  note s = assms(2) [unfolded mls_stages_def]
  have e: "sc_remove_proposals staged = []" "sc_add_leaves staged = []" "changes = []" using s q by auto
  have "added = []"
    using a(4) e(2) by (auto simp: validate_staged_commit_account_identity_proofs_def r_simps)
  moreover have "priority = Ordinary"
    using a(5) r(1) by (simp add: commit_ordering_priority_for_staged_def staged_commit_requires_admin_def)
  moreover have "dict_of (sc_app_data staged) = dict_of (mg_app_data g)" using s e(3) by (simp add: apply_changes_def)
  moreover have rl: "(PropSelfRemove, SenderMember leaf) \<in> set (sc_queued_proposals staged)"
    if "leaf \<in> removed_leaves staged" for leaf
    using that e(1) by (simp add: removed_leaves_def self_remove_leaves_iff)
  moreover have "a \<notin> set admins"
    if "leaf \<in> removed_leaves staged" "member_at g leaf = Some m" "mm_identity m = Some a" for leaf m a
    using r(2) check_self_removes_Inr [OF _ rl [OF that(1)]] that(2,3) by fastforce
  ultimately show ?thesis using e(1) by blast
qed


definition ex_staged_non_admin :: StagedCommit where
  "ex_staged_non_admin = \<lparr> sc_app_data = Some [GROUP_ADMIN_POLICY_COMPONENT_ID \<mapsto> encode_var_bytes (replicate 32 2)],
     sc_remove_proposals = [], sc_queued_proposals = [(PropSelfRemove, SenderMember 2)], sc_add_leaves = [],
     sc_update_proposals = [], sc_update_path_leaf = Some ex_leaf \<rparr>"

definition ex_group_other_admin :: MlsGroup where
  "ex_group_other_admin = \<lparr> mg_group_id = [7], mg_required_capabilities = [],
     mg_app_data = Some [GROUP_ADMIN_POLICY_COMPONENT_ID \<mapsto> encode_var_bytes (replicate 32 2)],
     mg_members = [\<lparr> mm_index = 0, mm_identity = Some ex_account \<rparr>,
       \<lparr> mm_index = 1, mm_identity = Some (replicate 32 2) \<rparr>,
       \<lparr> mm_index = 2, mm_identity = Some (replicate 32 3) \<rparr>] \<rparr>"

lemma decode_one_admin: "length a = 32 \<Longrightarrow> decode_admin_policy (encode_var_bytes a) = Inr [a]"
  using decode_admin_policy_complete [of "[a]"] by (simp add: admin_list_ok_def)

lemma ex_other_admin: "admins_of_group ex_group_other_admin = Inr [replicate 32 2]"
  by (simp add: admins_of_group_def app_component_bytes_def ex_group_other_admin_def decode_one_admin)

lemma ex_non_admin_identity:
  "validate_staged_commit_account_identity_proofs ex_crypto ex_staged_non_admin ex_group_other_admin ex_account 1 = Inr []"
  by code_simp

lemma ex_non_admin_sender: "validated_sender_id ex_crypto (SenderMember 0) ex_group_other_admin = Some ex_account"
  by code_simp

lemma ex_non_admin_admitted:
  "admit_staged_commit (\<lambda>_. []) ex_crypto 1 ex_group_other_admin [7] (SenderMember 0) ex_staged_non_admin =
     Inr (ex_account, Ordinary, [])"
proof -
  have "check_self_removes ex_group_other_admin [7] [replicate 32 2] (sc_queued_proposals ex_staged_non_admin) = Inr ()"
      "is_allowed_non_admin_commit ex_staged_non_admin"
      "replicate 32 2 \<in> set (resulting_accounts ex_group_other_admin ex_staged_non_admin)"
    by code_simp+
  moreover have "sc_app_data ex_staged_non_admin =
      Some [GROUP_ADMIN_POLICY_COMPONENT_ID \<mapsto> encode_var_bytes (replicate 32 2)]"
    by (simp add: ex_staged_non_admin_def)
  ultimately show ?thesis
    by (simp add: admit_staged_commit_def require_admin_for_staged_commit_def reject_admin_self_remove_proposals_def
        ex_other_admin ex_non_admin_sender ex_non_admin_identity staged_commit_requires_admin_def
        commit_ordering_priority_for_staged_def validate_admin_leaf_coupling_for_staged_commit_def decode_one_admin
        del: validated_sender_id.simps)
qed

theorem non_admin_commit_limited_witness:
  "removed_leaves ex_staged_non_admin = {2} \<and>
   (PropSelfRemove, SenderMember 2) \<in> set (sc_queued_proposals ex_staged_non_admin)"
proof -
  have s: "mls_stages ex_group_other_admin [] ex_staged_non_admin"
    by (simp add: mls_stages_def apply_changes_def ex_group_other_admin_def ex_staged_non_admin_def)
  have "ex_account \<notin> set [replicate 32 2]" by (simp add: ex_account_def replicate_eq_replicate)
  note non_admin_commit_limited [OF ex_non_admin_admitted s ex_other_admin this]
  moreover have "removed_leaves ex_staged_non_admin = {2}" by (simp add: removed_leaves_def ex_staged_non_admin_def)
  ultimately show ?thesis by blast
qed

definition ex_env :: CommitEnv where
  "ex_env = \<lparr> ce_hex = (\<lambda>_. []), ce_parse = ex_parse, ce_crypto = ex_crypto, ce_ciphersuite = 1 \<rparr>"

definition ex_group_admin :: "AppDataDictionary \<Rightarrow> MlsGroup" where
  "ex_group_admin dict = \<lparr> mg_group_id = [7], mg_required_capabilities = [],
     mg_app_data = Some (dict(GROUP_ADMIN_POLICY_COMPONENT_ID \<mapsto> encode_var_bytes ex_account)),
     mg_members = [\<lparr> mm_index = 0, mm_identity = Some ex_account \<rparr>] \<rparr>"

definition ex_profile_bytes :: bytes where "ex_profile_bytes = [1, 0x74, 0]"

definition ex_staged_profile :: StagedCommit where
  "ex_staged_profile = \<lparr> sc_app_data = Some [GROUP_PROFILE_COMPONENT_ID \<mapsto> ex_profile_bytes,
       GROUP_ADMIN_POLICY_COMPONENT_ID \<mapsto> encode_var_bytes ex_account],
     sc_remove_proposals = [], sc_queued_proposals = [(PropAppDataUpdate, SenderMember 0)], sc_add_leaves = [],
     sc_update_proposals = [], sc_update_path_leaf = Some ex_leaf \<rparr>"

lemma length_ex_account [simp]: "length ex_account = 32"
  by (simp add: ex_account_def)

lemma ex_group_admin_admins: "admins_of_group (ex_group_admin dict) = Inr [ex_account]"
  by (simp add: admins_of_group_def app_component_bytes_def ex_group_admin_def decode_one_admin)

lemma ex_profile_valid: "component_valid parse GROUP_PROFILE_COMPONENT_ID ex_profile_bytes"
proof (rule profile_valid)
  show "encode_group_profile ''t'' [] = Inr ex_profile_bytes" "is_utf8 ''t''" "is_utf8 []" by code_simp+
qed

lemma ex_profile_admitted:
  "admit_staged_commit (\<lambda>_. []) ex_crypto 1 (ex_group_admin Map.empty) [7] (SenderMember 0) ex_staged_profile =
     Inr (ex_account, Privileged, [])"
proof -
  have "\<not> is_allowed_non_admin_commit ex_staged_profile"
      "validated_sender_id ex_crypto (SenderMember 0) (ex_group_admin Map.empty) = Some ex_account"
      "validate_staged_commit_account_identity_proofs ex_crypto ex_staged_profile (ex_group_admin Map.empty) ex_account 1 = Inr []"
      "ex_account \<in> set (resulting_accounts (ex_group_admin Map.empty) ex_staged_profile)"
      "check_self_removes (ex_group_admin Map.empty) [7] [ex_account] (sc_queued_proposals ex_staged_profile) = Inr ()"
    by code_simp+
  moreover have "sc_app_data ex_staged_profile = Some [GROUP_PROFILE_COMPONENT_ID \<mapsto> ex_profile_bytes,
       GROUP_ADMIN_POLICY_COMPONENT_ID \<mapsto> encode_var_bytes ex_account]"
    by (simp add: ex_staged_profile_def)
  ultimately show ?thesis
    by (simp add: admit_staged_commit_def require_admin_for_staged_commit_def reject_admin_self_remove_proposals_def
        ex_group_admin_admins require_admin_def admin_pubkey_from_member_id_def staged_commit_requires_admin_def
        commit_ordering_priority_for_staged_def validate_admin_leaf_coupling_for_staged_commit_def decode_one_admin)
qed

lemma ex_history: "commit_history ex_env (ex_group_admin Map.empty)
    (ex_group_admin [GROUP_PROFILE_COMPONENT_ID \<mapsto> ex_profile_bytes])"
proof (rule commit_history.commit [OF commit_history.start], rule commit_step.accept)
  let ?u = "\<lparr> adu_component_id = GROUP_PROFILE_COMPONENT_ID, adu_operation = OpUpdate ex_profile_bytes \<rparr>"
  show "commit_app_data_changes (ce_parse ex_env) Inr [] (ex_group_admin Map.empty) [ByValue (BodyAppDataUpdate ?u)] [] =
      Inr [(GROUP_PROFILE_COMPONENT_ID, Some ex_profile_bytes)]"
    using ex_profile_valid [of ex_parse]
    by (simp add: resolve_proposal_def app_data_change_def component_valid_def ex_env_def)
  show "mls_stages (ex_group_admin Map.empty) [(GROUP_PROFILE_COMPONENT_ID, Some ex_profile_bytes)] ex_staged_profile"
    by (simp add: mls_stages_def apply_changes_def ex_group_admin_def ex_staged_profile_def dict_of_def component_ids
        fun_upd_twist)
  show "admit_staged_commit (ce_hex ex_env) (ce_crypto ex_env) (ce_ciphersuite ex_env) (ex_group_admin Map.empty) [7]
      (SenderMember 0) ex_staged_profile = Inr (ex_account, Privileged, [])"
    using ex_profile_admitted by (simp add: ex_env_def)
  show "mls_merges (ex_group_admin Map.empty) (SenderMember 0) ex_staged_profile
      (ex_group_admin [GROUP_PROFILE_COMPONENT_ID \<mapsto> ex_profile_bytes])"
    by (simp add: mls_merges_def ex_group_admin_def ex_staged_profile_def merged_identities_def)
qed

theorem admins_always_have_leaf_witness:
  "\<exists>m \<in> set (mg_members (ex_group_admin [GROUP_PROFILE_COMPONENT_ID \<mapsto> ex_profile_bytes])). mm_identity m = Some ex_account"
proof (rule admins_always_have_leaf [OF ex_history])
  show "distinct (map mm_index (mg_members (ex_group_admin Map.empty)))" by (simp add: ex_group_admin_def)
  show "\<exists>m \<in> set (mg_members (ex_group_admin Map.empty)). mm_identity m = Some a"
    if "admins_of_group (ex_group_admin Map.empty) = Inr admins" "a \<in> set admins" for admins a
    using that by (auto simp: ex_group_admin_admins) (simp add: ex_group_admin_def)
  show "admins_of_group (ex_group_admin [GROUP_PROFILE_COMPONENT_ID \<mapsto> ex_profile_bytes]) = Inr [ex_account]"
    by (rule ex_group_admin_admins)
qed simp

theorem group_data_stays_valid_witness:
  "\<exists>profile. group_profile_of_group (ex_group_admin [GROUP_PROFILE_COMPONENT_ID \<mapsto> ex_profile_bytes]) = Inr profile"
proof -
  have "validate_app_component_update (ce_parse ex_env) \<lparr> component_id = i, component_data = data \<rparr> = Inr ()"
    if "app_component_bytes (ex_group_admin Map.empty) i = Some data" for i data
    using that decode_one_admin [OF length_ex_account]
    by (auto simp: ex_group_admin_def app_component_bytes_def validate_app_component_update_def component_ids
        split: if_split_asm)
  from group_data_stays_valid [OF ex_history this] show ?thesis by blast
qed

end
