(* ===== verification/Capability_Negotiation.thy ===== *)
theory Capability_Negotiation
  imports Capabilities Group_Commits
begin

text \<open>
  What capability negotiation guarantees: a client's key package says what the client supports, a created
  group can be joined by everyone it was created with, its admins, and the effect of a capability upgrade.
\<close>

declare gc_contains.simps [simp del] gc_insert.simps [simp del]

section \<open>Capability sets\<close>

lemma gc_contains_merge [simp]:
  "gc_contains (merge_capabilities g h) c \<longleftrightarrow> gc_contains g c \<or> gc_contains h c"
proof -
  have "set (fold acs_insert xs s) = set xs \<union> set s" for xs s
    by (induction xs arbitrary: s) (auto simp: acs_insert_def set_insort_insert)
  then show ?thesis by (cases c) (auto simp: merge_capabilities_def acs_contains_def set_fold_insort_insert gc_contains.simps)
qed

lemma set_fold_acs_insert [simp]: "set (fold acs_insert xs s) = set xs \<union> set s"
  by (induction xs arbitrary: s) (auto simp: acs_insert_def set_insort_insert)

lemma bs_inv_fold_acs_insert [simp]: "bs_inv s \<Longrightarrow> bs_inv (fold acs_insert xs s)"
  by (induction xs arbitrary: s) (auto simp: acs_insert_def)

lemma bs_inv_filter [simp]: "bs_inv s \<Longrightarrow> bs_inv (filter P s)"
  by (simp add: bs_inv_iff sorted_wrt_filter)

lemma gc_covered: "gc_is_empty (gc_missing_from g h) \<longleftrightarrow> (\<forall>c. gc_contains g c \<longrightarrow> gc_contains h c)"
  by (auto simp: gc_is_empty_iff gc_missing_from_iff)

lemma gc_contains_app_update:
  "gc_contains (g \<lparr> gc_app_components := s \<rparr>) c \<longleftrightarrow>
     (case c of CapAppComponent i \<Rightarrow> i \<in> set s | _ \<Rightarrow> gc_contains g c)"
  by (cases c) (simp_all add: acs_contains_def gc_contains.simps)

lemma decode_own_components: "bs_inv s \<Longrightarrow> decode_components_list (encode_components_list s) = Inr s"
proof -
  assume "bs_inv s"
  then have "bs_of_list s = s" by (intro bs_ext) simp_all
  moreover have "distinct s" using \<open>bs_inv s\<close> by (simp add: bs_inv_iff)
  ultimately show ?thesis using components_list_canonical [of "encode_components_list s" s] by metis
qed

section \<open>A key package advertises what its client supports\<close>

lemma own_leaf_capabilities:
  assumes "bs_inv supported"
  shows "capabilities_of_leaf M (own_leaf M registry cs supported i k p) =
    self_supported_capabilities M registry cs supported"
  using decode_own_components [OF assms]
  by (simp add: capabilities_of_leaf_def own_leaf_def self_supported_capabilities_def Let_def
      app_components_of_leaf_def leaf_app_components_extension_def)

section \<open>Requirements of a group\<close>

lemma fold_required_types:
  "gc_contains (fold (\<lambda>(es, ps) out. fold (\<lambda>t. gc_insert (CapProposal t)) ps (fold (\<lambda>t. gc_insert (CapExtension t)) es out)) rcs g) c \<longleftrightarrow>
     gc_contains g c \<or> (case c of CapExtension t \<Rightarrow> t \<in> set (concat (map fst rcs)) | CapProposal t \<Rightarrow> t \<in> set (concat (map snd rcs))
                        | CapAppComponent _ \<Rightarrow> False)"
proof (induction rcs arbitrary: g)
  case (Cons rc rcs)
  have e: "gc_contains (fold (\<lambda>t. gc_insert (CapExtension t)) es g) c \<longleftrightarrow> gc_contains g c \<or> (\<exists>t \<in> set es. c = CapExtension t)" for es g
    by (induction es arbitrary: g) auto
  have p: "gc_contains (fold (\<lambda>t. gc_insert (CapProposal t)) ps g) c \<longleftrightarrow> gc_contains g c \<or> (\<exists>t \<in> set ps. c = CapProposal t)" for ps g
    by (induction ps arbitrary: g) auto
  show ?case by (cases rc) (auto simp: Cons.IH e p split: Capability.splits)
qed (simp split: Capability.splits)

lemma required_of_group:
  "gc_contains (required_capabilities_from_group g) c \<longleftrightarrow>
     (case c of
        CapExtension t \<Rightarrow> t \<in> set (concat (map fst (mg_required_capabilities g)))
      | CapProposal t \<Rightarrow> t \<in> set (concat (map snd (mg_required_capabilities g)))
      | CapAppComponent i \<Rightarrow> (\<exists>s. required_app_components_of_group g = Inr s \<and> i \<in> set s))"
  by (cases "required_app_components_of_group g"; cases c)
    (simp_all add: required_capabilities_from_group_def Let_def gc_contains_app_update fold_required_types)

lemma required_of_created:
  assumes "mg_required_capabilities g = [extension_from_group_capabilities required]"
    and "required_app_components_of_group g = Inr (gc_app_components required)"
  shows "gc_contains (required_capabilities_from_group g) c \<longleftrightarrow> gc_contains required c"
  unfolding required_of_group using assms by (cases c) (simp_all add: extension_from_group_capabilities_def acs_contains_def gc_contains.simps)

section \<open>Group creation\<close>

lemma check_invitees_Inr:
  assumes "check_invitees ck M cs required roles kps negotiated parsed = Inr (negotiated', parsed')"
  shows "\<exists>leaves. parsed' = parsed @ leaves \<and> length leaves = length kps \<and>
    list_all (\<lambda>leaf. (\<forall>c. gc_contains required c \<or> gc_contains roles c \<longrightarrow> gc_contains (capabilities_of_leaf M leaf) c) \<and>
      validated_member_id_of_leaf ck leaf \<in> range Inr) leaves \<and>
    set negotiated' = {i \<in> set negotiated. list_all (\<lambda>leaf. i \<in> set (gc_app_components (capabilities_of_leaf M leaf))) leaves} \<and>
    (bs_inv negotiated \<longrightarrow> bs_inv negotiated')"
  using assms
proof (induction kps arbitrary: negotiated parsed)
  case (Cons kp kps)
  from Cons.prems obtain leaf where p: "parse_key_package ck M cs kp = Inr leaf"
    by (cases "parse_key_package ck M cs kp") auto
  let ?had = "capabilities_of_leaf M leaf"
  have v: "validated_member_id_of_leaf ck leaf \<in> range Inr"
    using p by (cases "mt_deserialize M kp") (auto simp: parse_key_package_def r_simps split: MlsMessageBodyIn.split_asm)
  have c: "gc_is_empty (gc_missing_from required ?had)" "gc_is_empty (gc_missing_from roles ?had)"
    and rec: "check_invitees ck M cs required roles kps (acs_intersection negotiated (gc_app_components ?had)) (parsed @ [leaf])
      = Inr (negotiated', parsed')"
    using Cons.prems p by (auto simp: Let_def split: if_split_asm)
  from Cons.IH [OF rec] obtain leaves where l: "parsed' = (parsed @ [leaf]) @ leaves" "length leaves = length kps"
      "list_all (\<lambda>leaf. (\<forall>c. gc_contains required c \<or> gc_contains roles c \<longrightarrow> gc_contains (capabilities_of_leaf M leaf) c) \<and>
        validated_member_id_of_leaf ck leaf \<in> range Inr) leaves"
      "set negotiated' = {i \<in> set (acs_intersection negotiated (gc_app_components ?had)).
        list_all (\<lambda>leaf. i \<in> set (gc_app_components (capabilities_of_leaf M leaf))) leaves}"
      "bs_inv (acs_intersection negotiated (gc_app_components ?had)) \<longrightarrow> bs_inv negotiated'"
    by blast
  have "bs_inv negotiated \<Longrightarrow> bs_inv (acs_intersection negotiated (gc_app_components ?had))"
    by (simp add: acs_intersection_def)
  then show ?case
    using l c v by (intro exI [of _ "leaf # leaves"]) (auto simp: gc_covered acs_intersection_def)
qed simp

lemma require_features_inv: "require_features registry fs caps = Inr caps' \<Longrightarrow> gc_inv caps \<Longrightarrow> gc_inv caps'"
  by (induction fs arbitrary: caps) (auto split: option.splits)

lemma require_step_inv: "gc_inv caps \<Longrightarrow> gc_inv (fold (require_step ts) es caps)"
  by (induction es arbitrary: caps) (auto simp: require_step_def split: RequirementLevel.splits)

text \<open>Every founding leaf, and the creator, covers what the created group requires.\<close>

lemma create_capabilities_Inr:
  assumes "create_capabilities ck M eng req = Inr (required, parsed)" "bs_inv (ec_supported_app_components eng)"
  shows "bs_inv (gc_app_components required)" "length parsed = length (cg_members req)"
    and "leaf \<in> set parsed \<Longrightarrow> gc_contains required c \<or>
      gc_contains (required_role_capabilities_from_request_components (cg_app_components req)) c \<Longrightarrow>
      gc_contains (capabilities_of_leaf M leaf) c"
    and "leaf \<in> set parsed \<Longrightarrow> validated_member_id_of_leaf ck leaf \<in> range Inr"
    and "set (gc_app_components required) \<subseteq> set (ec_supported_app_components eng)"
    and "component \<in> set (cg_app_components req) \<Longrightarrow> component_id component \<in> set (gc_app_components required)"
proof -
  let ?supported = "ec_supported_app_components eng" and ?requested = "map component_id (cg_app_components req)"
  obtain caps ext where f: "required_capabilities_extension_for_features M (ec_registry eng) [] (cg_required_features req) = Inr (caps, ext)"
    using assms(1) by (cases "required_capabilities_extension_for_features M (ec_registry eng) [] (cg_required_features req)")
      (auto simp: create_capabilities_def)
  define caps' where "caps' = caps \<lparr> gc_app_components := fold acs_insert ?requested (gc_app_components caps) \<rparr>"
  let ?desired = "fold acs_insert ?requested (fold acs_insert (gc_app_components caps) default_group_components)"
  obtain negotiated where
    c: "check_invitees ck M (ec_ciphersuite eng) caps' (required_role_capabilities_from_request_components (cg_app_components req))
          (cg_members req) (acs_intersection ?desired ?supported) [] = Inr (negotiated, parsed)"
      and r: "required = caps' \<lparr> gc_app_components := negotiated \<rparr>"
      and s: "acs_missing_from (gc_app_components caps') ?supported = []"
    using assms(1) f unfolding create_capabilities_def caps'_def
    by (auto simp: Let_def r_simps split: if_split_asm)
  from check_invitees_Inr [OF c] have
    l: "length parsed = length (cg_members req)"
      "\<And>leaf c. leaf \<in> set parsed \<Longrightarrow> gc_contains caps' c \<or>
        gc_contains (required_role_capabilities_from_request_components (cg_app_components req)) c \<Longrightarrow>
        gc_contains (capabilities_of_leaf M leaf) c"
      "\<And>leaf. leaf \<in> set parsed \<Longrightarrow> validated_member_id_of_leaf ck leaf \<in> range Inr"
      "set negotiated = {i \<in> set ?desired \<inter> set ?supported.
        \<forall>leaf \<in> set parsed. i \<in> set (gc_app_components (capabilities_of_leaf M leaf))}"
      "bs_inv (acs_intersection ?desired ?supported) \<Longrightarrow> bs_inv negotiated"
    by (auto simp: list_all_iff acs_intersection_def)
  have "bs_inv default_group_components" by (simp add: default_group_components_def)
  then have "bs_inv ?desired" by simp
  then have "bs_inv (acs_intersection ?desired ?supported)" by (simp add: acs_intersection_def)
  then show "bs_inv (gc_app_components required)" using l(5) by (simp add: r)
  show "length parsed = length (cg_members req)" by (rule l(1))
  show "validated_member_id_of_leaf ck leaf \<in> range Inr" if "leaf \<in> set parsed" using l(3) that .
  show "set (gc_app_components required) \<subseteq> set ?supported" using l(4) by (auto simp: r)
  show "gc_contains (capabilities_of_leaf M leaf) c" if "leaf \<in> set parsed"
    "gc_contains required c \<or> gc_contains (required_role_capabilities_from_request_components (cg_app_components req)) c"
  proof (cases "gc_contains required c \<and> (\<exists>i. c = CapAppComponent i)")
    case True
    then show ?thesis using l(4) that(1) by (auto simp: r gc_contains.simps acs_contains_def)
  next
    case False
    then have "gc_contains caps' c \<or> gc_contains (required_role_capabilities_from_request_components (cg_app_components req)) c"
      using that(2) by (auto simp: r gc_contains_app_update split: Capability.splits)
    then show ?thesis using l(2) that(1) by blast
  qed
  show "component_id component \<in> set (gc_app_components required)" if "component \<in> set (cg_app_components req)"
  proof -
    have i: "component_id component \<in> set (gc_app_components caps')" using that by (auto simp: caps'_def)
    then have "component_id component \<in> set ?supported" using s by (auto simp: acs_missing_from_def filter_empty_conv)
    moreover have "component_id component \<in> set (gc_app_components (capabilities_of_leaf M leaf))" if "leaf \<in> set parsed" for leaf
      using l(2) [OF that, of "CapAppComponent (component_id component)"] i by (simp add: gc_contains.simps acs_contains_def)
    ultimately show ?thesis using l(4) that by (auto simp: r)
  qed
qed

lemma insert_initial_components_seen:
  "insert_initial_components parse required cs seen dict = Inr d \<Longrightarrow> i \<in> set seen \<Longrightarrow> d i = dict i"
  by (induction cs arbitrary: seen dict) (auto simp: r_simps split: if_split_asm)

lemma insert_initial_components_entry:
  assumes "insert_initial_components parse required cs seen dict = Inr d"
    and "list_all (\<lambda>c. acs_contains required (component_id c)) cs"
  shows "d i = (case find (\<lambda>c. component_id c = i) cs of Some c \<Rightarrow> Some (component_data c) | None \<Rightarrow> dict i)"
  using assms
proof (induction cs arbitrary: seen dict)
  case (Cons c cs)
  then have rec: "insert_initial_components parse required cs (component_id c # seen)
      (dict(component_id c \<mapsto> component_data c)) = Inr d"
    by (auto simp: r_simps split: if_split_asm)
  show ?case
  proof (cases "component_id c = i")
    case True
    then show ?thesis using insert_initial_components_seen [OF rec, of i] by simp
  next
    case False
    then show ?thesis using Cons.IH [OF rec] Cons.prems(2) by (auto split: option.split)
  qed
qed simp

lemma created_role_bytes:
  assumes "app_data_dictionary_extension_for_group parse required initial = Inr dict"
    and "list_all (\<lambda>c. acs_contains required (component_id c)) (ics_app_components initial)"
  shows "dict AGENT_TEXT_STREAM_QUIC_COMPONENT_ID =
    map_option component_data (find (\<lambda>c. component_id c = AGENT_TEXT_STREAM_QUIC_COMPONENT_ID) (ics_app_components initial))"
proof -
  obtain d where i: "insert_initial_components parse required (ics_app_components initial) [] d = Inr dict"
      and d: "d AGENT_TEXT_STREAM_QUIC_COMPONENT_ID = None"
    using assms(1) by (auto simp: app_data_dictionary_extension_for_group_def Let_def r_simps component_ids split: if_split_asm)
  show ?thesis
    using insert_initial_components_entry [OF i assms(2), of AGENT_TEXT_STREAM_QUIC_COMPONENT_ID] d
    by (simp split: option.splits)
qed

lemma created_without_admin_policy:
  assumes "app_data_dictionary_extension_for_group parse required initial = Inr dict"
    and "\<not> acs_contains required GROUP_ADMIN_POLICY_COMPONENT_ID"
  shows "dict GROUP_ADMIN_POLICY_COMPONENT_ID = None"
proof -
  obtain d where i: "insert_initial_components parse required (ics_app_components initial) [] d = Inr dict"
      and d: "d GROUP_ADMIN_POLICY_COMPONENT_ID = None"
    using assms by (auto simp: app_data_dictionary_extension_for_group_def Let_def r_simps component_ids split: if_split_asm)
  then show ?thesis using insert_initial_components_keeps [OF _ i] by simp
qed

lemma admin_pubkey_Inr [r_simps]: "admin_pubkey_from_member_id i = Inr k \<longleftrightarrow> k = i \<and> length i = 32"
  by (auto simp: admin_pubkey_from_member_id_def)

lemma push_admins_Inr:
  assumes "push_admins extras s = Inr s'" "list_all (\<lambda>a. length a = 32) s"
  shows "set s' = set s \<union> set extras \<and> list_all (\<lambda>a. length a = 32) s' \<and> length s' \<le> length s + length extras"
  using assms
proof (induction extras arbitrary: s)
  case (Cons x xs)
  then have "length x = 32" and r: "push_admins xs (if x \<in> set s then s else s @ [x]) = Inr s'"
    by (auto simp: r_simps)
  then show ?case using Cons.IH [OF r] Cons.prems(2) by (auto split: if_split_asm)
qed simp

text \<open>The parts of a created group context.\<close>

lemma create_group_context_Inr:
  assumes "create_group_context parse ck M eng req = Inr (required, parsed, ext, dict)"
    and "bs_inv (ec_supported_app_components eng)"
    and "mg_required_capabilities g = [ext]" "mg_app_data g = Some dict"
    and "(length (cg_initial_admins req) + 1) * 32 < 2 ^ 62"
  shows "create_capabilities ck M eng req = Inr (required, parsed)"
    and "length (ec_self_id eng) = 32"
    and "gc_contains (required_capabilities_from_group g) c \<longleftrightarrow> gc_contains required c"
    and "required_role_capabilities_from_group g = required_role_capabilities_from_request_components (cg_app_components req)"
    and "\<exists>admins. admins_of_group g = Inr admins \<and> set admins =
      (if acs_contains (gc_app_components required) GROUP_ADMIN_POLICY_COMPONENT_ID
       then insert (ec_self_id eng) (set (cg_initial_admins req)) else {})"
proof -
  obtain admin_set where c: "create_capabilities ck M eng req = Inr (required, parsed)"
      and s: "length (ec_self_id eng) = 32"
      and a: "push_admins (cg_initial_admins req) [ec_self_id eng] = Inr admin_set"
      and d: "app_data_dictionary_extension_for_group parse (gc_app_components required)
               \<lparr> ics_name = cg_name req, ics_description = cg_description req, ics_admins = admin_set,
                 ics_app_components = cg_app_components req \<rparr> = Inr dict"
      and e: "ext = extension_from_group_capabilities required"
    using assms(1) by (auto simp: create_group_context_def r_simps)
  let ?r = "gc_app_components required"
  let ?init = "\<lparr> ics_name = cg_name req, ics_description = cg_description req, ics_admins = admin_set,
    ics_app_components = cg_app_components req \<rparr>"
  note cc = create_capabilities_Inr [OF c assms(2)]
  show "create_capabilities ck M eng req = Inr (required, parsed)" "length (ec_self_id eng) = 32" by (rule c, rule s)
  have "required_app_components_of_group g = Inr ?r"
    using creation_owned_entries(1) [OF d] decode_own_components [OF cc(1)] assms(4)
    by (simp add: required_app_components_of_group_def app_component_bytes_def)
  then show "gc_contains (required_capabilities_from_group g) c \<longleftrightarrow> gc_contains required c"
    using required_of_created assms(3) e by metis
  have "list_all (\<lambda>c. acs_contains ?r (component_id c)) (ics_app_components ?init)"
    using cc(6) by (auto simp: list_all_iff acs_contains_def)
  from created_role_bytes [OF d this]
  show "required_role_capabilities_from_group g = required_role_capabilities_from_request_components (cg_app_components req)"
    using assms(4) by (simp add: required_role_capabilities_from_group_def app_component_bytes_def
        required_role_capabilities_from_request_components_def)
  have ad: "set admin_set = insert (ec_self_id eng) (set (cg_initial_admins req))" "list_all (\<lambda>a. length a = 32) admin_set"
      "length admin_set * 32 < 2 ^ 62"
    using push_admins_Inr [OF a] s assms(5) by auto
  show "\<exists>admins. admins_of_group g = Inr admins \<and> set admins =
      (if acs_contains ?r GROUP_ADMIN_POLICY_COMPONENT_ID then insert (ec_self_id eng) (set (cg_initial_admins req)) else {})"
  proof (cases "acs_contains ?r GROUP_ADMIN_POLICY_COMPONENT_ID")
    case True
    then obtain bs where b: "dict GROUP_ADMIN_POLICY_COMPONENT_ID = Some bs" "encode_admin_policy admin_set = Inr bs"
      using creation_owned_entries(3) [OF d] by auto
    then have "admins_of_group g = Inr (remdups_adj (sort admin_set))"
      using decode_encoded_admins [OF b(2) ad(2,3)] assms(4) by (simp add: admins_of_group_def app_component_bytes_def)
    then show ?thesis using True ad(1) by simp
  next
    case False
    then show ?thesis
      using created_without_admin_policy [OF d False] assms(4) by (simp add: admins_of_group_def app_component_bytes_def)
  qed
qed

text \<open>
  C14: A created group can be joined by its founding members.  Take any member whose key package was
  published by a client with its own feature registry and supported components, and the group context that
  creation produced.  Once the identities of the group check out, the joining client accepts the welcome of
  the creator, whatever the features and components were, if the negotiated components include the admin
  policy; otherwise it rejects the creator as not being an admin.
\<close>
theorem created_group_joinable:
  assumes "create_group_context parse ck M eng req = Inr (required, parsed, ext, dict)"
    and "mg_required_capabilities g = [ext]" "mg_app_data g = Some dict"
    and "bs_inv (ec_supported_app_components eng)" "(length (cg_initial_admins req) + 1) * 32 < 2 ^ 62"
    and "own_leaf M (ec_registry joiner) (ec_ciphersuite joiner) (ec_supported_app_components joiner) identity key proof_bytes
      \<in> set parsed"
    and "bs_inv (ec_supported_app_components joiner)"
    and "validate_member_credentials_and_account_proofs ck (ec_ciphersuite joiner) g tree_leaves = Inr ()"
  shows "join_checks ck M joiner g tree_leaves (ec_self_id eng) =
    (if acs_contains (gc_app_components required) GROUP_ADMIN_POLICY_COMPONENT_ID then Inr ()
     else Inl (NotGroupAdmin (mg_group_id g)))"
proof -
  note g = create_group_context_Inr [OF assms(1,4,2,3,5)]
  have "gc_contains (self_supported_capabilities M (ec_registry joiner) (ec_ciphersuite joiner)
      (ec_supported_app_components joiner)) c"
    if "gc_contains (required_capabilities_from_group g) c \<or> gc_contains (required_role_capabilities_from_group g) c" for c
    using create_capabilities_Inr(3) [OF g(1) assms(4,6), of c] that
    by (simp add: g(3,4) own_leaf_capabilities [OF assms(7)])
  then have "join_capability_check M joiner g = Inr ()" by (auto simp: join_capability_check_def gc_covered Let_def)
  moreover obtain admins where "admins_of_group g = Inr admins" "set admins =
      (if acs_contains (gc_app_components required) GROUP_ADMIN_POLICY_COMPONENT_ID
       then insert (ec_self_id eng) (set (cg_initial_admins req)) else {})"
    using g(5) by blast
  ultimately show ?thesis using assms(8) g(2) by (auto simp: join_checks_def require_admin_def admin_pubkey_from_member_id_def)
qed

text \<open>
  C38: The admins of a created group.  They are the creator and the requested initial admins, if the admin
  policy was negotiated.  They all have a leaf exactly when every requested admin is the creator or one of
  the invited members, which the creation does not check.
\<close>
theorem created_admins:
  assumes "create_group_context parse ck M eng req = Inr (required, parsed, ext, dict)"
    and "mg_required_capabilities g = [ext]" "mg_app_data g = Some dict"
    and "bs_inv (ec_supported_app_components eng)" "(length (cg_initial_admins req) + 1) * 32 < 2 ^ 62"
    and "map mm_identity (mg_members g) = Some (ec_self_id eng) # map ln_identity parsed"
    and "acs_contains (gc_app_components required) GROUP_ADMIN_POLICY_COMPONENT_ID"
  shows "\<exists>admins. admins_of_group g = Inr admins \<and> set admins = insert (ec_self_id eng) (set (cg_initial_admins req)) \<and>
    (admins_have_leaf g \<longleftrightarrow> Some ` set (cg_initial_admins req) \<subseteq> insert (Some (ec_self_id eng)) (ln_identity ` set parsed))"
proof -
  obtain admins where a: "admins_of_group g = Inr admins" "set admins = insert (ec_self_id eng) (set (cg_initial_admins req))"
    using create_group_context_Inr(5) [OF assms(1,4,2,3,5)] assms(7) by auto
  let ?S = "insert (Some (ec_self_id eng)) (ln_identity ` set parsed)"
  have "mm_identity ` set (mg_members g) = ?S" using arg_cong [OF assms(6), of set] by simp
  then have "(\<exists>m \<in> set (mg_members g). mm_identity m = Some x) \<longleftrightarrow> Some x \<in> ?S" for x
    unfolding image_iff [symmetric] by (metis image_iff)
  then have "admins_have_leaf g \<longleftrightarrow> (\<forall>x \<in> set admins. Some x \<in> ?S)" by (simp add: admins_have_leaf_def a(1))
  also have "\<dots> \<longleftrightarrow> Some ` set (cg_initial_admins req) \<subseteq> ?S" unfolding a(2) by (simp add: image_subset_iff)
  finally show ?thesis using a by blast
qed

section \<open>Capability upgrades\<close>

definition member_supports :: "(MemberId \<Rightarrow> StorageError + GroupCapabilities option) \<Rightarrow> Capability \<Rightarrow> Member \<Rightarrow> bool" where
  "member_supports caps_of cap m \<longleftrightarrow> (\<exists>caps. caps_of (mb_id m) = Inr (Some caps) \<and> gc_contains caps cap)"

lemma members_support_True: "members_support caps_of cap ms = Inr True \<longleftrightarrow> list_all (member_supports caps_of cap) ms"
proof (induction ms)
  case (Cons m ms)
  then show ?case
    by (cases "caps_of (mb_id m)") (auto simp: member_supports_def split: option.split if_split_asm)
qed simp

text \<open>An entry of the registry that the upgrade takes up.\<close>

definition upgrades ::
  "(MemberId \<Rightarrow> StorageError + GroupCapabilities option) \<Rightarrow> Member list \<Rightarrow> GroupCapabilities \<Rightarrow> CapabilityRequirement \<Rightarrow> bool" where
  "upgrades caps_of members already spec \<longleftrightarrow>
     (\<forall>t. cr_level spec \<noteq> TransportRequired t) \<and> \<not> gc_contains already (cr_requires spec) \<and>
     list_all (member_supports caps_of (cr_requires spec)) members"

lemma upgradeable_loop_Inr:
  assumes "upgradeable_loop caps_of members already es up = Inr out"
  shows "(gc_contains out c \<longleftrightarrow> gc_contains up c \<or> (\<exists>e \<in> set es. upgrades caps_of members already (snd e) \<and> cr_requires (snd e) = c)) \<and>
    (gc_inv up \<longrightarrow> gc_inv out) \<and>
    (\<forall>e \<in> set es. (\<forall>t. cr_level (snd e) \<noteq> TransportRequired t) \<longrightarrow> \<not> gc_contains already (cr_requires (snd e)) \<longrightarrow>
      members_support caps_of (cr_requires (snd e)) members \<in> range Inr)"
  using assms
proof (induction es arbitrary: up)
  case (Cons e es)
  obtain feature spec where e: "e = (feature, spec)" by (cases e)
  show ?case
  proof (cases "(case cr_level spec of TransportRequired _ \<Rightarrow> True | _ \<Rightarrow> False) \<or> gc_contains already (cr_requires spec)")
    case True
    then have rec: "upgradeable_loop caps_of members already es up = Inr out"
      and no: "\<not> upgrades caps_of members already spec"
        "\<not> ((\<forall>t. cr_level spec \<noteq> TransportRequired t) \<and> \<not> gc_contains already (cr_requires spec))"
      using Cons.prems e by (auto simp: upgrades_def split: RequirementLevel.splits)
    then show ?thesis using Cons.IH [OF rec] e by auto
  next
    case False
    then obtain ok where ok: "members_support caps_of (cr_requires spec) members = Inr ok"
        "upgradeable_loop caps_of members already es (if ok then gc_insert (cr_requires spec) up else up) = Inr out"
      using Cons.prems e by (auto simp: r_simps)
    have "ok \<longleftrightarrow> upgrades caps_of members already spec"
      using False members_support_True [of caps_of "cr_requires spec" members] ok(1)
      by (auto simp: upgrades_def split: RequirementLevel.splits)
    then show ?thesis using Cons.IH [OF ok(2)] e ok(1) by auto
  qed
qed auto

lemma set_push_new [simp]: "set (push_new new old) = set new \<union> set old"
  by (auto simp: push_new_def)

lemma decode_components_inv: "decode_components_list bs = Inr s \<Longrightarrow> bs_inv s"
  unfolding components_list_canonical by (elim exE conjE) simp

lemma required_components_inv: "required_app_components_of_group g = Inr s \<Longrightarrow> bs_inv s"
  by (auto simp: required_app_components_of_group_def r_simps decode_components_inv split: option.split_asm)

definition upgrade_applied :: "UpgradePlan \<Rightarrow> MlsGroup \<Rightarrow> MlsGroup \<Rightarrow> bool" where
  "upgrade_applied plan g g' \<longleftrightarrow>
     mg_required_capabilities g' = (case up_required plan of Some rc \<Rightarrow> [rc] | None \<Rightarrow> mg_required_capabilities g) \<and>
     app_component_bytes g' APP_COMPONENTS_COMPONENT_ID =
       (case up_components plan of Some bytes \<Rightarrow> Some bytes | None \<Rightarrow> app_component_bytes g APP_COMPONENTS_COMPONENT_ID)"

lemma upgraded_components:
  assumes "upgrade_plan_of g up = Inr plan" "upgrade_applied plan g g'"
  shows "(\<exists>s. required_app_components_of_group g' = Inr s \<and> i \<in> set s) \<longleftrightarrow>
    (\<exists>s. required_app_components_of_group g = Inr s \<and> i \<in> set s) \<or> i \<in> set (gc_app_components up)"
proof (cases "up_components plan")
  case None
  then have "required_app_components_of_group g' = required_app_components_of_group g"
    using assms(2) by (simp add: upgrade_applied_def required_app_components_of_group_def)
  moreover have "gc_app_components up = [] \<or> (\<exists>s. required_app_components_of_group g = Inr s \<and>
      fold acs_insert (gc_app_components up) s = s)"
    using assms(1) None by (auto simp: upgrade_plan_of_def Let_def r_simps split: if_split_asm)
  moreover have "set (gc_app_components up) \<subseteq> set s" if "fold acs_insert (gc_app_components up) s = s" for s
    using arg_cong [OF that, of set] by auto
  ultimately show ?thesis by auto
next
  case (Some bytes)
  then obtain s where s: "required_app_components_of_group g = Inr s"
      "bytes = encode_components_list (fold acs_insert (gc_app_components up) s)"
    using assms(1) by (auto simp: upgrade_plan_of_def Let_def r_simps split: if_split_asm)
  have "required_app_components_of_group g' = Inr (fold acs_insert (gc_app_components up) s)"
    using assms(2) Some s(2) decode_own_components [OF bs_inv_fold_acs_insert [OF required_components_inv [OF s(1)]]]
    by (simp add: upgrade_applied_def required_app_components_of_group_def)
  then show ?thesis using s(1) by auto
qed

lemma upgraded_required:
  assumes "upgrade_plan_of g up = Inr plan" "upgrade_applied plan g g'"
  shows "gc_contains (required_capabilities_from_group g') c \<longleftrightarrow>
    gc_contains (required_capabilities_from_group g) c \<or> gc_contains up c"
proof -
  have rc: "up_required plan = (if gc_extensions up \<noteq> [] \<or> gc_proposals up \<noteq> []
      then Some (push_new (gc_extensions up) (concat (map fst (mg_required_capabilities g))),
                 push_new (gc_proposals up) (concat (map snd (mg_required_capabilities g)))) else None)"
    using assms(1) by (auto simp: upgrade_plan_of_def Let_def r_simps split: if_split_asm)
  have m: "mg_required_capabilities g' = (case up_required plan of Some rc \<Rightarrow> [rc] | None \<Rightarrow> mg_required_capabilities g)"
    using assms(2) by (simp add: upgrade_applied_def)
  show ?thesis
    unfolding required_of_group
  proof (cases c)
    case (CapAppComponent i)
    then show "(case c of CapExtension t \<Rightarrow> t \<in> set (concat (map fst (mg_required_capabilities g')))
        | CapProposal t \<Rightarrow> t \<in> set (concat (map snd (mg_required_capabilities g')))
        | CapAppComponent i \<Rightarrow> \<exists>s. required_app_components_of_group g' = Inr s \<and> i \<in> set s) \<longleftrightarrow>
      (case c of CapExtension t \<Rightarrow> t \<in> set (concat (map fst (mg_required_capabilities g)))
        | CapProposal t \<Rightarrow> t \<in> set (concat (map snd (mg_required_capabilities g)))
        | CapAppComponent i \<Rightarrow> \<exists>s. required_app_components_of_group g = Inr s \<and> i \<in> set s) \<or> gc_contains up c"
      using upgraded_components [OF assms, of i] by (simp add: gc_contains.simps acs_contains_def)
  qed (auto simp: m rc gc_contains.simps)
qed

abbreviation with_group :: "EngineStorage \<Rightarrow> GroupId \<Rightarrow> MlsGroup \<Rightarrow> EngineStorage" where
  "with_group st gid g \<equiv> st \<lparr> st_mls := (st_mls st)(gid := Inr (Some g)) \<rparr>"

lemma feature_status_iff:
  assumes "load_mls_group st gid = Inr g" "st_group st gid = Inr record"
  shows "do_feature_status registry st gid f = Inr Available \<longleftrightarrow>
      (\<exists>req. registry_get registry f = Some req \<and> gc_contains (required_capabilities_from_group g) (cr_requires req))"
    and "do_feature_status registry st gid f = Inr Upgradeable \<longleftrightarrow>
      (\<exists>req. registry_get registry f = Some req \<and> \<not> gc_contains (required_capabilities_from_group g) (cr_requires req) \<and>
        list_all (member_supports (st_caps st gid) (cr_requires req)) (gr_members record))"
  using assms unfolding members_support_True [symmetric] do_feature_status_def
  by (cases "registry_get registry f"; auto simp: r_simps)+

lemma upgrade_plan_Inr:
  assumes "upgrade_plan eng state st gid = Inr plan" "st_mls st gid = Inr (Some g)"
  shows "\<exists>record up. st_group st gid = Inr record \<and> upgrade_plan_of g up = Inr plan \<and>
    upgradeable_loop (st_caps st gid) (gr_members record) (required_capabilities_from_group g)
      (fr_features (ec_registry eng)) gc_default = Inr up"
  using assms
  by (auto simp: upgrade_plan_def do_upgradeable_capabilities_def load_mls_group_def r_simps split: if_split_asm)

lemma upgradeable_loop_done:
  assumes "\<forall>e \<in> set es. \<not> upgrades caps_of members already (snd e)"
    and "\<forall>e \<in> set es. (\<forall>t. cr_level (snd e) \<noteq> TransportRequired t) \<longrightarrow> \<not> gc_contains already (cr_requires (snd e)) \<longrightarrow>
      members_support caps_of (cr_requires (snd e)) members \<in> range Inr"
  shows "upgradeable_loop caps_of members already es up = Inr up"
  using assms
proof (induction es)
  case (Cons e es)
  obtain feature spec where e: "e = (feature, spec)" by (cases e)
  have "members_support caps_of (cr_requires spec) members = Inr False"
    if n: "\<forall>t. cr_level spec \<noteq> TransportRequired t" "\<not> gc_contains already (cr_requires spec)"
  proof -
    obtain b where b: "members_support caps_of (cr_requires spec) members = Inr b" using Cons.prems(2) n e by auto
    moreover have "\<not> list_all (member_supports caps_of (cr_requires spec)) members"
      using Cons.prems(1) n e by (auto simp: upgrades_def)
    ultimately show ?thesis using members_support_True [of caps_of "cr_requires spec" members] by (cases b) auto
  qed
  then show ?case using Cons.IH Cons.prems e by (auto split: RequirementLevel.splits)
qed simp

text \<open>
  C15: A capability upgrade does what it announces.  Let the upgrade commit be applied to the group.  Then
  every capability that became required is advertised by every member of the group record; a feature that
  was upgradeable is available, unless it is bound to a transport; features that were available stay so; and
  nothing is left to upgrade.  A feature bound to a transport stays upgradeable, although no upgrade will
  make it available, if no other feature needs its capability.
\<close>
theorem upgrade_completes:
  assumes "upgrade_plan eng state st gid = Inr plan" "st_mls st gid = Inr (Some g)" "upgrade_applied plan g g'"
    and "st' = with_group st gid g'"
  shows "\<exists>record. st_group st gid = Inr record \<and>
    (\<forall>c. gc_contains (required_capabilities_from_group g') c \<longrightarrow> \<not> gc_contains (required_capabilities_from_group g) c \<longrightarrow>
       list_all (member_supports (st_caps st gid) c) (gr_members record)) \<and>
    (\<forall>feature req. registry_get (ec_registry eng) feature = Some req \<longrightarrow> (\<forall>t. cr_level req \<noteq> TransportRequired t) \<longrightarrow>
       do_feature_status (ec_registry eng) st gid feature = Inr Upgradeable \<longrightarrow>
       do_feature_status (ec_registry eng) st' gid feature = Inr Available) \<and>
    (\<forall>feature. do_feature_status (ec_registry eng) st gid feature = Inr Available \<longrightarrow>
       do_feature_status (ec_registry eng) st' gid feature = Inr Available) \<and>
    do_upgradeable_capabilities (ec_registry eng) st' gid = Inr gc_default \<and>
    (\<forall>feature req. registry_get (ec_registry eng) feature = Some req \<longrightarrow>
       list_all (\<lambda>e. cr_requires (snd e) = cr_requires req \<longrightarrow> (\<exists>t. cr_level (snd e) = TransportRequired t))
         (fr_features (ec_registry eng)) \<longrightarrow>
       do_feature_status (ec_registry eng) st gid feature = Inr Upgradeable \<longrightarrow>
       do_feature_status (ec_registry eng) st' gid feature = Inr Upgradeable)"
proof -
  let ?reg = "ec_registry eng" and ?caps = "st_caps st gid"
  obtain rec up where r: "st_group st gid = Inr rec" and p: "upgrade_plan_of g up = Inr plan"
      and l: "upgradeable_loop ?caps (gr_members rec) (required_capabilities_from_group g) (fr_features ?reg) gc_default = Inr up"
    using upgrade_plan_Inr [OF assms(1,2)] by blast
  let ?already = "required_capabilities_from_group g" and ?now = "required_capabilities_from_group g'"
  have up: "gc_contains up c \<longleftrightarrow> (\<exists>e \<in> set (fr_features ?reg). upgrades ?caps (gr_members rec) ?already (snd e) \<and> cr_requires (snd e) = c)" for c
    using upgradeable_loop_Inr [OF l, of c] by simp
  have now: "gc_contains ?now c \<longleftrightarrow> gc_contains ?already c \<or> gc_contains up c" for c
    by (rule upgraded_required [OF p assms(3)])
  have st': "st_group st' = st_group st" "st_caps st' = st_caps st" "load_mls_group st gid = Inr g" "load_mls_group st' gid = Inr g'"
    using assms(2,4) by (simp_all add: load_mls_group_def)
  have g': "st_group st' gid = Inr rec" using r st'(1) by simp
  note status = feature_status_iff [OF st'(3) r, of ?reg] feature_status_iff [OF st'(4) g', of ?reg, unfolded st'(2)]
  have in_reg: "(f, req) \<in> set (fr_features ?reg)" if "registry_get ?reg f = Some req" for f req
    using that by (simp add: registry_get_def map_of_SomeD)
  have a: "list_all (member_supports ?caps c) (gr_members rec)" if "gc_contains ?now c" "\<not> gc_contains ?already c" for c
  proof -
    have "gc_contains up c" using that now [of c] by simp
    then obtain spec where "upgrades ?caps (gr_members rec) ?already spec" "cr_requires spec = c" unfolding up by blast
    then show ?thesis unfolding upgrades_def by simp
  qed
  have b: "do_feature_status ?reg st' gid f = Inr Available"
    if "registry_get ?reg f = Some req" "\<forall>t. cr_level req \<noteq> TransportRequired t" "do_feature_status ?reg st gid f = Inr Upgradeable" for f req
  proof -
    have "\<not> gc_contains ?already (cr_requires req)" "list_all (member_supports ?caps (cr_requires req)) (gr_members rec)"
      using that(1,3) unfolding status by auto
    then have "upgrades ?caps (gr_members rec) ?already (snd (f, req))" using that(2) by (simp add: upgrades_def)
    then have "gc_contains up (cr_requires req)" using in_reg [OF that(1)] unfolding up by force
    then have "gc_contains ?now (cr_requires req)" using now [of "cr_requires req"] by simp
    then show ?thesis unfolding status(3) using that(1) by (intro exI conjI)
  qed
  have d: "do_upgradeable_capabilities ?reg st' gid = Inr gc_default"
  proof -
    have "\<not> upgrades ?caps (gr_members rec) ?now (snd e)" if "e \<in> set (fr_features ?reg)" for e
    proof
      assume u: "upgrades ?caps (gr_members rec) ?now (snd e)"
      then have "upgrades ?caps (gr_members rec) ?already (snd e)" using now by (simp add: upgrades_def)
      then have "gc_contains up (cr_requires (snd e))" using that up by blast
      then show False using u now by (simp add: upgrades_def)
    qed
    then have "\<forall>e \<in> set (fr_features ?reg). \<not> upgrades ?caps (gr_members rec) ?now (snd e)" by blast
    moreover have "\<forall>e \<in> set (fr_features ?reg). (\<forall>t. cr_level (snd e) \<noteq> TransportRequired t) \<longrightarrow>
        \<not> gc_contains ?now (cr_requires (snd e)) \<longrightarrow> members_support ?caps (cr_requires (snd e)) (gr_members rec) \<in> range Inr"
      using upgradeable_loop_Inr [OF l, THEN conjunct2, THEN conjunct2] now by simp
    ultimately show ?thesis using st' r by (simp add: do_upgradeable_capabilities_def upgradeable_loop_done)
  qed
  have t: "do_feature_status ?reg st' gid f = Inr Upgradeable"
    if "registry_get ?reg f = Some req" "do_feature_status ?reg st gid f = Inr Upgradeable"
      "list_all (\<lambda>e. cr_requires (snd e) = cr_requires req \<longrightarrow> (\<exists>t. cr_level (snd e) = TransportRequired t)) (fr_features ?reg)" for f req
  proof -
    have "\<not> gc_contains up (cr_requires req)" using that(3) unfolding up by (auto simp: upgrades_def list_all_iff)
    then have "gc_contains ?now (cr_requires req) \<longleftrightarrow> gc_contains ?already (cr_requires req)" using now by simp
    then show ?thesis using that(1,2) unfolding status by simp
  qed
  have e: "do_feature_status ?reg st' gid f = Inr Available" if av: "do_feature_status ?reg st gid f = Inr Available" for f
  proof -
    obtain req where "registry_get ?reg f = Some req" "gc_contains ?already (cr_requires req)" using av status(1) by auto
    moreover have "gc_contains ?now (cr_requires req)" using now calculation(2) by simp
    ultimately show ?thesis unfolding status(3) by (intro exI conjI)
  qed
  show ?thesis
  proof (rule exI [of _ rec], intro conjI allI impI)
    show "st_group st gid = Inr rec" by (rule r)
  qed (rule a b e d t; assumption)+
qed

section \<open>Examples\<close>

definition ex_mls :: Mls where
  "ex_mls = \<lparr> mt_required_capabilities = 3, mt_app_data_dictionary = 6, mt_last_resort = 10, mt_app_data_update = 8,
     mt_is_grease = (\<lambda>_. False), mt_extension_rank = (\<lambda>_. 0), mt_proposal_rank = (\<lambda>_. 0),
     mt_deserialize = (\<lambda>bytes. Inr (BodyKeyPackage bytes)),
     mt_validate = (\<lambda>_. Inr (own_leaf \<lparr> mt_required_capabilities = 3, mt_app_data_dictionary = 6, mt_last_resort = 10,
       mt_app_data_update = 8, mt_is_grease = (\<lambda>_. False), mt_extension_rank = (\<lambda>_. 0), mt_proposal_rank = (\<lambda>_. 0),
       mt_deserialize = (\<lambda>_. Inl []), mt_validate = (\<lambda>_. Inl []) \<rparr>
       (register ''reactions'' \<lparr> cr_requires = CapExtension 0xF2AA, cr_level = Optional, cr_description = [] \<rparr> registry_new)
       1 default_group_components ex_account [9, 9]
       (encode_proof \<lparr> proof_request = ex_request, proof_signature = replicate 64 5 \<rparr>))) \<rparr>"

definition ex_registry :: FeatureRegistry where
  "ex_registry =
     register ''reactions'' \<lparr> cr_requires = CapExtension 0xF2AA, cr_level = Optional, cr_description = [] \<rparr> registry_new"

definition ex_joiner :: EngineConfig where
  "ex_joiner = \<lparr> ec_registry = ex_registry, ec_ciphersuite = 1, ec_supported_app_components = default_group_components,
     ec_self_id = ex_account \<rparr>"

definition ex_joiner_leaf :: LeafNode where
  "ex_joiner_leaf = own_leaf ex_mls ex_registry 1 default_group_components ex_account [9, 9]
     (encode_proof \<lparr> proof_request = ex_request, proof_signature = replicate 64 5 \<rparr>)"

definition ex_creator :: EngineConfig where
  "ex_creator = ex_joiner \<lparr> ec_self_id := replicate 32 2 \<rparr>"

definition ex_create :: CreateGroupRequest where
  "ex_create = \<lparr> cg_name = ''team'', cg_description = [], cg_members = [[0]], cg_required_features = [],
     cg_app_components = [], cg_initial_admins = [ex_account] \<rparr>"

definition ex_required :: GroupCapabilities where
  "ex_required = \<lparr> gc_proposals = [8], gc_extensions = [6, 0xF2F1], gc_app_components = [0x8001, 0x8003] \<rparr>"

definition ex_created_group :: MlsGroup where
  "ex_created_group = \<lparr> mg_group_id = [7], mg_required_capabilities = [([6, 0xF2F1], [8])], mg_app_data = Some ex_created_dict,
     mg_members = [\<lparr> mm_index = 0, mm_identity = Some (replicate 32 2) \<rparr>, \<lparr> mm_index = 1, mm_identity = Some ex_account \<rparr>] \<rparr>"

lemma ex_validated: "mt_validate ex_mls kp = Inr ex_joiner_leaf"
  by (simp add: ex_mls_def ex_joiner_leaf_def own_leaf_def leaf_capabilities_def ex_registry_def)

lemma ex_joiner_fields:
  "ln_identity ex_joiner_leaf = Some ex_account" "ln_signature_key ex_joiner_leaf = ln_signature_key ex_leaf"
  "ln_unknown ex_joiner_leaf = ln_unknown ex_leaf" "ln_identity ex_leaf = Some ex_account"
  by (simp_all add: ex_joiner_leaf_def own_leaf_def Let_def ex_leaf_def)

lemma ex_joiner_valid: "validate_leaf_account_identity_proof ex_crypto ex_joiner_leaf 1 = Inr ()"
proof -
  have k: "check_proof ex_crypto i ex_joiner_leaf 1 = check_proof ex_crypto i ex_leaf 1" for i
    by (rule ext) (simp add: check_proof_def ex_joiner_fields)
  show ?thesis
    using ex_leaf_valid unfolding validate_leaf_account_identity_proof_def validated_member_id_of_leaf_def k ex_joiner_fields .
qed

lemma ex_joiner_capabilities:
  "capabilities_of_leaf ex_mls ex_joiner_leaf =
     \<lparr> gc_proposals = [8], gc_extensions = [3, 6, 10, 0xF2AA, 0xF2F1], gc_app_components = [0x8001, 0x8003] \<rparr>"
proof -
  have "bs_inv default_group_components" by (simp add: default_group_components_def)
  moreover have "self_supported_capabilities ex_mls ex_registry 1 default_group_components =
     \<lparr> gc_proposals = [8], gc_extensions = [3, 6, 10, 0xF2AA, 0xF2F1], gc_app_components = [0x8001, 0x8003] \<rparr>"
    by code_simp
  ultimately show ?thesis unfolding ex_joiner_leaf_def by (simp add: own_leaf_capabilities)
qed

lemma ex_parsed: "parse_key_package ex_crypto ex_mls 1 kp = Inr ex_joiner_leaf"
proof -
  have "validated_member_id ex_crypto (Some ex_account) = Inr ex_account" by code_simp
  then have "validated_member_id_of_leaf ex_crypto ex_joiner_leaf = Inr ex_account"
    by (simp add: validated_member_id_of_leaf_def ex_joiner_fields)
  moreover have "mt_deserialize ex_mls kp = Inr (BodyKeyPackage kp)" by (simp add: ex_mls_def)
  ultimately show ?thesis by (simp add: parse_key_package_def ex_validated ex_joiner_valid)
qed

lemma ex_created_context:
  "create_group_context ex_parse ex_crypto ex_mls ex_creator ex_create =
     Inr (ex_required, [ex_joiner_leaf], ([6, 0xF2F1], [8]), ex_created_dict)"
proof -
  let ?caps = "\<lparr> gc_proposals = [8], gc_extensions = [6, 0xF2F1], gc_app_components = [] \<rparr>"
  have f: "required_capabilities_extension_for_features ex_mls ex_registry [] [] = Inr (?caps, ([6, 0xF2F1], [8]))"
    by code_simp
  have r: "required_role_capabilities_from_request_components [] = gc_default"
    by (simp add: required_role_capabilities_from_request_components_def role_capabilities_of_bytes_def)
  have c: "gc_is_empty (gc_missing_from ?caps (capabilities_of_leaf ex_mls ex_joiner_leaf))"
      "gc_is_empty (gc_missing_from gc_default (capabilities_of_leaf ex_mls ex_joiner_leaf))"
      "acs_intersection (acs_intersection default_group_components default_group_components)
        (gc_app_components (capabilities_of_leaf ex_mls ex_joiner_leaf)) = [0x8001, 0x8003]"
      "acs_missing_from [] default_group_components = []"
    unfolding ex_joiner_capabilities by code_simp+
  have "create_capabilities ex_crypto ex_mls ex_creator ex_create = Inr (ex_required, [ex_joiner_leaf])"
    using f r c by (simp add: create_capabilities_def ex_creator_def ex_joiner_def ex_create_def Let_def ex_parsed ex_required_def)
  moreover have "push_admins [ex_account] [replicate 32 2] = Inr [replicate 32 2, replicate 32 1]"
      "admin_pubkey_from_member_id (replicate 32 2) = Inr (replicate 32 2)" "default_group_components = [0x8001, 0x8003]"
    by code_simp+
  ultimately show ?thesis
    using ex_created by (simp add: create_group_context_def ex_creator_def ex_joiner_def ex_create_def ex_required_def
        ex_initial_def extension_from_group_capabilities_def)
qed

lemma ex_created_group_facts:
  "mg_required_capabilities ex_created_group = [([6, 0xF2F1], [8])]" "mg_app_data ex_created_group = Some ex_created_dict"
  "bs_inv (ec_supported_app_components ex_creator)" "bs_inv (ec_supported_app_components ex_joiner)"
  "(length (cg_initial_admins ex_create) + 1) * 32 < 2 ^ 62"
  by (simp_all add: ex_created_group_def ex_creator_def ex_joiner_def default_group_components_def ex_create_def)

theorem created_group_joinable_witness:
  "join_checks ex_crypto ex_mls ex_joiner ex_created_group [ex_joiner_leaf] (replicate 32 2) = Inr ()"
proof -
  have l: "own_leaf ex_mls (ec_registry ex_joiner) (ec_ciphersuite ex_joiner) (ec_supported_app_components ex_joiner) ex_account
      [9, 9] (encode_proof \<lparr> proof_request = ex_request, proof_signature = replicate 64 5 \<rparr>) \<in> set [ex_joiner_leaf]"
    by (simp add: ex_joiner_def ex_joiner_leaf_def)
  have v: "validate_member_credentials_and_account_proofs ex_crypto (ec_ciphersuite ex_joiner) ex_created_group [ex_joiner_leaf] = Inr ()"
  proof -
    have "validate_member_credentials ex_crypto (mg_members ex_created_group) = Inr ()" by code_simp
    then show ?thesis
      by (simp add: validate_member_credentials_and_account_proofs_def ex_joiner_def ex_joiner_valid)
  qed
  have "acs_contains (gc_app_components ex_required) GROUP_ADMIN_POLICY_COMPONENT_ID" by code_simp
  moreover have "ec_self_id ex_creator = replicate 32 2" by (simp add: ex_creator_def)
  ultimately show ?thesis
    using created_group_joinable [OF ex_created_context ex_created_group_facts(1-3,5) l ex_created_group_facts(4) v] by simp
qed

theorem created_admins_witness:
  "\<exists>admins. admins_of_group ex_created_group = Inr admins \<and> set admins = {replicate 32 2, ex_account} \<and>
     admins_have_leaf ex_created_group"
proof -
  have m: "map mm_identity (mg_members ex_created_group) = Some (ec_self_id ex_creator) # map ln_identity [ex_joiner_leaf]"
    by (simp add: ex_created_group_def ex_creator_def ex_joiner_leaf_def own_leaf_def Let_def)
  have "acs_contains (gc_app_components ex_required) GROUP_ADMIN_POLICY_COMPONENT_ID" by code_simp
  from created_admins [OF ex_created_context ex_created_group_facts(1-3,5) m this] show ?thesis
    by (simp add: ex_create_def ex_creator_def ex_joiner_leaf_def own_leaf_def Let_def)
qed

definition ex_record :: Group where
  "ex_record = \<lparr> gr_id = [7], gr_name = ''team'', gr_description = [], gr_epoch = 1,
     gr_members = [\<lparr> mb_id = ex_account, mb_credential = [9, 9] \<rparr>], gr_required_capabilities = ex_required \<rparr>"

definition ex_storage :: EngineStorage where
  "ex_storage = \<lparr> st_mls = (\<lambda>_. Inr (Some ex_created_group)), st_group = (\<lambda>_. Inr ex_record),
     st_caps = (\<lambda>_ _. Inr (Some (capabilities_of_leaf ex_mls ex_joiner_leaf))) \<rparr>"

definition ex_upgraded_group :: MlsGroup where
  "ex_upgraded_group = ex_created_group \<lparr> mg_required_capabilities := [([6, 0xF2AA, 0xF2F1], [8])] \<rparr>"

theorem upgrade_completes_witness:
  "do_feature_status ex_registry ex_storage [7] ''reactions'' = Inr Upgradeable \<and>
   do_feature_status ex_registry (with_group ex_storage [7] ex_upgraded_group) [7] ''reactions'' = Inr Available \<and>
   do_upgradeable_capabilities ex_registry (with_group ex_storage [7] ex_upgraded_group) [7] = Inr gc_default"
proof -
  let ?plan = "\<lparr> up_required = Some ([6, 0xF2AA, 0xF2F1], [8]), up_components = None \<rparr>"
  let ?up = "\<lparr> gc_proposals = [], gc_extensions = [0xF2AA], gc_app_components = [] \<rparr>"
  obtain admins where "admins_of_group ex_created_group = Inr admins" "ex_account \<in> set admins"
    using create_group_context_Inr(5) [OF ex_created_context ex_created_group_facts(3,1,2,5)]
    by (auto simp: ex_required_def ex_create_def acs_contains_def component_ids)
  then have q: "require_admin ex_created_group [7] (ec_self_id ex_joiner) = Inr ()"
    by (simp add: require_admin_def admin_pubkey_from_member_id_def ex_joiner_def ex_account_def)
  have "\<not> gc_contains ex_required (CapExtension 0xF2AA)" by (simp add: ex_required_def gc_contains.simps)
  then have n: "\<not> gc_contains (required_capabilities_from_group ex_created_group) (CapExtension 0xF2AA)"
    using create_group_context_Inr(3) [OF ex_created_context ex_created_group_facts(3,1,2,5)] by simp
  have m: "members_support (st_caps ex_storage [7]) (CapExtension 0xF2AA) (gr_members ex_record) = Inr True"
    by (simp add: ex_storage_def ex_record_def ex_joiner_capabilities gc_contains.simps)
  have ld: "load_mls_group ex_storage [7] = Inr ex_created_group" "st_group ex_storage [7] = Inr ex_record"
      "fr_features ex_registry = [(''reactions'', \<lparr> cr_requires = CapExtension 0xF2AA, cr_level = Optional, cr_description = [] \<rparr>)]"
    by (simp_all add: load_mls_group_def ex_storage_def ex_registry_def register_def registry_new_def)
  have "gc_insert (CapExtension 0xF2AA) gc_default = ?up" by code_simp
  then have u: "do_upgradeable_capabilities ex_registry ex_storage [7] = Inr ?up"
    using n m by (simp add: do_upgradeable_capabilities_def ld)
  have "upgrade_plan_of ex_created_group ?up = Inr ?plan"
    by (simp add: upgrade_plan_of_def push_new_def ex_created_group_def)
  then have p: "upgrade_plan ex_joiner (None :: unit EpochState option) ex_storage [7] = Inr ?plan"
    using q u by (simp add: upgrade_plan_def require_stable_def gc_is_empty_def ex_joiner_def ld)
  have s: "st_mls ex_storage [7] = Inr (Some ex_created_group)" by (simp add: ex_storage_def)
  have a: "upgrade_applied ?plan ex_created_group ex_upgraded_group"
    by (simp add: upgrade_applied_def ex_upgraded_group_def app_component_bytes_def)
  have r: "ec_registry ex_joiner = ex_registry" by (simp add: ex_joiner_def)
  have f: "do_feature_status ex_registry ex_storage [7] ''reactions'' = Inr Upgradeable"
      "registry_get ex_registry ''reactions'' = Some \<lparr> cr_requires = CapExtension 0xF2AA, cr_level = Optional, cr_description = [] \<rparr>"
    using n m by (simp_all add: do_feature_status_def registry_get_def ld)
  obtain rec where "\<forall>feature req. registry_get ex_registry feature = Some req \<longrightarrow> (\<forall>t. cr_level req \<noteq> TransportRequired t) \<longrightarrow>
      do_feature_status ex_registry ex_storage [7] feature = Inr Upgradeable \<longrightarrow>
      do_feature_status ex_registry (with_group ex_storage [7] ex_upgraded_group) [7] feature = Inr Available"
      "do_upgradeable_capabilities ex_registry (with_group ex_storage [7] ex_upgraded_group) [7] = Inr gc_default"
    using upgrade_completes [OF p s a refl, unfolded r] by (elim exE conjE)
  then show ?thesis using f by simp
qed

end
