(* ===== verification/Quic_Stream.thy ===== *)
theory Quic_Stream
  imports Agent_Text_Stream
begin

text \<open>
  The direct QUIC path of agent text streams (\<^verbatim>\<open>crates/transport-quic-stream/src\<close>): frame lengths
  and caps, receive limits, record encryption, the sender that chunks a text into records, and the
  receiver that reassembles it.  A QUIC stream is the list of bytes the sender wrote before finishing
  it; key derivation, the AEAD and SHA-256 are the fields of a record.  Connection errors, deadlines and
  delays are left out: they only end an operation early.
\<close>

unbundle bit_operations_syntax

section \<open>Frames and caps\<close>

definition AGENT_TEXT_STREAM_FRAME_ALLOWANCE :: nat where "AGENT_TEXT_STREAM_FRAME_ALLOWANCE = 1024"

definition FRAME_LEN_BYTES :: nat where "FRAME_LEN_BYTES = 4"

definition MAX_FRAME_SIZE :: nat where
  "MAX_FRAME_SIZE = unat AGENT_TEXT_STREAM_MAX_PLAINTEXT_FRAME_LEN + AGENT_TEXT_STREAM_FRAME_ALLOWANCE"

definition effective_plaintext_cap :: "u32 option \<Rightarrow> nat" where
  "effective_plaintext_cap policy =
     unat (case policy of
             None \<Rightarrow> AGENT_TEXT_STREAM_MAX_PLAINTEXT_FRAME_LEN
           | Some len \<Rightarrow> if len > 0 then min len AGENT_TEXT_STREAM_MAX_PLAINTEXT_FRAME_LEN
                         else AGENT_TEXT_STREAM_MAX_PLAINTEXT_FRAME_LEN)"

definition frame_len_cap :: "u32 option \<Rightarrow> nat" where
  "frame_len_cap policy = effective_plaintext_cap policy + AGENT_TEXT_STREAM_FRAME_ALLOWANCE"

datatype AgentTextStreamReceiveLimitError =
    RecordLimitExceeded u64 u64
  | PlaintextByteLimitExceeded nat nat

datatype QuicTextStreamError =
    QReadExact
  | QRecord AgentTextStreamRecordError
  | QReceiveLimit AgentTextStreamReceiveLimitError
  | QUtf8 string
  | QEmptyStream
  | QTruncatedFrameLength
  | QEmptyFrame
  | QFrameTooLarge nat
  | QEmptyChunkSize
  | QChunkSizeTooLarge nat
  | QEncryptedFrameTooLarge nat
  | QMixedStreamIds
  | QUnexpectedSequence u64 u64
  | QCrypto string

definition validate_frame_len :: "nat \<Rightarrow> nat \<Rightarrow> QuicTextStreamError + unit" where
  "validate_frame_len len max_frame_len =
     (if len = 0 then Inl QEmptyFrame
      else if len > min max_frame_len MAX_FRAME_SIZE then Inl (QFrameTooLarge len)
      else Inr ())"

definition write_record :: "AgentTextStreamRecordV1 \<Rightarrow> QuicTextStreamError + bytes" where
  "write_record record =
     r_bind (r_map_err QRecord (record_encode record)) (\<lambda>bytes.
       if length bytes > 4294967295 then Inl (QFrameTooLarge (length bytes))
       else Inr (to_be_bytes 4 (of_nat (length bytes) :: u32) @ bytes))"

definition read_record :: "bytes \<Rightarrow> nat \<Rightarrow> QuicTextStreamError + (AgentTextStreamRecordV1 \<times> bytes) option" where
  "read_record recv max_frame_len =
     (if recv = [] then Inr None
      else if length recv < FRAME_LEN_BYTES then Inl QTruncatedFrameLength
      else (let len = unat (from_be_bytes (take FRAME_LEN_BYTES recv) :: u32); rest = drop FRAME_LEN_BYTES recv in
            r_bind (validate_frame_len len max_frame_len) (\<lambda>_.
              if length rest < len then Inl QReadExact
              else r_bind (r_map_err QRecord (record_decode (take len rest))) (\<lambda>record.
                Inr (Some (record, drop len rest))))))"

section \<open>Receive limits\<close>

record AgentTextStreamReceiveLimits =
  max_records :: u64
  max_plaintext_bytes :: nat
  rl_max_plaintext_frame_len :: u32

record AgentTextStreamReceiveAccumulator =
  acc_limits :: AgentTextStreamReceiveLimits
  acc_wire_records :: u64
  acc_records :: u64
  acc_plaintext_bytes :: nat

definition accumulator_new :: "AgentTextStreamReceiveLimits \<Rightarrow> AgentTextStreamReceiveAccumulator" where
  "accumulator_new limits =
     \<lparr> acc_limits = limits, acc_wire_records = 0, acc_records = 0, acc_plaintext_bytes = 0 \<rparr>"

definition checked_add_one :: "u64 \<Rightarrow> u64 option" where
  "checked_add_one n = (if n = - 1 then None else Some (n + 1))"

definition observe_wire_record ::
  "AgentTextStreamReceiveAccumulator \<Rightarrow> AgentTextStreamReceiveLimitError + AgentTextStreamReceiveAccumulator" where
  "observe_wire_record a =
     (case checked_add_one (acc_wire_records a) of
        None \<Rightarrow> Inl (RecordLimitExceeded (- 1) (max_records (acc_limits a)))
      | Some n \<Rightarrow> if n > max_records (acc_limits a) then Inl (RecordLimitExceeded n (max_records (acc_limits a)))
                  else Inr (a \<lparr> acc_wire_records := n \<rparr>))"

definition observe ::
  "AgentTextStreamRecordV1 \<Rightarrow> AgentTextStreamReceiveAccumulator \<Rightarrow>
   AgentTextStreamReceiveLimitError + AgentTextStreamReceiveAccumulator" where
  "observe record a =
     (case checked_add_one (acc_records a) of
        None \<Rightarrow> Inl (RecordLimitExceeded (- 1) (max_records (acc_limits a)))
      | Some n \<Rightarrow>
          if n > max_records (acc_limits a) then Inl (RecordLimitExceeded n (max_records (acc_limits a)))
          else (let total = acc_plaintext_bytes a + length (rec_plaintext_frame record) in
                if total > USIZE_MAX
                then Inl (PlaintextByteLimitExceeded USIZE_MAX (max_plaintext_bytes (acc_limits a)))
                else if total > max_plaintext_bytes (acc_limits a)
                then Inl (PlaintextByteLimitExceeded total (max_plaintext_bytes (acc_limits a)))
                else Inr (a \<lparr> acc_records := n, acc_plaintext_bytes := total \<rparr>)))"

section \<open>Record encryption\<close>

record StreamPrims =
  sp_sha256 :: "bytes \<Rightarrow> bytes"
  sp_prk_ok :: "bytes \<Rightarrow> bool"
  sp_hkdf_expand :: "bytes \<Rightarrow> bytes \<Rightarrow> nat \<Rightarrow> bytes option"
  sp_seal :: "bytes \<Rightarrow> bytes \<Rightarrow> bytes \<Rightarrow> bytes \<Rightarrow> bytes option"
  sp_open :: "bytes \<Rightarrow> bytes \<Rightarrow> bytes \<Rightarrow> bytes \<Rightarrow> bytes option"

record AgentTextStreamCrypto =
  stream_secret :: bytes
  key_context :: AgentTextStreamKeyContextV1

definition validate_crypto_record_context ::
  "AgentTextStreamCrypto \<Rightarrow> AgentTextStreamRecordV1 \<Rightarrow> QuicTextStreamError + unit" where
  "validate_crypto_record_context crypto record =
     (if length (stream_secret crypto) \<noteq> 32 then Inl (QCrypto ''agent text stream secret must be 32 bytes'')
      else if length (kc_stream_id (key_context crypto)) \<noteq> 32
      then Inl (QCrypto ''agent text stream id must be 32 bytes'')
      else if length (kc_start_event_id (key_context crypto)) \<noteq> 32
      then Inl (QCrypto ''agent text stream start event id must be 32 bytes'')
      else if kc_stream_id (key_context crypto) \<noteq> rec_stream_id record then Inl QMixedStreamIds
      else Inr ())"

definition derive_bytes :: "StreamPrims \<Rightarrow> nat \<Rightarrow> AgentTextStreamCrypto \<Rightarrow> bytes \<Rightarrow> QuicTextStreamError + bytes" where
  "derive_bytes P n crypto label =
     (if \<not> sp_prk_ok P (stream_secret crypto) then Inl (QCrypto ''invalid stream secret'')
      else (let info = encode_quic_varint (of_nat (length label)) @ label @ key_context_encode (key_context crypto) in
            case sp_hkdf_expand P (stream_secret crypto) info n of
              None \<Rightarrow> Inl (QCrypto ''agent text stream HKDF expand failed'')
            | Some out \<Rightarrow> Inr out))"

definition derive_record_key :: "StreamPrims \<Rightarrow> AgentTextStreamCrypto \<Rightarrow> QuicTextStreamError + bytes" where
  "derive_record_key P crypto = derive_bytes P 32 crypto (as_bytes ''record key'')"

definition derive_record_nonce :: "StreamPrims \<Rightarrow> AgentTextStreamCrypto \<Rightarrow> u64 \<Rightarrow> QuicTextStreamError + bytes" where
  "derive_record_nonce P crypto seq =
     r_bind (derive_bytes P 12 crypto (as_bytes ''record nonce'')) (\<lambda>nonce.
       Inr (map (\<lambda>(b, s). b XOR s) (zip nonce (drop 4 (to_be_bytes 16 (ucast seq :: 128 word))))))"

definition record_aad :: "StreamPrims \<Rightarrow> AgentTextStreamCrypto \<Rightarrow> AgentTextStreamRecordV1 \<Rightarrow> bytes" where
  "record_aad P crypto record =
     (let c = key_context crypto in
      [AGENT_TEXT_STREAM_RECORD_VERSION] @ sp_sha256 P (kc_group_id c)
      @ encode_quic_varint (of_nat (length (rec_stream_id record))) @ rec_stream_id record
      @ to_be_bytes 8 (kc_mls_epoch c)
      @ encode_quic_varint (of_nat (length (kc_sender_id c))) @ kc_sender_id c
      @ to_be_bytes 8 (rec_seq record) @ [rec_type record] @ [rec_flags record])"

definition encrypt_record ::
  "StreamPrims \<Rightarrow> AgentTextStreamCrypto \<Rightarrow> AgentTextStreamRecordV1 \<Rightarrow> QuicTextStreamError + AgentTextStreamRecordV1" where
  "encrypt_record P crypto record =
     r_bind (validate_crypto_record_context crypto record) (\<lambda>_.
       if length (rec_plaintext_frame record) > unat AGENT_TEXT_STREAM_MAX_PLAINTEXT_FRAME_LEN
       then Inl (QEncryptedFrameTooLarge (length (rec_plaintext_frame record)))
       else r_bind (derive_record_key P crypto) (\<lambda>key.
         r_bind (derive_record_nonce P crypto (rec_seq record)) (\<lambda>nonce.
           case sp_seal P key nonce (record_aad P crypto record) (rec_plaintext_frame record) of
             None \<Rightarrow> Inl (QCrypto ''record encryption failed'')
           | Some ciphertext \<Rightarrow> Inr (record \<lparr> rec_plaintext_frame := ciphertext \<rparr>))))"

definition decrypt_record ::
  "StreamPrims \<Rightarrow> AgentTextStreamCrypto \<Rightarrow> AgentTextStreamRecordV1 \<Rightarrow> QuicTextStreamError + AgentTextStreamRecordV1" where
  "decrypt_record P crypto record =
     r_bind (validate_crypto_record_context crypto record) (\<lambda>_.
       if length (rec_plaintext_frame record) < AGENT_TEXT_STREAM_AEAD_TAG_LEN
       then Inl (QCrypto ''encrypted record frame is shorter than the AEAD tag'')
       else r_bind (derive_record_key P crypto) (\<lambda>key.
         r_bind (derive_record_nonce P crypto (rec_seq record)) (\<lambda>nonce.
           case sp_open P key nonce (record_aad P crypto record) (rec_plaintext_frame record) of
             None \<Rightarrow> Inl (QCrypto ''record decryption failed'')
           | Some plaintext \<Rightarrow> Inr (record \<lparr> rec_plaintext_frame := plaintext \<rparr>))))"

section \<open>Sending\<close>

function utf8_chars :: "bytes \<Rightarrow> bytes list" where
  "utf8_chars [] = []"
| "utf8_chars (b # bs) =
     (let w = max 1 (utf8_char_width b) in take w (b # bs) # utf8_chars (drop (w - 1) bs))"
  by pat_completeness auto

termination
  by (relation "measure length") auto

definition split_push :: "nat \<Rightarrow> bytes \<Rightarrow> bytes \<times> bytes list \<Rightarrow> bytes \<times> bytes list" where
  "split_push max_chunk_bytes ch s =
     (let (current, chunks) = s;
          flush = (current \<noteq> [] \<and> length current + length ch > max_chunk_bytes);
          chunks' = (if flush then chunks @ [current] else chunks);
          current' = (if flush then [] else current)
      in if current' = [] \<and> length ch > max_chunk_bytes then (current', chunks' @ [ch]) else (current' @ ch, chunks'))"

definition split_end :: "bytes \<times> bytes list \<Rightarrow> bytes list" where
  "split_end s = (if fst s = [] then snd s else snd s @ [fst s])"

definition split_text_deltas :: "string \<Rightarrow> nat \<Rightarrow> bytes list" where
  "split_text_deltas text max_chunk_bytes =
     (if text = [] then [] else split_end (fold (split_push max_chunk_bytes) (utf8_chars (as_bytes text)) ([], [])))"

record SendTextStream =
  sts_stream_id :: bytes
  sts_start_event_id :: bytes
  sts_text :: string
  sts_max_chunk_bytes :: nat
  sts_crypto :: "AgentTextStreamCrypto option"
  sts_max_plaintext_frame_len :: "u32 option"

record SentTextStream =
  sent_stream_id :: bytes
  sent_transcript_hash :: bytes
  sent_chunk_count :: u64

fun send_loop ::
  "StreamPrims \<Rightarrow> SendTextStream \<Rightarrow> nat \<Rightarrow> bytes list \<Rightarrow> bytes \<Rightarrow> AgentTextStreamTranscriptV1 \<Rightarrow>
   QuicTextStreamError + (bytes \<times> AgentTextStreamTranscriptV1)" where
  "send_loop P config index [] wire transcript = Inr (wire, transcript)"
| "send_loop P config index (chunk # chunks) wire transcript =
     (let record = text_delta (sts_stream_id config) (of_nat index + 1) chunk in
      r_bind (case sts_crypto config of None \<Rightarrow> Inr record | Some crypto \<Rightarrow> encrypt_record P crypto record) (\<lambda>wire_record.
      r_bind (write_record wire_record) (\<lambda>bytes.
        send_loop P config (index + 1) chunks (wire @ bytes)
          (transcript_append (sp_sha256 P) (rec_seq record) (rec_type record) (rec_plaintext_frame record) transcript))))"

definition send_text_stream :: "StreamPrims \<Rightarrow> SendTextStream \<Rightarrow> QuicTextStreamError + (bytes \<times> SentTextStream)" where
  "send_text_stream P config =
     (if sts_max_chunk_bytes config = 0 then Inl QEmptyChunkSize
      else if sts_max_chunk_bytes config > unat AGENT_TEXT_STREAM_MAX_PLAINTEXT_FRAME_LEN
      then Inl (QChunkSizeTooLarge (sts_max_chunk_bytes config))
      else (let max_chunk_bytes =
                  min (sts_max_chunk_bytes config) (effective_plaintext_cap (sts_max_plaintext_frame_len config))
            in r_bind (send_loop P config 0 (split_text_deltas (sts_text config) max_chunk_bytes) []
                  (transcript_new (sp_sha256 P) (sts_stream_id config) (sts_start_event_id config))) (\<lambda>(wire, transcript).
                 Inr (wire, \<lparr> sent_stream_id = tr_stream_id transcript, sent_transcript_hash = tr_hash transcript,
                              sent_chunk_count = tr_chunk_count transcript \<rparr>))))"

section \<open>Receiving\<close>

record ReceivedTextChunk =
  rc_seq :: u64
  rc_record_type :: u8
  rc_flags :: u8
  rc_text :: string

record ReceivedTextStream =
  rts_stream_id :: bytes
  rts_chunks :: "ReceivedTextChunk list"
  rts_text :: string
  rts_transcript_hash :: bytes
  rts_chunk_count :: u64

record ReceiveState =
  rs_stream_id :: "bytes option"
  rs_high_water :: u64
  rs_chunks :: "ReceivedTextChunk list"
  rs_text :: string
  rs_transcript :: "AgentTextStreamTranscriptV1 option"
  rs_limits :: AgentTextStreamReceiveAccumulator

definition stream_record_text :: "AgentTextStreamRecordV1 \<Rightarrow> QuicTextStreamError + string" where
  "stream_record_text record =
     (if rec_type record \<in> {AGENT_TEXT_STREAM_RECORD_TEXT_DELTA, 0x03, 0x02, 0x04}
      then r_map_err QUtf8 (from_utf8 (rec_plaintext_frame record))
      else Inr [])"

text \<open>
  The stream id and the transcript are set together, by the first accepted record; \<open>rx_inv\<close> below shows that
  the branches for one without the other, where the source's \<open>expect\<close> would panic, are never taken.
\<close>

definition stream_transcript ::
  "StreamPrims \<Rightarrow> bytes \<Rightarrow> AgentTextStreamRecordV1 \<Rightarrow> ReceiveState \<Rightarrow>
   QuicTextStreamError + (bytes \<times> AgentTextStreamTranscriptV1)" where
  "stream_transcript P start_event_id record st =
     (let fresh = transcript_new (sp_sha256 P) (rec_stream_id record) start_event_id in
      case rs_stream_id st of
        Some existing \<Rightarrow>
          if existing \<noteq> rec_stream_id record then Inl QMixedStreamIds
          else Inr (existing, case rs_transcript st of Some t \<Rightarrow> t | None \<Rightarrow> fresh)
      | None \<Rightarrow> Inr (rec_stream_id record, fresh))"

definition push_chunk ::
  "StreamPrims \<Rightarrow> AgentTextStreamRecordV1 \<Rightarrow> bytes \<Rightarrow> AgentTextStreamTranscriptV1 \<Rightarrow> string \<Rightarrow> ReceiveState \<Rightarrow> ReceiveState" where
  "push_chunk P record stream_id transcript frame_text st =
     st \<lparr> rs_stream_id := Some stream_id,
          rs_text := (if rec_type record = AGENT_TEXT_STREAM_RECORD_TEXT_DELTA
                      then rs_text st @ frame_text else rs_text st),
          rs_transcript := Some (transcript_append (sp_sha256 P) (rec_seq record) (rec_type record)
                             (rec_plaintext_frame record) transcript),
          rs_chunks := rs_chunks st @ [\<lparr> rc_seq = rec_seq record, rc_record_type = rec_type record,
                                         rc_flags = rec_flags record, rc_text = frame_text \<rparr>] \<rparr>"

definition accept_record ::
  "StreamPrims \<Rightarrow> bytes \<Rightarrow> AgentTextStreamRecordV1 \<Rightarrow> ReceiveState \<Rightarrow> QuicTextStreamError + ReceiveState" where
  "accept_record P start_event_id record st =
     r_bind (stream_transcript P start_event_id record st) (\<lambda>(stream_id, transcript).
     r_bind (stream_record_text record) (\<lambda>frame_text.
       Inr (push_chunk P record stream_id transcript frame_text st)))"

definition receive_record ::
  "StreamPrims \<Rightarrow> bytes \<Rightarrow> AgentTextStreamCrypto option \<Rightarrow> AgentTextStreamRecordV1 \<Rightarrow> ReceiveState \<Rightarrow>
   QuicTextStreamError + ReceiveState" where
  "receive_record P start_event_id crypto record st =
     r_bind (r_map_err QReceiveLimit (observe_wire_record (rs_limits st))) (\<lambda>limits.
       if rec_seq record \<le> rs_high_water st then Inr (st \<lparr> rs_limits := limits \<rparr>)
       else if rec_seq record \<noteq> rs_high_water st + 1
       then Inl (QUnexpectedSequence (rs_high_water st + 1) (rec_seq record))
       else r_bind (case crypto of None \<Rightarrow> Inr record | Some c \<Rightarrow> decrypt_record P c record) (\<lambda>record.
         r_bind (r_map_err QReceiveLimit (observe record limits)) (\<lambda>limits.
           accept_record P start_event_id record
             (st \<lparr> rs_limits := limits, rs_high_water := rec_seq record \<rparr>))))"

lemma read_record_shorter: "read_record recv m = Inr (Some (record, rest)) \<Longrightarrow> length rest < length recv"
  by (auto simp: read_record_def Let_def r_simps FRAME_LEN_BYTES_def split: if_split_asm)

function receive_loop ::
  "StreamPrims \<Rightarrow> bytes \<Rightarrow> AgentTextStreamCrypto option \<Rightarrow> nat \<Rightarrow> bytes \<Rightarrow> ReceiveState \<Rightarrow> QuicTextStreamError + ReceiveState" where
  "receive_loop P start_event_id crypto max_frame_len recv st =
     (case read_record recv max_frame_len of
        Inl e \<Rightarrow> Inl e
      | Inr None \<Rightarrow> Inr st
      | Inr (Some (record, rest)) \<Rightarrow>
          (case receive_record P start_event_id crypto record st of
             Inl e \<Rightarrow> Inl e
           | Inr st' \<Rightarrow> receive_loop P start_event_id crypto max_frame_len rest st'))"
  by pat_completeness auto

termination
  by (relation "measure (\<lambda>(P, s, c, m, recv, st). length recv)") (auto dest: read_record_shorter)

declare receive_loop.simps [simp del]

definition receive_once_with_limits ::
  "StreamPrims \<Rightarrow> bytes \<Rightarrow> AgentTextStreamCrypto option \<Rightarrow> AgentTextStreamReceiveLimits \<Rightarrow> bytes \<Rightarrow>
   QuicTextStreamError + ReceivedTextStream" where
  "receive_once_with_limits P start_event_id crypto limits recv =
     r_bind (receive_loop P start_event_id crypto (frame_len_cap (Some (rl_max_plaintext_frame_len limits))) recv
         \<lparr> rs_stream_id = None, rs_high_water = 0, rs_chunks = [], rs_text = [], rs_transcript = None,
           rs_limits = accumulator_new limits \<rparr>) (\<lambda>st.
       case rs_transcript st of
         None \<Rightarrow> Inl QEmptyStream
       | Some transcript \<Rightarrow>
           Inr \<lparr> rts_stream_id = (case rs_stream_id st of None \<Rightarrow> [] | Some i \<Rightarrow> i), rts_chunks = rs_chunks st,
                 rts_text = rs_text st, rts_transcript_hash = tr_hash transcript,
                 rts_chunk_count = tr_chunk_count transcript \<rparr>)"

section \<open>Characters of a UTF-8 string\<close>

lemma utf8_conts_Inr: "utf8_conts k g cs = Inr u \<longleftrightarrow> k \<le> length cs \<and> list_all utf8_cont (take k cs)"
  by (induction k g cs rule: utf8_conts.induct) auto

definition valid_char :: "bytes \<Rightarrow> bool" where
  "valid_char c \<longleftrightarrow> (\<exists>b r. c = b # r \<and> utf8_step b r = Inr (length c))"

lemma utf8_step_prefix:
  assumes "utf8_step b bs = Inr w"
  shows "w = utf8_char_width b" "1 \<le> w" "w - 1 \<le> length bs" "utf8_step b (take (w - 1) bs @ x) = Inr w"
proof -
  let ?w = "utf8_char_width b"
  have w: "w = ?w \<and> 1 \<le> w"
    using assms by (auto simp: utf8_step_def Let_def split: if_split_asm list.splits sum.splits)
  then show "w = utf8_char_width b" "1 \<le> w" by auto
  have "w - 1 \<le> length bs \<and> utf8_step b (take (w - 1) bs @ x) = Inr w"
  proof (cases "?w = 1")
    case True
    then show ?thesis using w by (simp add: utf8_step_def)
  next
    case False
    then obtain c cs where c: "bs = c # cs" "utf8_second_ok b c" "utf8_conts (w - 2) 2 cs = Inr ()"
      using assms w by (auto simp: utf8_step_def Let_def split: if_split_asm list.splits sum.splits)
    have k: "w - 1 = Suc (w - 2)" using w False by linarith
    have "utf8_conts (w - 2) 2 (take (w - 2) cs @ x) = Inr ()" using c(3) by (auto simp: utf8_conts_Inr)
    then have "utf8_step b (c # take (w - 2) cs @ x) = Inr w"
      using c(2) w False by (auto simp: utf8_step_def Let_def)
    moreover have "w - 2 \<le> length cs" using c(3) utf8_conts_Inr by blast
    ultimately show ?thesis using c(1) k by simp
  qed
  then show "w - 1 \<le> length bs" "utf8_step b (take (w - 1) bs @ x) = Inr w" by auto
qed

lemma utf8_validate_index: "utf8_validate i bs = Inr u \<longleftrightarrow> utf8_validate j bs = Inr u"
proof (induction "length bs" arbitrary: bs i j rule: less_induct)
  case less
  show ?case
  proof (cases bs)
    case (Cons b r)
    show ?thesis
    proof (cases "utf8_step b r")
      case (Inr w)
      have "length (drop (w - 1) r) < length bs" using Cons by simp
      from less [OF this, of "i + w" "j + w"] show ?thesis using Cons Inr by simp
    qed (use Cons in simp)
  qed simp
qed

definition utf8_ok :: "bytes \<Rightarrow> bool" where
  "utf8_ok bs \<longleftrightarrow> utf8_validate 0 bs = Inr ()"

lemma utf8_ok_Nil [simp]: "utf8_ok []"
  by (simp add: utf8_ok_def)

lemma utf8_ok_char:
  assumes "valid_char c"
  shows "utf8_ok (c @ r) \<longleftrightarrow> utf8_ok r"
proof -
  obtain b s where c: "c = b # s" "utf8_step b s = Inr (length c)" using assms by (auto simp: valid_char_def)
  have "utf8_step b (take (length c - 1) s @ r) = Inr (length c)" by (rule utf8_step_prefix(4) [OF c(2)])
  then have "utf8_step b (s @ r) = Inr (Suc (length s))" using c(1) by simp
  then show ?thesis using c(1) utf8_validate_index [of "Suc (length s)" r "()" 0] by (simp add: utf8_ok_def)
qed

lemma utf8_ok_concat: "list_all valid_char cs \<Longrightarrow> utf8_ok (concat cs @ r) \<longleftrightarrow> utf8_ok r"
  by (induction cs) (simp_all add: utf8_ok_char)

lemma utf8_chars_ok: "utf8_ok bs \<Longrightarrow> list_all valid_char (utf8_chars bs)"
proof (induction "length bs" arbitrary: bs rule: less_induct)
  case less
  show ?case
  proof (cases bs)
    case (Cons b r)
    obtain w where w: "utf8_step b r = Inr w" "utf8_validate w (drop (w - 1) r) = Inr ()"
      using less.prems Cons by (auto simp: utf8_ok_def split: sum.splits)
    note p = utf8_step_prefix [OF w(1)]
    have "utf8_ok (drop (w - 1) r)" using w(2) utf8_validate_index [of w _ "()" 0] by (simp add: utf8_ok_def)
    then have "list_all valid_char (utf8_chars (drop (w - 1) r))" using less.hyps Cons by simp
    moreover have "take w (b # r) = b # take (w - 1) r" using p(2) by (cases w) auto
    then have "valid_char (take w (b # r))"
      using p(2,3) p(4) [of "[]"] by (simp add: valid_char_def)
    ultimately show ?thesis using Cons p(1,2) by (simp add: Let_def)
  qed simp
qed

lemma concat_utf8_chars: "concat (utf8_chars bs) = bs"
  by (induction bs rule: utf8_chars.induct) (auto simp: Let_def take_Cons' drop_Cons')

lemma valid_char_length: "valid_char c \<Longrightarrow> 1 \<le> length c \<and> length c \<le> 4"
proof -
  assume "valid_char c"
  then obtain b r where c: "c = b # r" "utf8_step b r = Inr (length c)" by (auto simp: valid_char_def)
  have "length c = utf8_char_width b" by (rule utf8_step_prefix(1) [OF c(2)])
  also have "\<dots> \<le> 4" by (simp add: utf8_char_width_def)
  finally show ?thesis using c(1) by simp
qed

section \<open>Chunking\<close>

definition chunks_ok :: "nat \<Rightarrow> bytes \<times> bytes list \<Rightarrow> bool" where
  "chunks_ok m s \<longleftrightarrow> utf8_ok (fst s) \<and> length (fst s) \<le> m \<and> list_all (\<lambda>c. c \<noteq> [] \<and> utf8_ok c \<and> length c \<le> max m 4) (snd s)"

lemma utf8_ok_append_char: "utf8_ok s \<Longrightarrow> valid_char c \<Longrightarrow> utf8_ok (s @ c)"
proof -
  assume a: "utf8_ok s" "valid_char c"
  have "list_all valid_char (utf8_chars s)" by (rule utf8_chars_ok [OF a(1)])
  then have "utf8_ok (concat (utf8_chars s) @ c) \<longleftrightarrow> utf8_ok c" by (rule utf8_ok_concat)
  moreover have "utf8_ok c" using utf8_ok_char [OF a(2), of "[]"] by simp
  ultimately show ?thesis by (simp add: concat_utf8_chars)
qed

lemma split_push_ok:
  assumes "chunks_ok m s" "valid_char c"
  shows "chunks_ok m (split_push m c s)"
    and "concat (snd (split_push m c s)) @ fst (split_push m c s) = concat (snd s) @ fst s @ c"
proof -
  obtain cur ch where s: "s = (cur, ch)" by (cases s)
  have c: "utf8_ok c" "c \<noteq> []" "length c \<le> 4"
    using valid_char_length [OF assms(2)] utf8_ok_char [OF assms(2), of "[]"] by auto
  show "chunks_ok m (split_push m c s)"
    using assms s c utf8_ok_append_char by (auto simp: split_push_def chunks_ok_def Let_def)
  show "concat (snd (split_push m c s)) @ fst (split_push m c s) = concat (snd s) @ fst s @ c"
    using s by (simp add: split_push_def Let_def)
qed

lemma fold_split_push_ok:
  "chunks_ok m s \<Longrightarrow> list_all valid_char cs \<Longrightarrow>
   chunks_ok m (fold (split_push m) cs s) \<and>
   concat (snd (fold (split_push m) cs s)) @ fst (fold (split_push m) cs s) = concat (snd s) @ fst s @ concat cs"
proof (induction cs arbitrary: s)
  case (Cons c cs)
  then have "chunks_ok m (split_push m c s)" by (simp add: split_push_ok(1))
  from Cons.IH [OF this] show ?case using Cons.prems split_push_ok(2) [of m s c] by simp
qed simp

lemma split_text_deltas_ok:
  assumes "is_utf8 text"
  shows "concat (split_text_deltas text m) = as_bytes text"
    and "list_all (\<lambda>c. c \<noteq> [] \<and> utf8_ok c \<and> length c \<le> max m 4) (split_text_deltas text m)"
proof -
  let ?s = "fold (split_push m) (utf8_chars (as_bytes text)) ([], [])"
  have "list_all valid_char (utf8_chars (as_bytes text))"
    using assms by (intro utf8_chars_ok) (simp add: utf8_ok_def is_utf8_def)
  then have f: "chunks_ok m ?s" "concat (snd ?s) @ fst ?s = as_bytes text"
    using fold_split_push_ok [of m "([], [])"] by (simp_all add: chunks_ok_def concat_utf8_chars)
  show "concat (split_text_deltas text m) = as_bytes text"
    using f(2) by (auto simp: split_text_deltas_def split_end_def as_bytes_def)
  show "list_all (\<lambda>c. c \<noteq> [] \<and> utf8_ok c \<and> length c \<le> max m 4) (split_text_deltas text m)"
    using f(1) by (auto simp: split_text_deltas_def split_end_def chunks_ok_def)
qed

section \<open>Framing and encryption round trips\<close>

lemma write_record_Inr:
  "write_record r = Inr bs \<longleftrightarrow> record_validate r = Inr () \<and> length (record_bytes r) \<le> 4294967295 \<and>
     bs = to_be_bytes 4 (of_nat (length (record_bytes r)) :: u32) @ record_bytes r"
  by (auto simp: write_record_def r_simps record_encode_Inr split: if_split_asm)

lemma unat_of_nat_u32: "n \<le> 4294967295 \<Longrightarrow> unat (of_nat n :: u32) = n"
  by (simp add: unsigned_of_nat take_bit_nat_eq_self)

lemma record_bytes_length: "length (record_bytes r) \<le> length (rec_stream_id r) + length (rec_plaintext_frame r) + 27"
  using encode_quic_varint_length_le [of "of_nat (length (rec_stream_id r))"]
    encode_quic_varint_length_le [of "of_nat (length (rec_plaintext_frame r))"]
  by (simp add: record_bytes_def push_len_prefixed_def)

lemma read_written_record:
  assumes "write_record r = Inr bs" "length (record_bytes r) \<le> min m MAX_FRAME_SIZE"
  shows "read_record (bs @ rest) m = Inr (Some (r, rest))"
proof -
  note w = assms(1) [unfolded write_record_Inr]
  let ?n = "length (record_bytes r)"
  let ?l = "to_be_bytes 4 (of_nat ?n :: u32)"
  have l: "length ?l = 4" by (rule length_to_be_bytes)
  have n: "unat (from_be_bytes ?l :: u32) = ?n"
    using w from_be_to_be_bytes [where 'a = 32 and k = 4 and w = "of_nat ?n"] by (simp add: unat_of_nat_u32)
  have "?n \<noteq> 0" by (simp add: record_bytes_def)
  then have "validate_frame_len ?n m = Inr ()" using assms(2) by (auto simp: validate_frame_len_def)
  moreover have "record_decode (record_bytes r) = Inr r" using w record_decode_complete by blast
  moreover have "bs @ rest = ?l @ record_bytes r @ rest" using w by simp
  moreover have "?l @ record_bytes r @ rest \<noteq> []" using \<open>?n \<noteq> 0\<close> by simp
  ultimately show ?thesis
    using l n by (simp add: read_record_def FRAME_LEN_BYTES_def Let_def)
qed

definition aead_correct :: "StreamPrims \<Rightarrow> bool" where
  "aead_correct P \<longleftrightarrow> (\<forall>key nonce aad m c. sp_seal P key nonce aad m = Some c \<longrightarrow>
     sp_open P key nonce aad c = Some m \<and> length c = length m + AGENT_TEXT_STREAM_AEAD_TAG_LEN)"

lemma decrypt_encrypted:
  assumes "aead_correct P" "encrypt_record P crypto r = Inr r'"
  shows "decrypt_record P crypto r' = Inr r" and "rec_stream_id r' = rec_stream_id r" "rec_seq r' = rec_seq r"
    "length (rec_plaintext_frame r') = length (rec_plaintext_frame r) + AGENT_TEXT_STREAM_AEAD_TAG_LEN"
proof -
  obtain key nonce c where v: "validate_crypto_record_context crypto r = Inr ()"
      and d: "derive_record_key P crypto = Inr key" "derive_record_nonce P crypto (rec_seq r) = Inr nonce"
      and c: "sp_seal P key nonce (record_aad P crypto r) (rec_plaintext_frame r) = Some c"
      and r': "r' = r \<lparr> rec_plaintext_frame := c \<rparr>"
    using assms(2) by (auto simp: encrypt_record_def r_simps split: if_split_asm option.splits)
  have a: "sp_open P key nonce (record_aad P crypto r) c = Some (rec_plaintext_frame r)"
      "length c = length (rec_plaintext_frame r) + AGENT_TEXT_STREAM_AEAD_TAG_LEN"
    using assms(1) c unfolding aead_correct_def by blast+
  have "validate_crypto_record_context crypto r' = Inr ()" "record_aad P crypto r' = record_aad P crypto r"
    using v by (simp_all add: r' validate_crypto_record_context_def record_aad_def split: if_split_asm)
  then show "decrypt_record P crypto r' = Inr r"
    using d a by (simp add: decrypt_record_def r')
  show "rec_stream_id r' = rec_stream_id r" "rec_seq r' = rec_seq r"
    "length (rec_plaintext_frame r') = length (rec_plaintext_frame r) + AGENT_TEXT_STREAM_AEAD_TAG_LEN"
    using a(2) by (simp_all add: r')
qed

section \<open>Sender and receiver in step\<close>

definition rx_sync ::
  "StreamPrims \<Rightarrow> SendTextStream \<Rightarrow> AgentTextStreamReceiveLimits \<Rightarrow> nat \<Rightarrow> nat \<Rightarrow> AgentTextStreamTranscriptV1 \<Rightarrow> ReceiveState \<Rightarrow> bool" where
  "rx_sync P config limits k b transcript st \<longleftrightarrow>
     rs_high_water st = of_nat k \<and>
     rs_limits st = \<lparr> acc_limits = limits, acc_wire_records = of_nat k, acc_records = of_nat k, acc_plaintext_bytes = b \<rparr> \<and>
     (if rs_stream_id st = None
      then transcript = transcript_new (sp_sha256 P) (sts_stream_id config) (sts_start_event_id config)
      else rs_stream_id st = Some (sts_stream_id config) \<and> rs_transcript st = Some transcript)"

lemma u64_succ:
  assumes "Suc k < 2 ^ 64"
  shows "(of_nat k :: u64) \<noteq> - 1" "\<not> (of_nat k + 1 :: u64) \<le> of_nat k" "unat (of_nat k + 1 :: u64) = Suc k"
proof -
  have k: "unat (of_nat k :: u64) = k" using assms by (intro unat_of_nat_u64) simp
  have s: "unat (of_nat (Suc k) :: u64) = Suc k" using assms by (intro unat_of_nat_u64)
  then show u: "unat (of_nat k + 1 :: u64) = Suc k" by (simp add: add.commute)
  show "(of_nat k :: u64) \<noteq> - 1"
  proof
    assume "(of_nat k :: u64) = - 1"
    then have "(of_nat k + 1 :: u64) = 0" by simp
    then show False using u by simp
  qed
  show "\<not> (of_nat k + 1 :: u64) \<le> of_nat k" using k u by (simp add: word_le_nat_alt)
qed

lemma receive_in_step:
  assumes sync: "rx_sync P config limits k b transcript st"
    and aead: "aead_correct P"
    and wire: "(case sts_crypto config of None \<Rightarrow> Inr record | Some crypto \<Rightarrow> encrypt_record P crypto record) = Inr wr"
    and rdef: "record = text_delta (sts_stream_id config) (of_nat k + 1) chunk"
    and utf8: "utf8_ok chunk"
    and lim: "Suc k \<le> unat (max_records limits)" "b + length chunk \<le> max_plaintext_bytes limits"
      "max_plaintext_bytes limits \<le> USIZE_MAX"
  shows "\<exists>st'. receive_record P (sts_start_event_id config) (sts_crypto config) wr st = Inr st' \<and>
    rs_text st' = rs_text st @ string_of_bytes chunk \<and> rs_stream_id st' \<noteq> None \<and>
    rx_sync P config limits (Suc k) (b + length chunk)
      (transcript_append (sp_sha256 P) (rec_seq record) (rec_type record) (rec_plaintext_frame record) transcript) st'"
proof -
  have "unat (max_records limits) < 2 ^ LENGTH(64)" by (rule unsigned_less)
  then have k: "Suc k < 2 ^ 64" using lim(1) by simp
  note u = u64_succ [OF k]
  have le: "\<not> (of_nat k + 1 :: u64) > max_records limits" using lim(1) u(3) by (simp add: word_less_nat_alt not_less)
  note s = sync [unfolded rx_sync_def]
  have w: "rec_seq wr = of_nat k + 1"
    using wire decrypt_encrypted(3) [OF aead] rdef
    by (auto simp: text_delta_def record_new_def split: option.splits)
  have d: "(case sts_crypto config of None \<Rightarrow> Inr wr | Some c \<Rightarrow> decrypt_record P c wr) = Inr record"
    using wire decrypt_encrypted(1) [OF aead] by (auto split: option.splits)
  have ow: "observe_wire_record (rs_limits st) =
      Inr \<lparr> acc_limits = limits, acc_wire_records = of_nat k + 1, acc_records = of_nat k, acc_plaintext_bytes = b \<rparr>"
    using s u(1) le by (simp add: observe_wire_record_def checked_add_one_def)
  have f: "rec_plaintext_frame record = chunk" "rec_stream_id record = sts_stream_id config"
      "rec_type record = AGENT_TEXT_STREAM_RECORD_TEXT_DELTA" "rec_seq record = of_nat k + 1"
    by (simp_all add: rdef text_delta_def record_new_def)
  have o: "observe record \<lparr> acc_limits = limits, acc_wire_records = of_nat k + 1, acc_records = of_nat k,
        acc_plaintext_bytes = b \<rparr> =
      Inr \<lparr> acc_limits = limits, acc_wire_records = of_nat k + 1, acc_records = of_nat k + 1,
        acc_plaintext_bytes = b + length chunk \<rparr>"
    using u(1) le lim(2,3) by (simp add: observe_def checked_add_one_def Let_def f(1))
  have t: "stream_record_text record = Inr (string_of_bytes chunk)"
    using utf8 f(1,3) by (simp add: stream_record_text_def AGENT_TEXT_STREAM_RECORD_TEXT_DELTA_def from_utf8_def utf8_ok_def)
  have sk: "(of_nat (Suc k) :: u64) = of_nat k + 1" by (simp add: add.commute)
  define lim' where "lim' = \<lparr> acc_limits = limits, acc_wire_records = of_nat k + 1, acc_records = of_nat k + 1,
        acc_plaintext_bytes = b + length chunk \<rparr>"
  define tr' where "tr' = transcript_append (sp_sha256 P) (rec_seq record) (rec_type record) (rec_plaintext_frame record) transcript"
  have rr: "receive_record P (sts_start_event_id config) (sts_crypto config) wr st =
      accept_record P (sts_start_event_id config) record (st \<lparr> rs_limits := lim', rs_high_water := of_nat k + 1 \<rparr>)"
    unfolding receive_record_def ow r_map_err.simps r_bind.simps w d o lim'_def f(4) using s u(2) by simp
  obtain st' where st': "accept_record P (sts_start_event_id config) record
        (st \<lparr> rs_limits := lim', rs_high_water := of_nat k + 1 \<rparr>) = Inr st'"
      and f': "rs_high_water st' = of_nat k + 1" "rs_limits st' = lim'" "rs_text st' = rs_text st @ string_of_bytes chunk"
        "rs_stream_id st' = Some (sts_stream_id config)" "rs_transcript st' = Some tr'"
  proof (cases "rs_stream_id st")
    case None
    then have "transcript = transcript_new (sp_sha256 P) (sts_stream_id config) (sts_start_event_id config)"
      using s by simp
    then show ?thesis using None that by (simp add: accept_record_def stream_transcript_def push_chunk_def t f tr'_def)
  next
    case (Some i)
    then have "i = sts_stream_id config" "rs_transcript st = Some transcript" using s by auto
    then show ?thesis using Some that by (simp add: accept_record_def stream_transcript_def push_chunk_def t f tr'_def)
  qed
  have "rx_sync P config limits (Suc k) (b + length chunk) tr' st'"
    unfolding rx_sync_def sk f' lim'_def by simp
  then show ?thesis using rr st' f'(3,4) unfolding tr'_def by auto
qed


lemma written_frame_fits:
  assumes "write_record wr = Inr bs" "length (rec_plaintext_frame wr) \<le> n + AGENT_TEXT_STREAM_AEAD_TAG_LEN" "n + 107 \<le> cap"
  shows "length (record_bytes wr) \<le> min cap MAX_FRAME_SIZE"
proof -
  have "record_validate wr = Inr ()" using assms(1) by (simp add: write_record_Inr)
  then have "length (rec_stream_id wr) \<le> 64" "length (rec_plaintext_frame wr) \<le> 65535"
    by (auto simp: record_validate_def AGENT_TEXT_STREAM_MAX_STREAM_ID_LEN_def
        AGENT_TEXT_STREAM_MAX_RECORD_CIPHERTEXT_LEN_def split: if_split_asm)
  moreover have "MAX_FRAME_SIZE = 66543"
    by (simp add: MAX_FRAME_SIZE_def AGENT_TEXT_STREAM_FRAME_ALLOWANCE_def AGENT_TEXT_STREAM_MAX_PLAINTEXT_FRAME_LEN_def)
  ultimately show ?thesis
    using record_bytes_length [of wr] assms(2,3) by (simp add: AGENT_TEXT_STREAM_AEAD_TAG_LEN_def)
qed

lemma receive_loop_Nil: "receive_loop P s c m [] st = Inr st"
  by (subst receive_loop.simps) (simp add: read_record_def)

lemma receive_loop_frame:
  "write_record wr = Inr bs \<Longrightarrow> length (record_bytes wr) \<le> min m MAX_FRAME_SIZE \<Longrightarrow>
   receive_loop P s c m (bs @ rest) st = r_bind (receive_record P s c wr st) (receive_loop P s c m rest)"
  by (subst receive_loop.simps)
    (cases "receive_record P s c wr st"; simp add: read_written_record)

lemma send_receive_loop:
  assumes "send_loop P config k chunks wire tr = Inr (wire', tr')"
    and "rx_sync P config limits k b tr st" and aead: "aead_correct P"
    and "list_all (\<lambda>c. utf8_ok c \<and> length c \<le> n) chunks" and cap: "n + 107 \<le> cap"
    and "k + length chunks \<le> unat (max_records limits)"
    and "b + length (concat chunks) \<le> max_plaintext_bytes limits" and us: "max_plaintext_bytes limits \<le> USIZE_MAX"
  shows "\<exists>w st'. wire' = wire @ w \<and> receive_loop P (sts_start_event_id config) (sts_crypto config) cap w st = Inr st' \<and>
    rx_sync P config limits (k + length chunks) (b + length (concat chunks)) tr' st' \<and>
    rs_text st' = rs_text st @ string_of_bytes (concat chunks) \<and> (rs_stream_id st' = None \<longrightarrow> chunks = [])"
  using assms(1,2,4,6,7)
proof (induction chunks arbitrary: k b tr st wire)
  case Nil
  then show ?case by (auto simp: receive_loop_Nil string_of_bytes_def)
next
  case (Cons c cs)
  let ?r = "text_delta (sts_stream_id config) (of_nat k + 1) c"
  let ?t = "transcript_append (sp_sha256 P) (rec_seq ?r) (rec_type ?r) (rec_plaintext_frame ?r) tr"
  obtain wr bs where wr: "(case sts_crypto config of None \<Rightarrow> Inr ?r | Some crypto \<Rightarrow> encrypt_record P crypto ?r) = Inr wr"
      and bs: "write_record wr = Inr bs" and s: "send_loop P config (k + 1) cs (wire @ bs) ?t = Inr (wire', tr')"
    using Cons.prems(1) by (auto simp: Let_def r_simps)
  obtain st1 where st1: "receive_record P (sts_start_event_id config) (sts_crypto config) wr st = Inr st1"
      "rs_text st1 = rs_text st @ string_of_bytes c" "rs_stream_id st1 \<noteq> None"
      "rx_sync P config limits (Suc k) (b + length c) ?t st1"
    using receive_in_step [OF Cons.prems(2) aead wr refl] Cons.prems(3-5) us by auto
  have "length (rec_plaintext_frame wr) \<le> n + AGENT_TEXT_STREAM_AEAD_TAG_LEN"
    using wr decrypt_encrypted(4) [OF aead] Cons.prems(3)
    by (fastforce simp: text_delta_def record_new_def split: option.splits)
  note fits = written_frame_fits [OF bs this cap]
  have "list_all (\<lambda>c. utf8_ok c \<and> length c \<le> n) cs" "k + 1 + length cs \<le> unat (max_records limits)"
      "b + length c + length (concat cs) \<le> max_plaintext_bytes limits"
    using Cons.prems(3-5) by simp_all
  from Cons.IH [OF s _ this, of st1] obtain w st' where w: "wire' = (wire @ bs) @ w"
      "receive_loop P (sts_start_event_id config) (sts_crypto config) cap w st1 = Inr st'"
      "rx_sync P config limits (k + 1 + length cs) (b + length c + length (concat cs)) tr' st'"
      "rs_text st' = rs_text st1 @ string_of_bytes (concat cs)" "rs_stream_id st' = None \<longrightarrow> cs = []"
    using st1(4) by auto
  have "rs_stream_id st' \<noteq> None"
  proof
    assume n: "rs_stream_id st' = None"
    then have "cs = []" using w(5) by simp
    moreover have "w = []" using s w(1) \<open>cs = []\<close> by simp
    ultimately have "st' = st1" using w(2) by (simp add: receive_loop_Nil)
    then show False using n st1(3) by simp
  qed
  moreover have "receive_loop P (sts_start_event_id config) (sts_crypto config) cap (bs @ w) st = Inr st'"
    using receive_loop_frame [OF bs fits] st1(1) w(2) by simp
  ultimately show ?case
    using w(1,3,4) st1(2) by (intro exI [of _ "bs @ w"] exI [of _ st']) (simp add: string_of_bytes_def add.assoc)
qed

lemma send_loop_transcript:
  "send_loop P config k chunks wire tr = Inr (wire', tr') \<Longrightarrow>
   tr_chunk_count tr' = tr_chunk_count tr + of_nat (length chunks) \<and> tr_stream_id tr' = tr_stream_id tr"
  by (induction chunks arbitrary: k wire tr) (fastforce simp: Let_def r_simps transcript_append_def)+

lemma length_le_concat: "list_all (\<lambda>c. c \<noteq> []) cs \<Longrightarrow> length cs \<le> length (concat cs)"
proof (induction cs)
  case (Cons c cs)
  then have "1 \<le> length c" "length cs \<le> length (concat cs)" by (cases c; simp)+
  then show ?case by simp
qed simp

lemma effective_plaintext_cap_bounds: "1 \<le> effective_plaintext_cap p \<and> effective_plaintext_cap p \<le> 65519"
proof (cases p)
  case (Some l)
  then show ?thesis
    by (auto simp: effective_plaintext_cap_def AGENT_TEXT_STREAM_MAX_PLAINTEXT_FRAME_LEN_def min_def
        word_le_nat_alt word_less_nat_alt)
qed (simp add: effective_plaintext_cap_def AGENT_TEXT_STREAM_MAX_PLAINTEXT_FRAME_LEN_def)

lemma sent_stream_received:
  assumes "send_text_stream P config = Inr (wire, sent)"
    and "sts_text config \<noteq> []" "is_utf8 (sts_text config)" and "aead_correct P"
    and "unat (sent_chunk_count sent) \<le> unat (max_records limits)" "length (sts_text config) < 2 ^ 64"
    and "length (sts_text config) \<le> max_plaintext_bytes limits" "max_plaintext_bytes limits \<le> USIZE_MAX"
    and "effective_plaintext_cap (sts_max_plaintext_frame_len config) \<le>
      effective_plaintext_cap (Some (rl_max_plaintext_frame_len limits))"
  shows "\<exists>received. receive_once_with_limits P (sts_start_event_id config) (sts_crypto config) limits wire = Inr received
    \<and> rts_text received = sts_text config \<and> rts_stream_id received = sent_stream_id sent
    \<and> rts_transcript_hash received = sent_transcript_hash sent \<and> rts_chunk_count received = sent_chunk_count sent"
proof -
  define m where "m = min (sts_max_chunk_bytes config) (effective_plaintext_cap (sts_max_plaintext_frame_len config))"
  define chunks where "chunks = split_text_deltas (sts_text config) m"
  define t0 where "t0 = transcript_new (sp_sha256 P) (sts_stream_id config) (sts_start_event_id config)"
  define cap where "cap = frame_len_cap (Some (rl_max_plaintext_frame_len limits))"
  define st0 where "st0 = \<lparr> rs_stream_id = None, rs_high_water = 0, rs_chunks = [], rs_text = [], rs_transcript = None,
      rs_limits = accumulator_new limits \<rparr>"
  obtain tr where s: "send_loop P config 0 chunks [] t0 = Inr (wire, tr)"
      and sent: "sent = \<lparr> sent_stream_id = tr_stream_id tr, sent_transcript_hash = tr_hash tr,
        sent_chunk_count = tr_chunk_count tr \<rparr>"
    using assms(1) unfolding send_text_stream_def m_def [symmetric] chunks_def [symmetric] t0_def [symmetric] Let_def
    by (auto simp: r_simps split: if_split_asm)
  note c = split_text_deltas_ok [OF assms(3), of m, folded chunks_def]
  have tr: "tr_chunk_count tr = of_nat (length chunks)" "tr_stream_id tr = sts_stream_id config"
    using send_loop_transcript [OF s] by (simp_all add: t0_def transcript_new_def)
  have lc: "length (concat chunks) = length (sts_text config)" unfolding c(1) by simp
  have "length chunks \<le> length (sts_text config)"
    using length_le_concat [of chunks] c(2) unfolding lc by (simp add: list_all_iff)
  then have n: "0 + length chunks \<le> unat (max_records limits)"
    using assms(5,6) unat_of_nat_u64 [of "length chunks"] by (simp add: sent tr(1))
  have sync: "rx_sync P config limits 0 0 t0 st0"
    by (simp add: rx_sync_def st0_def t0_def accumulator_new_def)
  have "max m 4 + 107 \<le> cap"
    using assms(9) effective_plaintext_cap_bounds [of "sts_max_plaintext_frame_len config"]
    by (simp add: cap_def frame_len_cap_def AGENT_TEXT_STREAM_FRAME_ALLOWANCE_def m_def)
  moreover have "list_all (\<lambda>c. utf8_ok c \<and> length c \<le> max m 4) chunks" using c(2) by (auto simp: list_all_iff)
  ultimately obtain st where st: "receive_loop P (sts_start_event_id config) (sts_crypto config) cap wire st0 = Inr st"
      "rx_sync P config limits (0 + length chunks) (0 + length (concat chunks)) tr st"
      "rs_text st = rs_text st0 @ string_of_bytes (concat chunks)" "rs_stream_id st = None \<longrightarrow> chunks = []"
    using send_receive_loop [OF s sync assms(4), of "max m 4" cap] n assms(7,8) lc by auto
  have "chunks \<noteq> []" using c(1) assms(2) by (auto simp: as_bytes_def)
  then obtain i where i: "rs_stream_id st = Some i" using st(4) by auto
  then have "i = sts_stream_id config" "rs_transcript st = Some tr" using st(2) by (auto simp: rx_sync_def)
  then show ?thesis
    using st(1,3) i c(1) tr(2)
    by (simp add: receive_once_with_limits_def cap_def [symmetric] st0_def [symmetric] sent) (simp add: st0_def)
qed


definition prims_total :: "StreamPrims \<Rightarrow> bool" where
  "prims_total P \<longleftrightarrow>
     (\<forall>secret info n. length secret = 32 \<and> n \<le> 32 \<longrightarrow> sp_prk_ok P secret \<and> sp_hkdf_expand P secret info n \<noteq> None) \<and>
     (\<forall>key nonce aad m. length m \<le> 65535 \<longrightarrow> sp_seal P key nonce aad m \<noteq> None)"

definition crypto_ready :: "SendTextStream \<Rightarrow> AgentTextStreamCrypto \<Rightarrow> bool" where
  "crypto_ready config crypto \<longleftrightarrow>
     length (stream_secret crypto) = 32 \<and> length (kc_stream_id (key_context crypto)) = 32 \<and>
     length (kc_start_event_id (key_context crypto)) = 32 \<and>
     kc_stream_id (key_context crypto) = sts_stream_id config"

definition send_ready :: "SendTextStream \<Rightarrow> bool" where
  "send_ready config \<longleftrightarrow>
     0 < sts_max_chunk_bytes config \<and>
     sts_max_chunk_bytes config \<le> unat AGENT_TEXT_STREAM_MAX_PLAINTEXT_FRAME_LEN \<and>
     sts_stream_id config \<noteq> [] \<and> length (sts_stream_id config) \<le> AGENT_TEXT_STREAM_MAX_STREAM_ID_LEN \<and>
     sts_text config \<noteq> [] \<and> is_utf8 (sts_text config) \<and>
     list_all (crypto_ready config) (case sts_crypto config of None \<Rightarrow> [] | Some crypto \<Rightarrow> [crypto])"

lemma sent_chunk_count_le:
  assumes "send_text_stream P config = Inr (wire, sent)" "is_utf8 (sts_text config)" "length (sts_text config) < 2 ^ 64"
  shows "unat (sent_chunk_count sent) \<le> length (sts_text config)"
proof -
  define chunks where "chunks = split_text_deltas (sts_text config)
    (min (sts_max_chunk_bytes config) (effective_plaintext_cap (sts_max_plaintext_frame_len config)))"
  obtain tr where s: "send_loop P config 0 chunks []
        (transcript_new (sp_sha256 P) (sts_stream_id config) (sts_start_event_id config)) = Inr (wire, tr)"
      and sent: "sent_chunk_count sent = tr_chunk_count tr"
    using assms(1) unfolding send_text_stream_def chunks_def Let_def by (auto simp: r_simps split: if_split_asm)
  have tr: "tr_chunk_count tr = of_nat (length chunks)"
    using send_loop_transcript [OF s] by (simp add: transcript_new_def)
  note c = split_text_deltas_ok [OF assms(2), of "min (sts_max_chunk_bytes config)
      (effective_plaintext_cap (sts_max_plaintext_frame_len config))", folded chunks_def]
  have "length (concat chunks) = length (sts_text config)" unfolding c(1) by simp
  then have "length chunks \<le> length (sts_text config)"
    using length_le_concat [of chunks] c(2) by (simp add: list_all_iff)
  then show ?thesis using unat_of_nat_u64 [of "length chunks"] assms(3) sent tr by simp
qed

lemma derive_bytes_total:
  assumes "prims_total P" "length (stream_secret crypto) = 32" "n \<le> 32"
  shows "\<exists>out. derive_bytes P n crypto label = Inr out"
  using assms by (auto simp: derive_bytes_def prims_total_def Let_def split: option.splits)

lemma encrypt_record_total:
  assumes "prims_total P" "crypto_ready config crypto" "rec_stream_id r = sts_stream_id config"
    and "length (rec_plaintext_frame r) \<le> 65519"
  shows "\<exists>r'. encrypt_record P crypto r = Inr r'"
proof -
  have l: "length (stream_secret crypto) = 32" using assms(2) by (simp add: crypto_ready_def)
  obtain k where k: "derive_bytes P 32 crypto (as_bytes ''record key'') = Inr k"
    using derive_bytes_total [OF assms(1) l, of 32] by auto
  obtain n where n: "derive_bytes P 12 crypto (as_bytes ''record nonce'') = Inr n"
    using derive_bytes_total [OF assms(1) l, of 12] by auto
  have "validate_crypto_record_context crypto r = Inr ()"
    using assms(2,3) by (auto simp: crypto_ready_def validate_crypto_record_context_def)
  moreover have "sp_seal P key nonce aad (rec_plaintext_frame r) \<noteq> None" for key nonce aad
    using assms(1,4) by (simp add: prims_total_def)
  ultimately show ?thesis
    using assms(4) k n
    by (auto simp: encrypt_record_def derive_record_key_def derive_record_nonce_def
        AGENT_TEXT_STREAM_MAX_PLAINTEXT_FRAME_LEN_def split: option.splits)
qed

lemma write_record_total:
  assumes "record_validate r = Inr ()"
  shows "\<exists>bs. write_record r = Inr bs"
proof -
  have "length (rec_stream_id r) \<le> 64" "length (rec_plaintext_frame r) \<le> 65535"
    using assms by (auto simp: record_validate_def AGENT_TEXT_STREAM_MAX_STREAM_ID_LEN_def
        AGENT_TEXT_STREAM_MAX_RECORD_CIPHERTEXT_LEN_def split: if_split_asm)
  then have "length (record_bytes r) \<le> 4294967295" using record_bytes_length [of r] by simp
  then show ?thesis using assms by (simp add: write_record_Inr)
qed

lemma send_loop_total:
  assumes "send_ready config" "prims_total P" "aead_correct P"
  shows "list_all (\<lambda>c. length c \<le> 65519) chunks \<Longrightarrow> \<exists>r. send_loop P config k chunks wire tr = Inr r"
proof (induction chunks arbitrary: k wire tr)
  case (Cons c cs)
  let ?r = "text_delta (sts_stream_id config) (of_nat k + 1) c"
  obtain r' where r': "(case sts_crypto config of None \<Rightarrow> Inr ?r | Some x \<Rightarrow> encrypt_record P x ?r) = Inr r'"
      "rec_stream_id r' = sts_stream_id config" "rec_type r' = rec_type ?r" "length (rec_plaintext_frame r') \<le> 65535"
  proof (cases "sts_crypto config")
    case None
    then show ?thesis using that [of ?r] Cons.prems by (simp add: text_delta_def record_new_def)
  next
    case (Some x)
    then have "crypto_ready config x" using assms(1) by (simp add: send_ready_def)
    then obtain r' where e: "encrypt_record P x ?r = Inr r'"
      using encrypt_record_total [OF assms(2), of config x ?r] Cons.prems by (auto simp: text_delta_def record_new_def)
    have "rec_type r' = rec_type ?r" using e by (auto simp: encrypt_record_def r_simps split: if_split_asm option.splits)
    then show ?thesis
      using that [of r'] Some e decrypt_encrypted [OF assms(3) e] Cons.prems
      by (simp add: text_delta_def record_new_def AGENT_TEXT_STREAM_AEAD_TAG_LEN_def)
  qed
  have "record_validate r' = Inr ()"
    using r'(2-4) assms(1)
    by (simp add: record_validate_def send_ready_def text_delta_def record_new_def is_known_record_type_def
        AGENT_TEXT_STREAM_MAX_RECORD_CIPHERTEXT_LEN_def AGENT_TEXT_STREAM_RECORD_TEXT_DELTA_def)
  then obtain bs where "write_record r' = Inr bs" using write_record_total by blast
  then show ?case using r'(1) Cons by (simp add: Let_def)
qed simp

lemma send_text_stream_total:
  assumes "send_ready config" "prims_total P" "aead_correct P"
  shows "\<exists>wire sent. send_text_stream P config = Inr (wire, sent)"
proof -
  let ?m = "min (sts_max_chunk_bytes config) (effective_plaintext_cap (sts_max_plaintext_frame_len config))"
  have m: "max ?m 4 \<le> 65519"
    using assms(1) by (auto simp: send_ready_def AGENT_TEXT_STREAM_MAX_PLAINTEXT_FRAME_LEN_def min_le_iff_disj)
  have "list_all (\<lambda>c. length c \<le> 65519) (split_text_deltas (sts_text config) ?m)"
    using split_text_deltas_ok(2) [of "sts_text config" ?m] assms(1) m
    by (force simp: list_all_iff send_ready_def)
  then obtain wire tr where "send_loop P config 0 (split_text_deltas (sts_text config) ?m) []
      (transcript_new (sp_sha256 P) (sts_stream_id config) (sts_start_event_id config)) = Inr (wire, tr)"
    using send_loop_total [OF assms] by (metis surj_pair)
  then show ?thesis using assms(1) by (simp add: send_ready_def send_text_stream_def Let_def)
qed

text \<open>
  C19: A text that is sent arrives.  For every ready configuration (a chunk size in range, a stream id the
  record format can carry, a nonempty UTF-8 text and, with encryption, 32-byte secrets and ids) sending
  succeeds, and the receiver with the same start event and keys, whose limits cover the text, returns
  exactly the text that was sent, whatever the chunk size, with or without encryption and with multi-byte
  characters at chunk boundaries; both sides report the same stream, chunk count and transcript hash.
  The AEAD and key derivation are assumed total on such inputs and opening is assumed to invert sealing.
\<close>
theorem direct_stream_roundtrip:
  assumes "send_ready config" "prims_total P" "aead_correct P"
    and "length (sts_text config) \<le> unat (max_records limits)"
    and "length (sts_text config) \<le> max_plaintext_bytes limits" "max_plaintext_bytes limits \<le> USIZE_MAX"
    and "effective_plaintext_cap (sts_max_plaintext_frame_len config) \<le>
      effective_plaintext_cap (Some (rl_max_plaintext_frame_len limits))"
  shows "\<exists>wire sent received. send_text_stream P config = Inr (wire, sent) \<and>
    receive_once_with_limits P (sts_start_event_id config) (sts_crypto config) limits wire = Inr received
    \<and> rts_text received = sts_text config \<and> rts_stream_id received = sent_stream_id sent
    \<and> rts_transcript_hash received = sent_transcript_hash sent \<and> rts_chunk_count received = sent_chunk_count sent"
proof -
  obtain wire sent where s: "send_text_stream P config = Inr (wire, sent)"
    using send_text_stream_total [OF assms(1-3)] by blast
  have "unat (max_records limits) < 2 ^ LENGTH(64)" by (rule unsigned_less)
  then have l: "length (sts_text config) < 2 ^ 64" using assms(4) by simp
  have t: "sts_text config \<noteq> []" "is_utf8 (sts_text config)" using assms(1) by (simp_all add: send_ready_def)
  have "unat (sent_chunk_count sent) \<le> unat (max_records limits)"
    using sent_chunk_count_le [OF s t(2) l] assms(4) by simp
  from sent_stream_received [OF s t assms(3) this l assms(5-7)] show ?thesis using s by blast
qed

definition demo_prims :: StreamPrims where
  "demo_prims = \<lparr> sp_sha256 = (\<lambda>_. replicate 32 0), sp_prk_ok = (\<lambda>s. length s = 32),
     sp_hkdf_expand = (\<lambda>_ _ n. if n \<le> 8160 then Some (replicate n 0) else None),
     sp_seal = (\<lambda>key _ _ m. Some (map ((+) (hd key)) m @ replicate 16 0)),
     sp_open = (\<lambda>key _ _ c. if length c < 16 then None
                             else Some (map (\<lambda>b. b - hd key) (take (length c - 16) c))) \<rparr>"

definition demo_config :: SendTextStream where
  "demo_config = \<lparr> sts_stream_id = replicate 32 5, sts_start_event_id = replicate 32 9, sts_text = ''ok!'',
     sts_max_chunk_bytes = 2,
     sts_crypto = Some \<lparr> stream_secret = replicate 32 7,
       key_context = \<lparr> kc_group_id = [1], kc_stream_id = replicate 32 5, kc_mls_epoch = 3, kc_sender_id = [2],
         kc_start_event_id = replicate 32 9 \<rparr> \<rparr>,
     sts_max_plaintext_frame_len = None \<rparr>"

definition demo_limits :: AgentTextStreamReceiveLimits where
  "demo_limits = \<lparr> max_records = 8, max_plaintext_bytes = 100, rl_max_plaintext_frame_len = 65519 \<rparr>"

lemma demo_ready:
  "send_ready demo_config" "prims_total demo_prims" "aead_correct demo_prims"
  "length (sts_text demo_config) \<le> unat (max_records demo_limits)"
  "length (sts_text demo_config) \<le> max_plaintext_bytes demo_limits" "max_plaintext_bytes demo_limits \<le> USIZE_MAX"
  "effective_plaintext_cap (sts_max_plaintext_frame_len demo_config) \<le>
     effective_plaintext_cap (Some (rl_max_plaintext_frame_len demo_limits))"
proof -
  have "is_utf8 ''ok!''" by code_simp
  then show "send_ready demo_config"
    by (simp add: send_ready_def demo_config_def crypto_ready_def AGENT_TEXT_STREAM_MAX_PLAINTEXT_FRAME_LEN_def
        AGENT_TEXT_STREAM_MAX_STREAM_ID_LEN_def)
  show "prims_total demo_prims" by (simp add: prims_total_def demo_prims_def)
  show "aead_correct demo_prims"
    by (simp add: aead_correct_def demo_prims_def AGENT_TEXT_STREAM_AEAD_TAG_LEN_def comp_def)
qed (simp_all add: demo_config_def demo_limits_def USIZE_MAX_def effective_plaintext_cap_def
    AGENT_TEXT_STREAM_MAX_PLAINTEXT_FRAME_LEN_def)

theorem direct_stream_roundtrip_witness:
  "send_ready demo_config \<and> (\<exists>wire sent received. send_text_stream demo_prims demo_config = Inr (wire, sent) \<and>
    receive_once_with_limits demo_prims (replicate 32 9) (sts_crypto demo_config) demo_limits wire = Inr received
    \<and> rts_text received = ''ok!'')"
proof -
  have "sts_start_event_id demo_config = replicate 32 9" "sts_text demo_config = ''ok!''"
    by (simp_all add: demo_config_def)
  then show ?thesis using direct_stream_roundtrip [OF demo_ready] demo_ready(1) by auto
qed

section \<open>What any received stream looks like\<close>

definition delta_text :: "ReceivedTextChunk list \<Rightarrow> string" where
  "delta_text cs = concat (map rc_text (filter (\<lambda>c. rc_record_type c = AGENT_TEXT_STREAM_RECORD_TEXT_DELTA) cs))"

definition rx_inv :: "AgentTextStreamReceiveLimits \<Rightarrow> ReceiveState \<Rightarrow> bool" where
  "rx_inv limits st \<longleftrightarrow>
     map rc_seq (rs_chunks st) = map (\<lambda>i. of_nat (Suc i)) [0..<length (rs_chunks st)] \<and>
     rs_high_water st = of_nat (length (rs_chunks st)) \<and>
     acc_limits (rs_limits st) = limits \<and> acc_records (rs_limits st) = of_nat (length (rs_chunks st)) \<and>
     length (rs_chunks st) \<le> unat (max_records limits) \<and>
     rs_text st = delta_text (rs_chunks st) \<and>
     length (concat (map rc_text (rs_chunks st))) \<le> acc_plaintext_bytes (rs_limits st) \<and>
     acc_plaintext_bytes (rs_limits st) \<le> max_plaintext_bytes limits \<and>
     (rs_stream_id st = None \<longleftrightarrow> rs_chunks st = []) \<and> (rs_transcript st = None \<longleftrightarrow> rs_chunks st = []) \<and>
     (\<forall>t. rs_transcript st = Some t \<longrightarrow> tr_chunk_count t = of_nat (length (rs_chunks st)))"

lemma observe_wire_record_Inr:
  "observe_wire_record a = Inr a' \<Longrightarrow> acc_limits a' = acc_limits a \<and> acc_records a' = acc_records a \<and>
     acc_plaintext_bytes a' = acc_plaintext_bytes a"
  by (auto simp: observe_wire_record_def split: option.splits if_split_asm)

lemma observe_Inr:
  assumes "observe r a = Inr a'"
  shows "acc_limits a' = acc_limits a" "acc_records a' = acc_records a + 1"
    "acc_records a \<noteq> - 1" "acc_records a + 1 \<le> max_records (acc_limits a)"
    "acc_plaintext_bytes a' = acc_plaintext_bytes a + length (rec_plaintext_frame r)"
    "acc_plaintext_bytes a' \<le> max_plaintext_bytes (acc_limits a)"
  using assms by (auto simp: observe_def checked_add_one_def Let_def split: if_split_asm)

lemma stream_record_text_length: "stream_record_text r = Inr s \<Longrightarrow> length s \<le> length (rec_plaintext_frame r)"
  by (auto simp: stream_record_text_def r_simps from_utf8_Inr split: if_split_asm)

lemma stream_transcript_Inr:
  "stream_transcript P start r st = Inr (i, t) \<Longrightarrow>
   rs_stream_id st \<noteq> None \<and> rs_transcript st = Some t \<or> t = transcript_new (sp_sha256 P) (rec_stream_id r) start
     \<and> (rs_stream_id st = None \<or> rs_transcript st = None)"
  by (auto simp: stream_transcript_def Let_def split: option.splits if_split_asm)

lemma u64_succ_unat: "(n :: u64) \<noteq> - 1 \<Longrightarrow> unat (n + 1) = Suc (unat n)"
proof -
  assume n: "n \<noteq> - 1"
  have "unat n < 2 ^ LENGTH(64)" by (rule unsigned_less)
  moreover have "unat n \<noteq> 2 ^ 64 - 1"
  proof
    assume "unat n = 2 ^ 64 - 1"
    then have "n = of_nat (2 ^ 64 - 1)" using word_nat_cases [of n] by (metis of_nat_unat ucast_id)
    then show False using n by simp
  qed
  ultimately have "Suc (unat n) < 2 ^ 64" by simp
  then show ?thesis using u64_succ(3) [of "unat n"] by simp
qed

lemma receive_record_inv:
  assumes "rx_inv limits st" "receive_record P start crypto record st = Inr st'"
  shows "rx_inv limits st'"
proof -
  obtain l1 where l1: "observe_wire_record (rs_limits st) = Inr l1"
    using assms(2) by (auto simp: receive_record_def r_simps)
  note w = observe_wire_record_Inr [OF l1]
  note i = assms(1) [unfolded rx_inv_def]
  show ?thesis
  proof (cases "rec_seq record \<le> rs_high_water st")
    case True
    then have "st' = st \<lparr> rs_limits := l1 \<rparr>" using assms(2) l1 by (simp add: receive_record_def)
    then show ?thesis using i w by (simp add: rx_inv_def)
  next
    case False
    then obtain r l2 where seq: "rec_seq record = rs_high_water st + 1"
        and d: "(case crypto of None \<Rightarrow> Inr record | Some c \<Rightarrow> decrypt_record P c record) = Inr r"
        and o: "observe r l1 = Inr l2"
        and a: "accept_record P start r (st \<lparr> rs_limits := l2, rs_high_water := rec_seq r \<rparr>) = Inr st'"
      using assms(2) l1 by (auto simp: receive_record_def r_simps split: if_split_asm)
    have rs: "rec_seq r = rs_high_water st + 1"
      using d seq by (auto simp: decrypt_record_def r_simps split: option.splits if_split_asm)
    note ob = observe_Inr [OF o]
    let ?n = "length (rs_chunks st)"
    have n: "rs_high_water st = of_nat ?n" "acc_records l1 = of_nat ?n" "?n \<le> unat (max_records limits)"
        "acc_limits l1 = limits" "acc_plaintext_bytes l1 = acc_plaintext_bytes (rs_limits st)"
      using i w by auto
    have "unat (max_records limits) < 2 ^ LENGTH(64)" by (rule unsigned_less)
    then have un: "unat (of_nat ?n :: u64) = ?n" using n(3) by (intro unat_of_nat_u64) simp
    have "of_nat ?n + 1 \<le> max_records limits" using ob(4) unfolding n(2,4) .
    then have le: "Suc ?n \<le> unat (max_records limits)"
      using u64_succ_unat [of "of_nat ?n"] ob(3) unfolding n(2) un by (simp add: word_le_nat_alt)
    let ?st1 = "st \<lparr> rs_limits := l2, rs_high_water := rec_seq r \<rparr>"
    obtain s j t where f: "stream_record_text r = Inr s" "st' = push_chunk P r j t s ?st1"
        "stream_transcript P start r ?st1 = Inr (j, t)"
      using a by (auto simp: accept_record_def r_simps)
    have t: "tr_chunk_count t = of_nat ?n"
      using stream_transcript_Inr [OF f(3)] i by (auto simp: transcript_new_def)
    have st: "rs_chunks st' = rs_chunks st @ [\<lparr> rc_seq = of_nat ?n + 1, rc_record_type = rec_type r,
          rc_flags = rec_flags r, rc_text = s \<rparr>]"
        "rs_high_water st' = of_nat ?n + 1" "rs_limits st' = l2" "rs_stream_id st' = Some j"
        "\<exists>u. rs_transcript st' = Some u \<and> tr_chunk_count u = of_nat ?n + 1"
      using rs n(1) t by (simp_all add: f(2) push_chunk_def transcript_append_def)
    have tx: "rs_text st' = delta_text (rs_chunks st')"
      using i by (simp add: f(2) push_chunk_def delta_text_def)
    have "length s \<le> length (rec_plaintext_frame r)" by (rule stream_record_text_length [OF f(1)])
    then have "length (concat (map rc_text (rs_chunks st'))) \<le> acc_plaintext_bytes l2"
      using i ob(5) n(5) st(1) by simp
    then show ?thesis
      unfolding rx_inv_def st(3) tx
      using st(1,2,4,5) i ob(1,2,6) n(2,4) le by (auto simp: add.commute)
  qed
qed

lemma receive_loop_inv:
  "receive_loop P start crypto m recv st = Inr st' \<Longrightarrow> rx_inv limits st \<Longrightarrow> rx_inv limits st'"
proof (induction P start crypto m recv st rule: receive_loop.induct)
  case (1 P start crypto m recv st)
  show ?case
    using "1.prems" "1.IH" receive_record_inv
    by (subst (asm) receive_loop.simps) (fastforce split: sum.splits option.splits prod.splits)
qed

text \<open>
  C20: Whatever arrives, a stream that is accepted is in order and complete up to its end.  If the
  receiver returns a stream for any bytes at all, its chunks carry the sequence numbers from 1 on
  without gap or repetition, the text is the concatenation of the text deltas, the reported count is
  the number of chunks, there is at least one and at most as many as the record limit, and their
  texts together stay within the byte limit.  Duplicated or replayed records leave no trace.
\<close>
theorem received_stream_contiguous:
  assumes "receive_once_with_limits P start crypto limits recv = Inr r"
  shows "map (\<lambda>c. unat (rc_seq c)) (rts_chunks r) = [1..<Suc (length (rts_chunks r))]
    \<and> rts_text r = delta_text (rts_chunks r)
    \<and> 0 < length (rts_chunks r) \<and> length (rts_chunks r) \<le> unat (max_records limits)
    \<and> unat (rts_chunk_count r) = length (rts_chunks r)
    \<and> length (concat (map rc_text (rts_chunks r))) \<le> max_plaintext_bytes limits"
proof -
  let ?st0 = "\<lparr> rs_stream_id = None, rs_high_water = 0, rs_chunks = [], rs_text = [], rs_transcript = None,
      rs_limits = accumulator_new limits \<rparr>"
  obtain st t where l: "receive_loop P start crypto (frame_len_cap (Some (rl_max_plaintext_frame_len limits))) recv ?st0 = Inr st"
      and t: "rs_transcript st = Some t"
      and r: "rts_chunks r = rs_chunks st" "rts_text r = rs_text st" "rts_chunk_count r = tr_chunk_count t"
    using assms by (auto simp: receive_once_with_limits_def r_simps split: option.splits)
  have "rx_inv limits ?st0" by (simp add: rx_inv_def delta_text_def accumulator_new_def)
  then have i: "rx_inv limits st" by (rule receive_loop_inv [OF l])
  let ?n = "length (rs_chunks st)"
  have "unat (max_records limits) < 2 ^ LENGTH(64)" by (rule unsigned_less)
  then have n: "?n < 2 ^ 64" using i by (simp add: rx_inv_def)
  have "unat (of_nat (Suc k) :: u64) = Suc k" if "k < ?n" for k
    using that n by (intro unat_of_nat_u64) simp
  then have "map unat (map rc_seq (rs_chunks st)) = map Suc [0..<?n]"
    using i by (simp add: rx_inv_def)
  also have "\<dots> = [1..<Suc ?n]" by (simp add: map_Suc_upt del: upt_Suc)
  finally have "map (\<lambda>c. unat (rc_seq c)) (rts_chunks r) = [1..<Suc ?n]" by (simp add: comp_def r(1))
  moreover have "unat (tr_chunk_count t) = ?n" using i t n unat_of_nat_u64 by (auto simp: rx_inv_def)
  ultimately show ?thesis using i t r by (auto simp: rx_inv_def)
qed

theorem received_stream_contiguous_witness:
  "\<exists>wire sent r. send_text_stream demo_prims demo_config = Inr (wire, sent) \<and>
    receive_once_with_limits demo_prims (replicate 32 9) (sts_crypto demo_config) demo_limits wire = Inr r \<and>
    map (\<lambda>c. unat (rc_seq c)) (rts_chunks r) = [1..<Suc (length (rts_chunks r))] \<and> rts_chunks r \<noteq> []"
proof -
  obtain wire sent where s: "send_text_stream demo_prims demo_config = Inr (wire, sent)"
    using send_text_stream_total [OF demo_ready(1-3)] by blast
  have t: "sts_text demo_config \<noteq> []" "is_utf8 (sts_text demo_config)" using demo_ready(1) by (simp_all add: send_ready_def)
  have l: "length (sts_text demo_config) < 2 ^ 64" by (simp add: demo_config_def)
  have "unat (sent_chunk_count sent) \<le> unat (max_records demo_limits)"
    using sent_chunk_count_le [OF s t(2) l] demo_ready(4) by simp
  from sent_stream_received [OF s t demo_ready(3) this l demo_ready(5-7)]
  obtain r where r: "receive_once_with_limits demo_prims (sts_start_event_id demo_config) (sts_crypto demo_config)
      demo_limits wire = Inr r" by blast
  have "sts_start_event_id demo_config = replicate 32 9" by (simp add: demo_config_def)
  then show ?thesis using s r received_stream_contiguous [OF r] by (auto simp del: upt_Suc)
qed

end
