(* ===== verification/Broker_Control.thy ===== *)
theory Broker_Control
  imports Quic_Stream
begin

text \<open>
  The wire side of the QUIC broker (\<^verbatim>\<open>crates/transport-quic-broker/src\<close>: \<^verbatim>\<open>protocol.rs\<close>, \<^verbatim>\<open>error.rs\<close>,
  \<^verbatim>\<open>config.rs\<close>, \<^verbatim>\<open>control.rs\<close>, \<^verbatim>\<open>frame.rs\<close> and the configuration checks of \<^verbatim>\<open>server.rs\<close>).  A duration is a
  number of nanoseconds.  The error that quotes an unexpected protocol name carries its bytes.
\<close>

section \<open>Constants and errors\<close>

type_synonym nanos = nat

definition from_secs :: "nat \<Rightarrow> nanos" where "from_secs s = s * 1000000000"

definition QUIC_BROKER_PROTOCOL_V1 :: string where "QUIC_BROKER_PROTOCOL_V1 = ''marmot.quic_broker.v1''"
definition QUIC_BROKER_CONTROL_PUBLISH :: u8 where "QUIC_BROKER_CONTROL_PUBLISH = 1"
definition QUIC_BROKER_CONTROL_SUBSCRIBE :: u8 where "QUIC_BROKER_CONTROL_SUBSCRIBE = 2"
definition MAX_BROKER_REPLAY_TTL :: nanos where
  "MAX_BROKER_REPLAY_TTL = from_secs (unat AGENT_TEXT_STREAM_MAX_REPLAY_TTL_SECS)"
definition FINISHED_ROOM_TTL :: nanos where "FINISHED_ROOM_TTL = from_secs 60"
definition UNFINISHED_ROOM_TTL :: nanos where "UNFINISHED_ROOM_TTL = FINISHED_ROOM_TTL"

datatype QuicBrokerError =
    BReadExact
  | BRecord AgentTextStreamRecordError
  | BUtf8 string
  | BStreamCrypto QuicTextStreamError
  | BReceiveLimit AgentTextStreamReceiveLimitError
  | BEmptySubscriberQueue
  | BEmptyBacklog
  | BEmptyRoomLimit
  | BEmptyBacklogByteLimit
  | BEmptyConnectionLimit
  | BEmptyStreamLimit
  | BEmptyReadTimeout
  | BEmptyIdleTimeout
  | BEmptyKeepAliveInterval
  | BReplayTtlTooLarge nat nat
  | BRoomLimitExceeded nat
  | BBacklogRecordTooLarge nat nat
  | BMissingControlFrame
  | BWrongControlProtocol bytes
  | BUnknownControlType u8
  | BControlTruncated string
  | BControlTrailingBytes nat
  | BPublishRequiresUnidirectionalStream
  | BSubscribeRequiresBidirectionalStream
  | BEmptyStreamId
  | BStreamIdTooLong nat
  | BEmptyStartEventId
  | BStartEventIdTooLong nat
  | BEmptyStream
  | BTruncatedFrameLength
  | BEmptyFrame
  | BFrameTooLarge nat
  | BEmptyChunkSize
  | BChunkSizeTooLarge nat
  | BMixedStreamIds
  | BUnexpectedSequence u64 u64

section \<open>Configuration\<close>

record QuicBrokerConfig =
  cfg_per_subscriber_queue :: nat
  cfg_max_backlog :: nat
  cfg_max_rooms :: nat
  cfg_max_backlog_bytes :: nat
  cfg_max_connections :: nat
  cfg_max_streams_per_connection :: nat
  cfg_read_timeout :: nanos
  cfg_max_idle_timeout :: nanos
  cfg_keep_alive_interval :: nanos
  cfg_replay_ttl :: nanos

definition QuicBrokerConfig_default :: QuicBrokerConfig where
  "QuicBrokerConfig_default =
     \<lparr> cfg_per_subscriber_queue = 32, cfg_max_backlog = 1024, cfg_max_rooms = 512,
       cfg_max_backlog_bytes = 64 * 1024 * 1024, cfg_max_connections = 256,
       cfg_max_streams_per_connection = 64, cfg_read_timeout = from_secs 15,
       cfg_max_idle_timeout = from_secs 30, cfg_keep_alive_interval = from_secs 10,
       cfg_replay_ttl = 0 \<rparr>"

definition bind_checks :: "QuicBrokerConfig \<Rightarrow> QuicBrokerError + unit" where
  "bind_checks config =
     (if cfg_per_subscriber_queue config = 0 then Inl BEmptySubscriberQueue
      else if cfg_max_backlog config = 0 then Inl BEmptyBacklog
      else if cfg_max_rooms config = 0 then Inl BEmptyRoomLimit
      else if cfg_max_backlog_bytes config = 0 then Inl BEmptyBacklogByteLimit
      else if cfg_max_connections config = 0 then Inl BEmptyConnectionLimit
      else if cfg_max_streams_per_connection config = 0 then Inl BEmptyStreamLimit
      else if cfg_read_timeout config = 0 then Inl BEmptyReadTimeout
      else if cfg_max_idle_timeout config = 0 then Inl BEmptyIdleTimeout
      else if cfg_keep_alive_interval config = 0 then Inl BEmptyKeepAliveInterval
      else if cfg_replay_ttl config > MAX_BROKER_REPLAY_TTL
      then Inl (BReplayTtlTooLarge (cfg_replay_ttl config div 1000000000) (MAX_BROKER_REPLAY_TTL div 1000000000))
      else Inr ())"

section \<open>The control envelope\<close>

record BrokerStreamKey =
  bk_stream_id :: bytes
  bk_start_event_id :: bytes

datatype QuicBrokerControlTypeV1 = BrokerPublish | BrokerSubscribe

definition control_wire :: "QuicBrokerControlTypeV1 \<Rightarrow> u8" where
  "control_wire t = (case t of BrokerPublish \<Rightarrow> QUIC_BROKER_CONTROL_PUBLISH | BrokerSubscribe \<Rightarrow> QUIC_BROKER_CONTROL_SUBSCRIBE)"

definition from_wire :: "u8 \<Rightarrow> QuicBrokerError + QuicBrokerControlTypeV1" where
  "from_wire v =
     (if v = QUIC_BROKER_CONTROL_PUBLISH then Inr BrokerPublish
      else if v = QUIC_BROKER_CONTROL_SUBSCRIBE then Inr BrokerSubscribe
      else Inl (BUnknownControlType v))"

record QuicBrokerControlEnvelopeV1 =
  env_control_type :: QuicBrokerControlTypeV1
  env_stream_id :: bytes
  env_start_event_id :: bytes

definition validate_bounds :: "QuicBrokerControlEnvelopeV1 \<Rightarrow> QuicBrokerError + unit" where
  "validate_bounds e =
     (if env_stream_id e = [] then Inl BEmptyStreamId
      else if length (env_stream_id e) > AGENT_TEXT_STREAM_MAX_STREAM_ID_LEN
      then Inl (BStreamIdTooLong (length (env_stream_id e)))
      else if env_start_event_id e = [] then Inl BEmptyStartEventId
      else if length (env_start_event_id e) > AGENT_TEXT_STREAM_MAX_STREAM_ID_LEN
      then Inl (BStartEventIdTooLong (length (env_start_event_id e)))
      else Inr ())"

definition env_encode :: "QuicBrokerControlEnvelopeV1 \<Rightarrow> QuicBrokerError + bytes" where
  "env_encode e =
     r_bind (validate_bounds e) (\<lambda>_.
       Inr (encode_quic_varint (of_nat (length QUIC_BROKER_PROTOCOL_V1)) @ as_bytes QUIC_BROKER_PROTOCOL_V1
            @ [control_wire (env_control_type e)]
            @ encode_quic_varint (of_nat (length (env_stream_id e))) @ env_stream_id e
            @ encode_quic_varint (of_nat (length (env_start_event_id e))) @ env_start_event_id e))"

definition take_control_len_prefixed :: "bytes \<Rightarrow> string \<Rightarrow> QuicBrokerError + (bytes \<times> bytes)" where
  "take_control_len_prefixed bytes field =
     r_bind (r_map_err (\<lambda>_. BControlTruncated field) (decode_quic_varint bytes)) (\<lambda>(len, prefix_len).
       if length bytes < prefix_len then Inl (BControlTruncated field)
       else (let rest = drop prefix_len bytes in
             if length rest < unat len then Inl (BControlTruncated field)
             else Inr (take (unat len) rest, drop (unat len) rest)))"

definition env_decode :: "bytes \<Rightarrow> QuicBrokerError + QuicBrokerControlEnvelopeV1" where
  "env_decode bytes =
     r_bind (take_control_len_prefixed bytes ''marmot_broker'') (\<lambda>(marmot_broker, rest).
       if marmot_broker = [] \<or> length marmot_broker > 255 then Inl (BWrongControlProtocol marmot_broker)
       else if marmot_broker \<noteq> as_bytes QUIC_BROKER_PROTOCOL_V1 then Inl (BWrongControlProtocol marmot_broker)
       else (case rest of
               [] \<Rightarrow> Inl (BControlTruncated ''control_type'')
             | ty # rest \<Rightarrow>
                 r_bind (from_wire ty) (\<lambda>control_type.
                 r_bind (take_control_len_prefixed rest ''stream_id'') (\<lambda>(stream_id, rest).
                 r_bind (take_control_len_prefixed rest ''start_event_id'') (\<lambda>(start_event_id, rest).
                   if rest \<noteq> [] then Inl (BControlTrailingBytes (length rest))
                   else (let envelope = \<lparr> env_control_type = control_type, env_stream_id = stream_id,
                                          env_start_event_id = start_event_id \<rparr> in
                         r_bind (validate_bounds envelope) (\<lambda>_. Inr envelope)))))))"

definition env_key :: "QuicBrokerControlEnvelopeV1 \<Rightarrow> BrokerStreamKey" where
  "env_key e = \<lparr> bk_stream_id = env_stream_id e, bk_start_event_id = env_start_event_id e \<rparr>"

section \<open>Frames\<close>

definition broker_validate_frame_len :: "nat \<Rightarrow> nat \<Rightarrow> QuicBrokerError + unit" where
  "broker_validate_frame_len len max_frame_len =
     (if len = 0 then Inl BEmptyFrame
      else if len > min max_frame_len MAX_FRAME_SIZE then Inl (BFrameTooLarge len)
      else Inr ())"

definition write_bytes_frame :: "bytes \<Rightarrow> QuicBrokerError + bytes" where
  "write_bytes_frame bytes =
     (if length bytes > 4294967295 then Inl (BFrameTooLarge (length bytes))
      else Inr (to_be_bytes 4 (of_nat (length bytes) :: u32) @ bytes))"

definition read_bytes_frame :: "bytes \<Rightarrow> nat \<Rightarrow> QuicBrokerError + (bytes \<times> bytes) option" where
  "read_bytes_frame recv max_frame_len =
     (if recv = [] then Inr None
      else if length recv < FRAME_LEN_BYTES then Inl BTruncatedFrameLength
      else (let len = unat (from_be_bytes (take FRAME_LEN_BYTES recv) :: u32); rest = drop FRAME_LEN_BYTES recv in
            r_bind (broker_validate_frame_len len max_frame_len) (\<lambda>_.
              if length rest < len then Inl BReadExact
              else Inr (Some (take len rest, drop len rest)))))"

definition write_control_frame :: "QuicBrokerControlEnvelopeV1 \<Rightarrow> QuicBrokerError + bytes" where
  "write_control_frame control = r_bind (env_encode control) write_bytes_frame"

definition read_control_frame :: "bytes \<Rightarrow> QuicBrokerError + (QuicBrokerControlEnvelopeV1 \<times> bytes)" where
  "read_control_frame recv =
     r_bind (read_bytes_frame recv MAX_FRAME_SIZE) (\<lambda>frame.
       case frame of
         None \<Rightarrow> Inl BMissingControlFrame
       | Some (bytes, rest) \<Rightarrow> r_bind (env_decode bytes) (\<lambda>control. Inr (control, rest)))"

definition write_record_frame :: "AgentTextStreamRecordV1 \<Rightarrow> QuicBrokerError + bytes" where
  "write_record_frame record = r_bind (r_map_err BRecord (record_encode record)) write_bytes_frame"

definition read_record_frame :: "bytes \<Rightarrow> nat \<Rightarrow> QuicBrokerError + (AgentTextStreamRecordV1 \<times> bytes) option" where
  "read_record_frame recv max_frame_len =
     r_bind (read_bytes_frame recv max_frame_len) (\<lambda>frame.
       case frame of
         None \<Rightarrow> Inr None
       | Some (bytes, rest) \<Rightarrow>
           r_bind (r_map_err BRecord (record_decode bytes)) (\<lambda>record. Inr (Some (record, rest))))"

section \<open>The envelope codec is canonical\<close>

definition env_bytes :: "QuicBrokerControlEnvelopeV1 \<Rightarrow> bytes" where
  "env_bytes e = push_len_prefixed (as_bytes QUIC_BROKER_PROTOCOL_V1) @ control_wire (env_control_type e)
     # push_len_prefixed (env_stream_id e) @ push_len_prefixed (env_start_event_id e)"

lemma env_encode_Inr: "env_encode e = Inr bs \<longleftrightarrow> validate_bounds e = Inr () \<and> bs = env_bytes e"
  by (auto simp: env_encode_def env_bytes_def push_len_prefixed_def r_simps as_bytes_def)

lemma take_control_len_prefixed_Inr:
  "take_control_len_prefixed bs f = Inr (x, r) \<longleftrightarrow> take_len_prefixed bs f = Inr (x, r)"
  by (auto simp: take_control_len_prefixed_def take_len_prefixed_def take_exact_def r_simps Let_def
      split: prod.splits if_split_asm)

interpretation clp: prefix_codec push_len_prefixed "\<lambda>bs. take_control_len_prefixed bs field" "\<lambda>x. length x < 2 ^ 62"
  using lp.dec_enc lp.dec_sound lp.enc_nonempty by unfold_locales (auto simp: take_control_len_prefixed_Inr)

lemma from_wire_Inr: "from_wire v = Inr t \<longleftrightarrow> v = control_wire t"
  by (cases t) (auto simp: from_wire_def control_wire_def QUIC_BROKER_CONTROL_PUBLISH_def QUIC_BROKER_CONTROL_SUBSCRIBE_def)

lemma validate_bounds_Inr:
  "validate_bounds e = Inr () \<longleftrightarrow> env_stream_id e \<noteq> [] \<and> length (env_stream_id e) \<le> 64 \<and>
     env_start_event_id e \<noteq> [] \<and> length (env_start_event_id e) \<le> 64"
  by (auto simp: validate_bounds_def AGENT_TEXT_STREAM_MAX_STREAM_ID_LEN_def)

lemma env_decode_sound:
  assumes "env_decode bs = Inr e"
  shows "validate_bounds e = Inr () \<and> bs = env_bytes e"
proof -
  obtain r0 where r0: "take_control_len_prefixed bs ''marmot_broker'' = Inr (as_bytes QUIC_BROKER_PROTOCOL_V1, r0)"
    using assms by (auto simp: env_decode_def r_simps split: if_split_asm)
  moreover have "r0 \<noteq> []" using assms r0 by (auto simp: env_decode_def split: if_split_asm)
  ultimately obtain ty r1 ct sid r2 eid where
    d: "take_control_len_prefixed bs ''marmot_broker'' = Inr (as_bytes QUIC_BROKER_PROTOCOL_V1, ty # r1)"
      "from_wire ty = Inr ct" "take_control_len_prefixed r1 ''stream_id'' = Inr (sid, r2)"
      "take_control_len_prefixed r2 ''start_event_id'' = Inr (eid, [])"
    and e: "e = \<lparr> env_control_type = ct, env_stream_id = sid, env_start_event_id = eid \<rparr>" "validate_bounds e = Inr ()"
    using assms by (cases r0) (auto simp: env_decode_def r_simps Let_def split: if_split_asm)
  show ?thesis
    using clp.dec_sound [OF d(1)] clp.dec_sound [OF d(3)] clp.dec_sound [OF d(4)] d(2) e
    by (simp add: env_bytes_def from_wire_Inr)
qed

lemma env_decode_complete:
  assumes "validate_bounds e = Inr ()"
  shows "env_decode (env_bytes e) = Inr e"
proof -
  have l: "length (as_bytes QUIC_BROKER_PROTOCOL_V1) = 21" by (simp add: as_bytes_def QUIC_BROKER_PROTOCOL_V1_def)
  have s: "length (env_stream_id e) < 2 ^ 62" "length (env_start_event_id e) < 2 ^ 62"
    using assms by (auto simp: validate_bounds_Inr)
  have d: "take_control_len_prefixed (push_len_prefixed (as_bytes QUIC_BROKER_PROTOCOL_V1) @ r) f =
        Inr (as_bytes QUIC_BROKER_PROTOCOL_V1, r)"
      "take_control_len_prefixed (push_len_prefixed (env_stream_id e) @ r) f = Inr (env_stream_id e, r)"
      "take_control_len_prefixed (push_len_prefixed (env_start_event_id e)) f = Inr (env_start_event_id e, [])" for r f
    using clp.dec_enc [where field = f and r = r] clp.dec_enc [where field = f and r = "[]"] s l by force+
  have w: "from_wire (control_wire t) = Inr t" for t by (simp add: from_wire_Inr)
  have eq: "\<lparr> env_control_type = env_control_type e, env_stream_id = env_stream_id e,
      env_start_event_id = env_start_event_id e \<rparr> = e" by simp
  have "as_bytes QUIC_BROKER_PROTOCOL_V1 \<noteq> []" by (simp add: as_bytes_def QUIC_BROKER_PROTOCOL_V1_def)
  then show ?thesis using assms l by (simp add: env_decode_def env_bytes_def d w eq Let_def)
qed

interpretation env_codec: canonical_codec env_encode env_decode
  using env_decode_sound by unfold_locales (simp add: env_encode_Inr)

section \<open>Frames round trip\<close>

lemma read_written_bytes:
  assumes "write_bytes_frame bs = Inr w" "bs \<noteq> []" "length bs \<le> min m MAX_FRAME_SIZE"
  shows "read_bytes_frame (w @ rest) m = Inr (Some (bs, rest))"
proof -
  let ?l = "to_be_bytes 4 (of_nat (length bs) :: u32)"
  have n: "length bs \<le> 4294967295" and w: "w = ?l @ bs"
    using assms(1) by (auto simp: write_bytes_frame_def split: if_split_asm)
  have l: "length ?l = 4" by (rule length_to_be_bytes)
  have "unat (from_be_bytes ?l :: u32) = length bs"
    using n from_be_to_be_bytes [where 'a = 32 and k = 4 and w = "of_nat (length bs)"] by (simp add: unat_of_nat_u32)
  moreover have "broker_validate_frame_len (length bs) m = Inr ()"
    using assms(2,3) by (auto simp: broker_validate_frame_len_def)
  moreover have "?l @ bs @ rest \<noteq> []" using assms(2) by simp
  ultimately show ?thesis using l by (simp add: read_bytes_frame_def FRAME_LEN_BYTES_def Let_def w)
qed

lemma write_record_frame_Inr: "write_record_frame r = Inr bs \<longleftrightarrow> write_record r = Inr bs"
  by (auto simp: write_record_frame_def write_record_def write_bytes_frame_def r_simps split: if_split_asm)

lemma read_written_record_frame:
  assumes "write_record_frame r = Inr w" "length (record_bytes r) \<le> min m MAX_FRAME_SIZE"
  shows "read_record_frame (w @ rest) m = Inr (Some (r, rest))"
proof -
  have v: "record_validate r = Inr ()" and w: "write_bytes_frame (record_bytes r) = Inr w"
    using assms(1) by (auto simp: write_record_frame_def r_simps record_encode_Inr)
  have "record_bytes r \<noteq> []" by (simp add: record_bytes_def)
  then show ?thesis
    using read_written_bytes [OF w _ assms(2)] record_decode_complete [OF v] by (simp add: read_record_frame_def)
qed

lemma read_written_control:
  assumes "write_control_frame c = Inr w"
  shows "read_control_frame (w @ rest) = Inr (c, rest)"
proof -
  have v: "validate_bounds c = Inr ()" and w: "write_bytes_frame (env_bytes c) = Inr w"
    using assms by (auto simp: write_control_frame_def r_simps env_encode_Inr)
  have "length (env_bytes c) \<le> 200"
    using v encode_quic_varint_length_le [of "of_nat (length (env_stream_id c))"]
      encode_quic_varint_length_le [of "of_nat (length (env_start_event_id c))"]
      encode_quic_varint_length_le [of "of_nat (length QUIC_BROKER_PROTOCOL_V1)"]
    by (simp add: validate_bounds_Inr env_bytes_def push_len_prefixed_def as_bytes_def QUIC_BROKER_PROTOCOL_V1_def)
  moreover have "200 \<le> MAX_FRAME_SIZE"
    by (simp add: MAX_FRAME_SIZE_def AGENT_TEXT_STREAM_FRAME_ALLOWANCE_def)
  moreover have "env_bytes c \<noteq> []" by (simp add: env_bytes_def)
  ultimately show ?thesis
    using read_written_bytes [OF w, of MAX_FRAME_SIZE rest] env_decode_complete [OF v] by (simp add: read_control_frame_def)
qed

end
