(* ===== verification/Broker_State.thy ===== *)
theory Broker_State
  imports Broker_Control "HOL-Library.AList" "HOL-Library.Sublist"
begin

text \<open>
  The room engine of the QUIC broker (\<^verbatim>\<open>crates/transport-quic-broker/src/state.rs\<close>): per-stream rooms
  with retained backlog and bounded live queues.  The state is what the mutex guards; each operation
  is one locked section and reads the clock once (\<open>now\<close>, in nanoseconds).  The rooms are an association
  list in the place of the hash map.  A bounded channel keeps everything ever sent, how much of it was
  received and whether its receiver is alive; senders hold its index in the list of channels.
\<close>

section \<open>State\<close>

record Channel =
  ch_sent :: "AgentTextStreamRecordV1 list"
  ch_received :: nat
  ch_open :: bool

record Subscriber =
  sub_id :: u64
  sub_tx :: nat

record BacklogRecord =
  br_record :: AgentTextStreamRecordV1
  br_bytes :: nat
  br_appended_at :: nanos

record BrokerRoom =
  room_subscribers :: "Subscriber list"
  room_backlog :: "BacklogRecord list"
  room_backlog_bytes :: nat
  room_finished_at :: "nanos option"
  room_last_activity_at :: nanos

record BrokerState =
  bs_per_subscriber_queue :: nat
  bs_max_backlog :: nat
  bs_max_rooms :: nat
  bs_max_backlog_bytes :: nat
  bs_replay_ttl :: nanos
  bs_accepts :: "nat \<Rightarrow> Channel \<Rightarrow> bool"

record BrokerStateInner =
  bi_rooms :: "(BrokerStreamKey \<times> BrokerRoom) list"
  bi_next_subscriber_id :: u64
  bi_total_backlog_bytes :: nat
  bi_channels :: "Channel list"

definition BrokerState_new :: "(nat \<Rightarrow> Channel \<Rightarrow> bool) \<Rightarrow> QuicBrokerConfig \<Rightarrow> BrokerState" where
  "BrokerState_new accepts config =
     \<lparr> bs_per_subscriber_queue = cfg_per_subscriber_queue config, bs_max_backlog = cfg_max_backlog config,
       bs_max_rooms = cfg_max_rooms config, bs_max_backlog_bytes = cfg_max_backlog_bytes config,
       bs_replay_ttl = cfg_replay_ttl config, bs_accepts = accepts \<rparr>"

definition BrokerStateInner_default :: BrokerStateInner where
  "BrokerStateInner_default =
     \<lparr> bi_rooms = [], bi_next_subscriber_id = 0, bi_total_backlog_bytes = 0, bi_channels = [] \<rparr>"

definition BrokerRoom_default :: "nanos \<Rightarrow> BrokerRoom" where
  "BrokerRoom_default now =
     \<lparr> room_subscribers = [], room_backlog = [], room_backlog_bytes = 0, room_finished_at = None,
       room_last_activity_at = now \<rparr>"

text \<open>
  \<^verbatim>\<open>mpsc::channel\<close> and \<^verbatim>\<open>try_send\<close>.  Whether a sender of a given capacity accepts a record is decided by the
  asynchronous runtime, the parameter \<open>bs_accepts\<close>.
\<close>

definition channel_new :: Channel where
  "channel_new = \<lparr> ch_sent = [], ch_received = 0, ch_open = True \<rparr>"

definition try_send :: "(Channel \<Rightarrow> bool) \<Rightarrow> AgentTextStreamRecordV1 \<Rightarrow> Channel \<Rightarrow> Channel option" where
  "try_send accepts record c =
     (if accepts c
      then Some (c \<lparr> ch_sent := ch_sent c @ [record] \<rparr>) else None)"

definition entry_or_default :: "nanos \<Rightarrow> BrokerStreamKey \<Rightarrow> BrokerStateInner \<Rightarrow> BrokerRoom" where
  "entry_or_default now key inner =
     (case map_of (bi_rooms inner) key of Some room \<Rightarrow> room | None \<Rightarrow> BrokerRoom_default now)"

definition put_room :: "BrokerStreamKey \<Rightarrow> BrokerRoom \<Rightarrow> BrokerStateInner \<Rightarrow> BrokerStateInner" where
  "put_room key room inner = inner \<lparr> bi_rooms := AList.update key room (bi_rooms inner) \<rparr>"

section \<open>Retention\<close>

fun purge_front :: "nanos \<Rightarrow> nanos \<Rightarrow> BacklogRecord list \<Rightarrow> nat \<Rightarrow> nat \<Rightarrow> BacklogRecord list \<times> nat \<times> nat" where
  "purge_front now replay_ttl [] bytes freed = ([], bytes, freed)"
| "purge_front now replay_ttl (front # backlog) bytes freed =
     (if now - br_appended_at front < replay_ttl then (front # backlog, bytes, freed)
      else purge_front now replay_ttl backlog (bytes - br_bytes front) (freed + br_bytes front))"

definition purge_expired_backlog :: "nanos \<Rightarrow> nanos \<Rightarrow> BrokerRoom \<Rightarrow> nat \<times> BrokerRoom" where
  "purge_expired_backlog now replay_ttl room =
     (let (backlog, bytes, freed) = purge_front now replay_ttl (room_backlog room) (room_backlog_bytes room) 0
      in (freed, room \<lparr> room_backlog := backlog, room_backlog_bytes := bytes \<rparr>))"

definition room_retained :: "nanos \<Rightarrow> BrokerRoom \<Rightarrow> bool" where
  "room_retained now room =
     (case room_finished_at room of
        Some finished_at \<Rightarrow> now - finished_at < FINISHED_ROOM_TTL
      | None \<Rightarrow> room_subscribers room \<noteq> [] \<or> now - room_last_activity_at room < UNFINISHED_ROOM_TTL)"

definition purge_expired_rooms :: "BrokerState \<Rightarrow> nanos \<Rightarrow> BrokerStateInner \<Rightarrow> BrokerStateInner" where
  "purge_expired_rooms state now inner =
     (let rooms = map (\<lambda>(key, room). (key, snd (purge_expired_backlog now (bs_replay_ttl state) room)))
                    (filter (\<lambda>(key, room). room_retained now room) (bi_rooms inner))
      in inner \<lparr> bi_rooms := rooms,
                 bi_total_backlog_bytes := sum_list (map (\<lambda>(key, room). room_backlog_bytes room) rooms) \<rparr>)"

definition remove_room :: "BrokerStreamKey \<Rightarrow> BrokerStateInner \<Rightarrow> BrokerStateInner" where
  "remove_room key inner =
     (case map_of (bi_rooms inner) key of
        None \<Rightarrow> inner
      | Some room \<Rightarrow>
          inner \<lparr> bi_rooms := AList.delete key (bi_rooms inner),
                  bi_total_backlog_bytes := bi_total_backlog_bytes inner - room_backlog_bytes room \<rparr>)"

definition room_is_idle :: "BrokerRoom \<Rightarrow> bool" where
  "room_is_idle room \<longleftrightarrow>
     room_subscribers room = [] \<and> room_backlog room = [] \<and> room_finished_at room = None"

section \<open>Operations\<close>

definition room_limit_hit :: "BrokerState \<Rightarrow> BrokerStreamKey \<Rightarrow> BrokerStateInner \<Rightarrow> bool" where
  "room_limit_hit state key inner \<longleftrightarrow>
     map_of (bi_rooms inner) key = None \<and> length (bi_rooms inner) \<ge> bs_max_rooms state"

definition touch :: "nanos \<Rightarrow> BrokerRoom \<Rightarrow> BrokerRoom" where
  "touch now room = (if room_finished_at room = None then room \<lparr> room_last_activity_at := now \<rparr> else room)"

definition subscribe ::
  "BrokerState \<Rightarrow> nanos \<Rightarrow> BrokerStreamKey \<Rightarrow> BrokerStateInner \<Rightarrow>
   (QuicBrokerError + (u64 \<times> AgentTextStreamRecordV1 list \<times> nat)) \<times> BrokerStateInner" where
  "subscribe state now key inner =
     (let inner = purge_expired_rooms state now inner in
      if room_limit_hit state key inner then (Inl (BRoomLimitExceeded (bs_max_rooms state)), inner)
      else
        (let sid = bi_next_subscriber_id inner;
             rx = length (bi_channels inner);
             (freed, room) = purge_expired_backlog now (bs_replay_ttl state) (touch now (entry_or_default now key inner));
             backlog = map br_record (room_backlog room);
             room = (if room_finished_at room = None
                     then room \<lparr> room_subscribers := room_subscribers room @ [\<lparr> sub_id = sid, sub_tx = rx \<rparr>] \<rparr>
                     else room);
             inner = put_room key room inner
         in (Inr (sid, backlog, rx),
             inner \<lparr> bi_next_subscriber_id := sid + 1,
                     bi_total_backlog_bytes := bi_total_backlog_bytes inner - freed,
                     bi_channels := bi_channels inner @ [channel_new] \<rparr>)))"

definition unsubscribe :: "BrokerState \<Rightarrow> nanos \<Rightarrow> BrokerStreamKey \<Rightarrow> u64 \<Rightarrow> BrokerStateInner \<Rightarrow> BrokerStateInner" where
  "unsubscribe state now key sid inner =
     (let inner = purge_expired_rooms state now inner in
      case map_of (bi_rooms inner) key of
        None \<Rightarrow> inner
      | Some room \<Rightarrow>
          (let room = touch now (room \<lparr> room_subscribers := filter (\<lambda>s. sub_id s \<noteq> sid) (room_subscribers room) \<rparr>);
               inner = put_room key room inner
           in if room_is_idle room then remove_room key inner else inner))"

fun evict :: "BrokerState \<Rightarrow> BacklogRecord list \<Rightarrow> nat \<Rightarrow> nat \<Rightarrow> BacklogRecord list \<times> nat \<times> nat" where
  "evict state [] bytes tot = ([], bytes, tot)"
| "evict state (dropped # backlog) bytes tot =
     (if length (dropped # backlog) > bs_max_backlog state \<or> tot > bs_max_backlog_bytes state
      then evict state backlog (bytes - br_bytes dropped) (tot - br_bytes dropped)
      else (dropped # backlog, bytes, tot))"

definition retain_record ::
  "BrokerState \<Rightarrow> nanos \<Rightarrow> AgentTextStreamRecordV1 \<Rightarrow> nat \<Rightarrow> BrokerRoom \<times> nat \<Rightarrow> BrokerRoom \<times> nat" where
  "retain_record state now record n_bytes rt =
     (let (freed, room) = purge_expired_backlog now (bs_replay_ttl state) (fst rt);
          (backlog, bytes, tot) =
            evict state (room_backlog room @ [\<lparr> br_record = record, br_bytes = n_bytes, br_appended_at = now \<rparr>])
              (room_backlog_bytes room + n_bytes) (snd rt - freed + n_bytes)
      in (room \<lparr> room_backlog := backlog, room_backlog_bytes := bytes \<rparr>, tot))"

fun deliver ::
  "(Channel \<Rightarrow> bool) \<Rightarrow> AgentTextStreamRecordV1 \<Rightarrow> Subscriber list \<Rightarrow> Channel list \<Rightarrow> Subscriber list \<times> Channel list \<times> nat" where
  "deliver accepts record [] channels = ([], channels, 0)"
| "deliver accepts record (s # subs) channels =
     (case try_send accepts record (channels ! sub_tx s) of
        Some c \<Rightarrow> (let (subs', channels', delivered) = deliver accepts record subs (channels[sub_tx s := c])
                   in (s # subs', channels', delivered + 1))
      | None \<Rightarrow> deliver accepts record subs channels)"

definition publish_room ::
  "BrokerState \<Rightarrow> nanos \<Rightarrow> BrokerStreamKey \<Rightarrow> AgentTextStreamRecordV1 \<Rightarrow> nat option \<Rightarrow> BrokerStateInner \<Rightarrow>
   nat \<times> BrokerStateInner" where
  "publish_room state now key record n_bytes inner =
     (let room = (entry_or_default now key inner) \<lparr> room_last_activity_at := now \<rparr>;
          (room, tot) = (case n_bytes of
                             None \<Rightarrow> (room, bi_total_backlog_bytes inner)
                           | Some n \<Rightarrow> retain_record state now record n (room, bi_total_backlog_bytes inner));
          (subs, channels, delivered) =
            deliver (bs_accepts state (bs_per_subscriber_queue state)) record (room_subscribers room)
              (bi_channels inner);
          room = room \<lparr> room_subscribers := subs \<rparr>;
          inner = (put_room key room inner) \<lparr> bi_total_backlog_bytes := tot, bi_channels := channels \<rparr>
      in (delivered, if room_is_idle room then remove_room key inner else inner))"

definition record_bytes_to_retain :: "BrokerState \<Rightarrow> AgentTextStreamRecordV1 \<Rightarrow> QuicBrokerError + nat option" where
  "record_bytes_to_retain state record =
     (if bs_replay_ttl state = 0 then Inr None
      else r_bind (r_map_err BRecord (record_encode record)) (\<lambda>bytes.
        if length bytes > bs_max_backlog_bytes state
        then Inl (BBacklogRecordTooLarge (length bytes) (bs_max_backlog_bytes state))
        else Inr (Some (length bytes))))"

definition drop_finished :: "BrokerStreamKey \<Rightarrow> BrokerStateInner \<Rightarrow> BrokerStateInner" where
  "drop_finished key inner =
     (case map_of (bi_rooms inner) key of
        Some room \<Rightarrow> if room_finished_at room \<noteq> None then remove_room key inner else inner
      | None \<Rightarrow> inner)"

definition publish ::
  "BrokerState \<Rightarrow> nanos \<Rightarrow> BrokerStreamKey \<Rightarrow> AgentTextStreamRecordV1 \<Rightarrow> BrokerStateInner \<Rightarrow>
   (QuicBrokerError + nat) \<times> BrokerStateInner" where
  "publish state now key record inner =
     (case record_bytes_to_retain state record of
        Inl e \<Rightarrow> (Inl e, inner)
      | Inr n_bytes \<Rightarrow>
          (let inner = drop_finished key (purge_expired_rooms state now inner) in
           if room_limit_hit state key inner then (Inl (BRoomLimitExceeded (bs_max_rooms state)), inner)
           else (let (delivered, inner) = publish_room state now key record n_bytes inner
                 in (Inr delivered, inner))))"

text \<open>
  One round of the loop of \<^verbatim>\<open>wait_for_subscriber\<close>: \<open>Inr True\<close> when a subscriber is there, \<open>Inr False\<close> when
  the caller waits for the next notification.  At the end of the grace period the loop is abandoned
  and \<open>drop_empty_unfinished_room\<close> runs.
\<close>

definition wait_for_subscriber_round ::
  "BrokerState \<Rightarrow> nanos \<Rightarrow> BrokerStreamKey \<Rightarrow> BrokerStateInner \<Rightarrow> (QuicBrokerError + bool) \<times> BrokerStateInner" where
  "wait_for_subscriber_round state now key inner =
     (let inner = purge_expired_rooms state now inner in
      if room_limit_hit state key inner then (Inl (BRoomLimitExceeded (bs_max_rooms state)), inner)
      else (let room = entry_or_default now key inner;
                room = (if room_finished_at room \<noteq> None then BrokerRoom_default now else room)
            in (Inr (room_subscribers room \<noteq> []), put_room key room inner)))"

definition drop_room :: "BrokerStreamKey \<Rightarrow> BrokerStateInner \<Rightarrow> BrokerStateInner" where
  "drop_room key inner = remove_room key inner"

definition drop_empty_unfinished_room :: "BrokerStreamKey \<Rightarrow> BrokerStateInner \<Rightarrow> BrokerStateInner" where
  "drop_empty_unfinished_room key inner =
     (case map_of (bi_rooms inner) key of
        Some room \<Rightarrow> if room_is_idle room then remove_room key inner else inner
      | None \<Rightarrow> inner)"

definition mark_room_finished ::
  "BrokerState \<Rightarrow> nanos \<Rightarrow> BrokerStreamKey \<Rightarrow> BrokerStateInner \<Rightarrow> bool \<times> BrokerStateInner" where
  "mark_room_finished state now key inner =
     (let inner = purge_expired_rooms state now inner in
      case map_of (bi_rooms inner) key of
        None \<Rightarrow> (False, inner)
      | Some room \<Rightarrow>
          (let (freed, room) = purge_expired_backlog now (bs_replay_ttl state) (room \<lparr> room_subscribers := [] \<rparr>);
               tot = bi_total_backlog_bytes inner - freed
           in if room_backlog room = []
              then (False, remove_room key ((put_room key room inner) \<lparr> bi_total_backlog_bytes := tot \<rparr>))
              else (True, (put_room key (room \<lparr> room_finished_at := Some now, room_last_activity_at := now \<rparr>) inner)
                            \<lparr> bi_total_backlog_bytes := tot \<rparr>)))"

definition drop_expired_finished_room :: "nanos \<Rightarrow> BrokerStreamKey \<Rightarrow> BrokerStateInner \<Rightarrow> BrokerStateInner" where
  "drop_expired_finished_room now key inner =
     (case map_of (bi_rooms inner) key of
        None \<Rightarrow> inner
      | Some room \<Rightarrow>
          (case room_finished_at room of
             Some finished_at \<Rightarrow> if now - finished_at \<ge> FINISHED_ROOM_TTL then remove_room key inner else inner
           | None \<Rightarrow> inner))"

section \<open>Histories\<close>

text \<open>
  The handlers of all connections run these operations in some order, at times that never decrease.
  A history keeps, beside the state, the records published to each key with their times, and for every
  subscription its key and the backlog it was served.  The subscription's channel has its index.
\<close>

datatype BrokerOp =
    OpSubscribe BrokerStreamKey
  | OpUnsubscribe BrokerStreamKey u64
  | OpPublish BrokerStreamKey AgentTextStreamRecordV1
  | OpWaitRound BrokerStreamKey
  | OpGraceOver BrokerStreamKey
  | OpDropRoom BrokerStreamKey
  | OpFinish BrokerStreamKey
  | OpFinishedTimer BrokerStreamKey
  | OpReceive nat
  | OpHangUp nat

record BrokerHistory =
  bh_inner :: BrokerStateInner
  bh_now :: nanos
  bh_log :: "BrokerStreamKey \<Rightarrow> (nanos \<times> AgentTextStreamRecordV1) list"
  bh_sessions :: "(BrokerStreamKey \<times> AgentTextStreamRecordV1 list) list"

definition chan_receive :: "Channel \<Rightarrow> Channel" where
  "chan_receive c = (if ch_received c < length (ch_sent c) then c \<lparr> ch_received := ch_received c + 1 \<rparr> else c)"

definition on_channel :: "nat \<Rightarrow> (Channel \<Rightarrow> Channel) \<Rightarrow> BrokerStateInner \<Rightarrow> BrokerStateInner" where
  "on_channel i f inner = inner \<lparr> bi_channels := (bi_channels inner)[i := f (bi_channels inner ! i)] \<rparr>"

fun broker_op :: "BrokerState \<Rightarrow> nanos \<Rightarrow> BrokerOp \<Rightarrow> BrokerHistory \<Rightarrow> BrokerHistory" where
  "broker_op state now (OpSubscribe key) h =
     (let (res, inner) = subscribe state now key (bh_inner h) in
      h \<lparr> bh_inner := inner,
          bh_sessions := (case res of Inl e \<Rightarrow> bh_sessions h
                                    | Inr (sid, backlog, rx) \<Rightarrow> bh_sessions h @ [(key, backlog)]) \<rparr>)"
| "broker_op state now (OpUnsubscribe key sid) h = h \<lparr> bh_inner := unsubscribe state now key sid (bh_inner h) \<rparr>"
| "broker_op state now (OpPublish key record) h =
     (let (res, inner) = publish state now key record (bh_inner h) in
      h \<lparr> bh_inner := inner,
          bh_log := (case res of Inl e \<Rightarrow> bh_log h
                               | Inr n \<Rightarrow> (bh_log h)(key := bh_log h key @ [(now, record)])) \<rparr>)"
| "broker_op state now (OpWaitRound key) h =
     h \<lparr> bh_inner := snd (wait_for_subscriber_round state now key (bh_inner h)) \<rparr>"
| "broker_op state now (OpGraceOver key) h = h \<lparr> bh_inner := drop_empty_unfinished_room key (bh_inner h) \<rparr>"
| "broker_op state now (OpDropRoom key) h = h \<lparr> bh_inner := drop_room key (bh_inner h) \<rparr>"
| "broker_op state now (OpFinish key) h = h \<lparr> bh_inner := snd (mark_room_finished state now key (bh_inner h)) \<rparr>"
| "broker_op state now (OpFinishedTimer key) h = h \<lparr> bh_inner := drop_expired_finished_room now key (bh_inner h) \<rparr>"
| "broker_op state now (OpReceive i) h = h \<lparr> bh_inner := on_channel i chan_receive (bh_inner h) \<rparr>"
| "broker_op state now (OpHangUp i) h =
     h \<lparr> bh_inner := on_channel i (\<lambda>c. c \<lparr> ch_open := False \<rparr>) (bh_inner h) \<rparr>"

inductive broker_history :: "BrokerState \<Rightarrow> BrokerHistory \<Rightarrow> bool" for state where
  start: "broker_history state \<lparr> bh_inner = BrokerStateInner_default, bh_now = 0, bh_log = (\<lambda>_. []), bh_sessions = [] \<rparr>"
| step: "broker_history state h \<Longrightarrow> bh_now h \<le> now \<Longrightarrow>
         broker_history state (broker_op state now oper (h \<lparr> bh_now := now \<rparr>))"

end
