(* ===== verification/Broker_Invariants.thy ===== *)
theory Broker_Invariants
  imports Broker_State
begin

text \<open>
  What holds along every history of the broker: the memory bounds of its configuration, and that a
  subscription sees a contiguous part of the published stream.
\<close>

section \<open>The invariant\<close>

abbreviation backlog_sum :: "BacklogRecord list \<Rightarrow> nat" where
  "backlog_sum bl \<equiv> sum_list (map br_bytes bl)"

abbreviation log_entry :: "BacklogRecord \<Rightarrow> nanos \<times> AgentTextStreamRecordV1" where
  "log_entry b \<equiv> (br_appended_at b, br_record b)"

type_synonym broker_log = "BrokerStreamKey \<Rightarrow> (nanos \<times> AgentTextStreamRecordV1) list"
type_synonym sessions = "(BrokerStreamKey \<times> AgentTextStreamRecordV1 list) list"

definition retained_ok :: "BrokerState \<Rightarrow> (nanos \<times> AgentTextStreamRecordV1) list \<Rightarrow> BrokerRoom \<Rightarrow> bool" where
  "retained_ok state entries room \<longleftrightarrow>
     room_backlog_bytes room = backlog_sum (room_backlog room) \<and>
     length (room_backlog room) \<le> bs_max_backlog state \<and>
     (bs_replay_ttl state = 0 \<longrightarrow> room_backlog room = []) \<and>
     list_all (\<lambda>b. record_encode (br_record b) = Inr (record_bytes (br_record b)) \<and>
       br_bytes b = length (record_bytes (br_record b))) (room_backlog room) \<and>
     suffix (map log_entry (room_backlog room)) entries"

definition subscribers_ok ::
  "sessions \<Rightarrow> Channel list \<Rightarrow> BrokerStreamKey \<Rightarrow> (nanos \<times> AgentTextStreamRecordV1) list \<Rightarrow> BrokerRoom \<Rightarrow> bool" where
  "subscribers_ok sess chans key entries room \<longleftrightarrow>
     (room_finished_at room \<noteq> None \<longrightarrow> room_subscribers room = []) \<and>
     distinct (map sub_tx (room_subscribers room)) \<and>
     list_all (\<lambda>s. sub_tx s < length chans \<and> sub_tx s < length sess \<and> fst (sess ! sub_tx s) = key \<and>
       suffix (snd (sess ! sub_tx s) @ ch_sent (chans ! sub_tx s)) (map snd entries)) (room_subscribers room)"

definition room_ok :: "BrokerState \<Rightarrow> broker_log \<Rightarrow> sessions \<Rightarrow> Channel list \<Rightarrow> BrokerStreamKey \<Rightarrow> BrokerRoom \<Rightarrow> bool" where
  "room_ok state log sess chans key room \<longleftrightarrow>
     retained_ok state (log key) room \<and> subscribers_ok sess chans key (log key) room"

definition rooms_bytes :: "(BrokerStreamKey \<times> BrokerRoom) list \<Rightarrow> nat" where
  "rooms_bytes rs = sum_list (map (\<lambda>(key, room). room_backlog_bytes room) rs)"

definition inner_ok :: "BrokerState \<Rightarrow> broker_log \<Rightarrow> sessions \<Rightarrow> BrokerStateInner \<Rightarrow> bool" where
  "inner_ok state log sess inner \<longleftrightarrow>
     distinct (map fst (bi_rooms inner)) \<and> length (bi_rooms inner) \<le> bs_max_rooms state \<and>
     (\<forall>key room. (key, room) \<in> set (bi_rooms inner) \<longrightarrow> room_ok state log sess (bi_channels inner) key room) \<and>
     rooms_bytes (bi_rooms inner) \<le> bi_total_backlog_bytes inner \<and>
     bi_total_backlog_bytes inner \<le> bs_max_backlog_bytes state"

definition exact :: "BrokerStateInner \<Rightarrow> bool" where
  "exact inner \<longleftrightarrow> bi_total_backlog_bytes inner = rooms_bytes (bi_rooms inner)"

text \<open>The documented bound of a channel: it accepts no record while its queue is full.\<close>

definition queue_bounded :: "(nat \<Rightarrow> Channel \<Rightarrow> bool) \<Rightarrow> bool" where
  "queue_bounded accept \<longleftrightarrow> (\<forall>capacity c. accept capacity c \<longrightarrow> length (ch_sent c) - ch_received c < capacity)"

definition channel_ok :: "BrokerState \<Rightarrow> Channel \<Rightarrow> bool" where
  "channel_ok state c \<longleftrightarrow> ch_received c \<le> length (ch_sent c) \<and>
     (queue_bounded (bs_accepts state) \<longrightarrow> length (ch_sent c) \<le> ch_received c + bs_per_subscriber_queue state)"

definition hist_ok :: "BrokerState \<Rightarrow> BrokerHistory \<Rightarrow> bool" where
  "hist_ok state h \<longleftrightarrow>
     inner_ok state (bh_log h) (bh_sessions h) (bh_inner h) \<and>
     length (bh_sessions h) = length (bi_channels (bh_inner h)) \<and>
     list_all (channel_ok state) (bi_channels (bh_inner h)) \<and>
     (\<forall>i < length (bh_sessions h). sublist (snd (bh_sessions h ! i) @ ch_sent (bi_channels (bh_inner h) ! i))
        (map snd (bh_log h (fst (bh_sessions h ! i))))) \<and>
     (\<forall>key. sorted (map fst (bh_log h key)) \<and> list_all (\<lambda>e. fst e \<le> bh_now h) (bh_log h key))"

section \<open>Retention\<close>

lemma suffix_dropWhile_map: "suffix (map f xs) ys \<Longrightarrow> suffix (map f (dropWhile P xs)) ys"
  using suffix_dropWhile [of P xs] by (meson map_mono_suffix suffix_order.trans)

lemma list_all_dropWhile: "list_all P xs \<Longrightarrow> list_all P (dropWhile Q xs)"
  by (meson list_all_iff set_dropWhileD)

lemma backlog_sum_split: "backlog_sum (takeWhile P bl) + backlog_sum (dropWhile P bl) = backlog_sum bl"
  by (metis map_append sum_list_append takeWhile_dropWhile_id)

abbreviation expired :: "nanos \<Rightarrow> nanos \<Rightarrow> BacklogRecord \<Rightarrow> bool" where
  "expired now ttl b \<equiv> \<not> now - br_appended_at b < ttl"

lemma purge_front_eq:
  "purge_front now ttl bl (backlog_sum bl) f =
     (dropWhile (expired now ttl) bl, backlog_sum (dropWhile (expired now ttl) bl),
      f + backlog_sum (takeWhile (expired now ttl) bl))"
  by (induction bl arbitrary: f) auto

lemma purge_expired_backlog_eq:
  assumes "retained_ok state entries room"
  shows "purge_expired_backlog now ttl room =
    (backlog_sum (takeWhile (expired now ttl) (room_backlog room)),
     room \<lparr> room_backlog := dropWhile (expired now ttl) (room_backlog room),
            room_backlog_bytes := backlog_sum (dropWhile (expired now ttl) (room_backlog room)) \<rparr>)"
  using assms purge_front_eq [of now ttl "room_backlog room" 0]
  by (simp add: purge_expired_backlog_def retained_ok_def)

lemma purge_expired_backlog_ok:
  assumes "retained_ok state entries room" "purge_expired_backlog now ttl room = (freed, room')"
  shows "retained_ok state entries room'" "room_backlog_bytes room' + freed = room_backlog_bytes room"
    "room_subscribers room' = room_subscribers room" "room_finished_at room' = room_finished_at room"
    "room_backlog room' = dropWhile (expired now ttl) (room_backlog room)"
proof -
  note e = purge_expired_backlog_eq [OF assms(1), of now ttl, unfolded assms(2)]
  let ?bl = "dropWhile (expired now ttl) (room_backlog room)"
  have "length ?bl \<le> bs_max_backlog state"
    using assms(1) length_dropWhile_le [of "expired now ttl" "room_backlog room"] unfolding retained_ok_def by linarith
  then show "retained_ok state entries room'"
    using e assms(1) by (auto simp: retained_ok_def suffix_dropWhile_map list_all_dropWhile)
  show "room_backlog_bytes room' + freed = room_backlog_bytes room"
    using e assms(1) backlog_sum_split [of "expired now ttl" "room_backlog room"] by (simp add: retained_ok_def)
qed (use purge_expired_backlog_eq [OF assms(1), of now ttl, unfolded assms(2)] in simp_all)

lemma room_ok_purge:
  "room_ok state log sess chans key room \<Longrightarrow> purge_expired_backlog now ttl room = (freed, room') \<Longrightarrow>
   room_ok state log sess chans key room' \<and> room_backlog_bytes room' + freed = room_backlog_bytes room"
  using purge_expired_backlog_ok [of state "log key" room now ttl freed room']
  by (simp add: room_ok_def subscribers_ok_def)

text \<open>What is left in the backlog after a purge is younger than the time to live.\<close>

lemma dropWhile_expired_young:
  assumes "sorted (map br_appended_at bl)" "b \<in> set (dropWhile (expired now ttl) bl)"
  shows "now - br_appended_at b < ttl"
  using assms
proof (induction bl)
  case (Cons a bl)
  show ?case
  proof (cases "expired now ttl a")
    case False
    then have "b \<in> set (a # bl)" using Cons.prems(2) by simp
    then have "br_appended_at a \<le> br_appended_at b" using Cons.prems(1) by auto
    then show ?thesis using False by linarith
  qed (use Cons in simp)
qed simp

section \<open>Rooms as an association list\<close>

definition bytes_at :: "BrokerStreamKey \<Rightarrow> (BrokerStreamKey \<times> BrokerRoom) list \<Rightarrow> nat" where
  "bytes_at key rs = (case map_of rs key of None \<Rightarrow> 0 | Some room \<Rightarrow> room_backlog_bytes room)"

lemma rooms_bytes_update: "rooms_bytes (AList.update key room rs) + bytes_at key rs = rooms_bytes rs + room_backlog_bytes room"
  by (induction rs) (auto simp: rooms_bytes_def bytes_at_def)

lemma rooms_bytes_delete:
  "distinct (map fst rs) \<Longrightarrow> rooms_bytes (AList.delete key rs) + bytes_at key rs = rooms_bytes rs"
proof (induction rs)
  case (Cons p rs)
  show ?case
  proof (cases "fst p = key")
    case True
    then have "key \<notin> fst ` set rs" using Cons.prems by auto
    then have "AList.delete key rs = rs" "map_of rs key = None"
      by (simp_all add: delete_id map_of_eq_None_iff)
    then show ?thesis using True by (cases p) (simp add: rooms_bytes_def bytes_at_def)
  next
    case False
    then show ?thesis using Cons by (cases p) (auto simp: rooms_bytes_def bytes_at_def)
  qed
qed (simp add: rooms_bytes_def bytes_at_def)

lemma set_update_distinct:
  "distinct (map fst rs) \<Longrightarrow> (k, r) \<in> set (AList.update key room rs) \<Longrightarrow>
   k = key \<and> r = room \<or> k \<noteq> key \<and> (k, r) \<in> set rs"
  by (induction rs) (auto split: if_split_asm simp: rev_image_eqI)

lemma length_update: "length (AList.update key room rs) = (if map_of rs key = None then Suc (length rs) else length rs)"
  by (induction rs) auto

lemma length_delete_le_rooms: "length (AList.delete key rs) \<le> length rs"
  by (simp add: AList.delete_eq)

lemma set_delete_rooms: "(k, r) \<in> set (AList.delete key rs) \<longleftrightarrow> (k, r) \<in> set rs \<and> k \<noteq> key"
  by (auto simp: AList.delete_eq)

lemma inner_ok_room:
  "inner_ok state log sess inner \<Longrightarrow> map_of (bi_rooms inner) key = Some room \<Longrightarrow>
   room_ok state log sess (bi_channels inner) key room"
  by (auto simp: inner_ok_def dest: map_of_SomeD)

lemma bytes_at_le: "inner_ok state log sess inner \<Longrightarrow> bytes_at key (bi_rooms inner) \<le> rooms_bytes (bi_rooms inner)"
  using rooms_bytes_delete [of "bi_rooms inner" key] by (simp add: inner_ok_def)

section \<open>Building blocks keep the invariant\<close>

lemma purge_expired_rooms_ok:
  assumes "inner_ok state log sess inner"
  shows "inner_ok state log sess (purge_expired_rooms state now inner)" "exact (purge_expired_rooms state now inner)"
    "bi_channels (purge_expired_rooms state now inner) = bi_channels inner"
proof -
  let ?p = "\<lambda>room. snd (purge_expired_backlog now (bs_replay_ttl state) room)"
  let ?rs = "filter (\<lambda>(key, room). room_retained now room) (bi_rooms inner)"
  let ?rs' = "map (\<lambda>(key, room). (key, ?p room)) ?rs"
  have r: "bi_rooms (purge_expired_rooms state now inner) = ?rs'"
      "bi_total_backlog_bytes (purge_expired_rooms state now inner) = rooms_bytes ?rs'"
    by (simp_all add: purge_expired_rooms_def Let_def rooms_bytes_def)
  show c: "bi_channels (purge_expired_rooms state now inner) = bi_channels inner"
    by (simp add: purge_expired_rooms_def Let_def)
  show "exact (purge_expired_rooms state now inner)" by (simp add: exact_def r)
  have k: "map fst ?rs' = map fst ?rs" by (induction "bi_rooms inner") auto
  have rm: "room_ok state log sess (bi_channels inner) key (?p room) \<and> room_backlog_bytes (?p room) \<le> room_backlog_bytes room"
    if "(key, room) \<in> set (bi_rooms inner)" for key room
  proof -
    have "room_ok state log sess (bi_channels inner) key room" using assms that by (auto simp: inner_ok_def)
    from room_ok_purge [OF this, of now "bs_replay_ttl state" "fst (purge_expired_backlog now (bs_replay_ttl state) room)" "?p room"]
    show ?thesis by auto
  qed
  have "rooms_bytes ?rs' \<le> rooms_bytes (bi_rooms inner)"
    using rm unfolding rooms_bytes_def
  proof (induction "bi_rooms inner" arbitrary: inner)
    case (Cons p ps)
    from Cons(2) [symmetric] show ?case
      using Cons(1) [of "inner \<lparr> bi_rooms := ps \<rparr>"] Cons(3) by (cases p) (fastforce intro: add_mono trans_le_add2)
  qed simp
  moreover have "distinct (map fst ?rs)" using assms by (simp add: inner_ok_def distinct_map_filter)
  moreover have "length ?rs \<le> bs_max_rooms state"
    using assms length_filter_le order.trans unfolding inner_ok_def by blast
  ultimately show "inner_ok state log sess (purge_expired_rooms state now inner)"
    using assms rm unfolding inner_ok_def r c k by (auto intro: order.trans)
qed

lemma remove_room_ok:
  assumes "inner_ok state log sess inner"
  shows "inner_ok state log sess (remove_room key inner)" "bi_channels (remove_room key inner) = bi_channels inner"
    "exact inner \<Longrightarrow> exact (remove_room key inner)"
proof -
  let ?rs = "bi_rooms inner"
  have d: "distinct (map fst ?rs)" using assms by (simp add: inner_ok_def)
  note b = rooms_bytes_delete [OF d, of key]
  have i: "inner_ok state log sess (remove_room key inner) \<and> (exact inner \<longrightarrow> exact (remove_room key inner))"
  proof (cases "map_of ?rs key")
    case None
    then show ?thesis using assms by (simp add: remove_room_def)
  next
    case (Some room)
    then have "bytes_at key ?rs = room_backlog_bytes room" by (simp add: bytes_at_def)
    moreover have "distinct (map fst (AList.delete key ?rs))" using d by (rule distinct_delete)
    ultimately show ?thesis
      using assms b Some length_delete_le_rooms [of key ?rs]
      by (auto simp: inner_ok_def remove_room_def exact_def set_delete_rooms)
  qed
  then show "inner_ok state log sess (remove_room key inner)" "exact inner \<Longrightarrow> exact (remove_room key inner)" by auto
qed (auto simp: remove_room_def split: option.split)

lemma put_room_ok:
  assumes "inner_ok state log sess inner" "\<not> room_limit_hit state key inner"
    and "room_ok state log' sess' chans' key room"
    and "\<And>k r. (k, r) \<in> set (bi_rooms inner) \<Longrightarrow> k \<noteq> key \<Longrightarrow> room_ok state log sess (bi_channels inner) k r \<Longrightarrow>
          room_ok state log' sess' chans' k r"
    and "rooms_bytes (bi_rooms inner) + room_backlog_bytes room \<le> tot + bytes_at key (bi_rooms inner)"
    and "tot \<le> bs_max_backlog_bytes state"
    and "inner' = (put_room key room inner) \<lparr> bi_total_backlog_bytes := tot, bi_channels := chans', bi_next_subscriber_id := n \<rparr>"
  shows "inner_ok state log' sess' inner'"
proof -
  let ?rs = "bi_rooms inner"
  have d: "distinct (map fst ?rs)" using assms(1) by (simp add: inner_ok_def)
  have "length (AList.update key room ?rs) \<le> bs_max_rooms state"
    using assms(1,2) by (auto simp: length_update inner_ok_def room_limit_hit_def)
  moreover have "rooms_bytes (AList.update key room ?rs) \<le> tot"
    using rooms_bytes_update [of key room ?rs] assms(5) by linarith
  moreover have "room_ok state log' sess' chans' k r" if "(k, r) \<in> set (AList.update key room ?rs)" for k r
    using set_update_distinct [OF d that] assms(1,3,4) by (auto simp: inner_ok_def)
  moreover have "distinct (map fst (AList.update key room ?rs))" using d by (rule distinct_update)
  ultimately show ?thesis using assms(6) by (simp add: inner_ok_def assms(7) put_room_def)
qed

lemma entry_or_default_ok:
  assumes "inner_ok state log sess inner"
  shows "room_ok state log sess (bi_channels inner) key (entry_or_default now key inner)"
    "room_backlog_bytes (entry_or_default now key inner) = bytes_at key (bi_rooms inner)"
  using assms inner_ok_room
  by (auto simp: entry_or_default_def bytes_at_def BrokerRoom_default_def room_ok_def retained_ok_def subscribers_ok_def
      split: option.splits)

lemma evict_eq:
  assumes "evict state bl (backlog_sum bl) (rest + backlog_sum bl) = (bl', bytes, tot)"
  shows "suffix bl' bl \<and> bytes = backlog_sum bl' \<and> tot = rest + backlog_sum bl' \<and>
    length bl' \<le> bs_max_backlog state \<and> (bl' \<noteq> [] \<longrightarrow> tot \<le> bs_max_backlog_bytes state)"
  using assms
proof (induction bl)
  case (Cons b bl)
  show ?case
  proof (cases "length (b # bl) > bs_max_backlog state \<or> rest + backlog_sum (b # bl) > bs_max_backlog_bytes state")
    case True
    then have "evict state bl (backlog_sum bl) (rest + backlog_sum bl) = (bl', bytes, tot)"
      using Cons.prems by (simp split: if_split_asm)
    then show ?thesis using Cons.IH by (auto intro: suffix_ConsI)
  qed (use Cons.prems in auto)
qed simp

lemma retain_record_ok:
  assumes "retained_ok state entries room" "rest + room_backlog_bytes room = tot0"
    and "record_encode record = Inr bs" "n = length bs" "rest \<le> bs_max_backlog_bytes state"
    and "bs_replay_ttl state \<noteq> 0"
    and "retain_record state now record n (room, tot0) = (room', tot)"
  shows "retained_ok state (entries @ [(now, record)]) room'" "tot = rest + room_backlog_bytes room'"
    "tot \<le> bs_max_backlog_bytes state" "room_subscribers room' = room_subscribers room"
    "room_finished_at room' = room_finished_at room"
proof -
  obtain freed r1 where p: "purge_expired_backlog now (bs_replay_ttl state) room = (freed, r1)" by force
  note r1 = purge_expired_backlog_ok [OF assms(1) p]
  let ?b = "\<lparr> br_record = record, br_bytes = n, br_appended_at = now \<rparr>"
  let ?bl = "room_backlog r1 @ [?b]"
  obtain bl bytes where e: "evict state ?bl (room_backlog_bytes r1 + n) (tot0 - freed + n) = (bl, bytes, tot)"
      and room': "room' = r1 \<lparr> room_backlog := bl, room_backlog_bytes := bytes \<rparr>"
    using assms(7) p by (auto simp: retain_record_def split: prod.splits)
  have s: "room_backlog_bytes r1 + n = backlog_sum ?bl" using r1(1) by (simp add: retained_ok_def)
  have "tot0 - freed + n = rest + backlog_sum ?bl" using assms(2) r1(2) s by linarith
  then have "evict state ?bl (backlog_sum ?bl) (rest + backlog_sum ?bl) = (bl, bytes, tot)" using e unfolding s by metis
  note ev = evict_eq [OF this]
  have b: "record_encode record = Inr (record_bytes record)" "n = length (record_bytes record)"
    using assms(3,4) record_encode_Inr by auto
  have "suffix (map log_entry ?bl) (entries @ [(now, record)])"
    using r1(1) by (simp add: retained_ok_def)
  then have "suffix (map log_entry bl) (entries @ [(now, record)])"
    using ev map_mono_suffix suffix_order.trans by blast
  moreover have "set bl \<subseteq> set ?bl" using ev set_mono_suffix by blast
  ultimately show "retained_ok state (entries @ [(now, record)]) room'"
    using ev r1(1) b assms(6) unfolding retained_ok_def room' list_all_iff by force
  show "tot = rest + room_backlog_bytes room'" using ev by (simp add: room')
  show "tot \<le> bs_max_backlog_bytes state" using ev assms(5) by (cases "bl = []") auto
  show "room_subscribers room' = room_subscribers room" "room_finished_at room' = room_finished_at room"
    using r1 by (simp_all add: room')
qed

abbreviation accepts :: "(Channel \<Rightarrow> bool) \<Rightarrow> AgentTextStreamRecordV1 \<Rightarrow> Channel list \<Rightarrow> Subscriber \<Rightarrow> bool" where
  "accepts cap rec chans s \<equiv> try_send cap rec (chans ! sub_tx s) \<noteq> None"

definition sent_one :: "AgentTextStreamRecordV1 \<Rightarrow> Channel \<Rightarrow> Channel" where
  "sent_one rec c = c \<lparr> ch_sent := ch_sent c @ [rec] \<rparr>"

lemma deliver_eq:
  assumes "distinct (map sub_tx subs)" "list_all (\<lambda>s. sub_tx s < length chans) subs"
    and "deliver cap rec subs chans = (subs', chans', n)"
  shows "subs' = filter (accepts cap rec chans) subs \<and> n = length subs' \<and> length chans' = length chans \<and>
    (\<forall>i < length chans. chans' ! i = (if i \<in> sub_tx ` set subs' then sent_one rec (chans ! i) else chans ! i))"
  using assms
proof (induction subs arbitrary: chans subs' n)
  case (Cons s subs)
  show ?case
  proof (cases "try_send cap rec (chans ! sub_tx s)")
    case None
    then have "deliver cap rec subs chans = (subs', chans', n)" using Cons.prems(3) by simp
    then show ?thesis using Cons.IH [of chans subs' n] Cons.prems None by simp
  next
    case (Some c)
    let ?chans = "chans[sub_tx s := c]"
    obtain ss m where r: "deliver cap rec subs ?chans = (ss, chans', m)" "subs' = s # ss" "n = m + 1"
      using Cons.prems(3) Some by (auto split: prod.splits)
    have c: "c = sent_one rec (chans ! sub_tx s)"
      using Some by (auto simp: try_send_def sent_one_def split: if_split_asm)
    have ne: "?chans ! sub_tx x = chans ! sub_tx x" if "x \<in> set subs" for x
      using Cons.prems(1) that by (metis distinct.simps(2) image_eqI list.simps(9) list.set_map nth_list_update_neq)
    have ih: "ss = filter (accepts cap rec ?chans) subs \<and> m = length ss \<and> length chans' = length ?chans \<and>
        (\<forall>i < length ?chans. chans' ! i = (if i \<in> sub_tx ` set ss then sent_one rec (?chans ! i) else ?chans ! i))"
      using Cons.prems(1,2) r(1) by (intro Cons.IH) simp_all
    have ss: "ss = filter (accepts cap rec chans) subs" using ih ne by (auto intro: filter_cong)
    have "sub_tx s \<notin> sub_tx ` set ss" using Cons.prems(1) ss by auto
    then have ch: "chans' ! i = (if i \<in> sub_tx ` set (s # ss) then sent_one rec (chans ! i) else chans ! i)"
      if "i < length chans" for i
      using ih that Cons.prems(2) c by (cases "i = sub_tx s") simp_all
    have "subs' = filter (accepts cap rec chans) (s # subs)" "n = length subs'" "length chans' = length chans"
      using ih ss r(2,3) Some by simp_all
    then show ?thesis using ch unfolding r(2) by blast
  qed
qed simp

section \<open>Operations that change rooms only\<close>

lemma room_ok_cong:
  assumes "room_ok state log sess chans key room" "log' key = log key"
    and "length chans \<le> length chans'" "length sess \<le> length sess'"
    and "\<And>s. s \<in> set (room_subscribers room) \<Longrightarrow>
          sess' ! sub_tx s = sess ! sub_tx s \<and> ch_sent (chans' ! sub_tx s) = ch_sent (chans ! sub_tx s)"
  shows "room_ok state log' sess' chans' key room"
  using assms by (auto simp: room_ok_def subscribers_ok_def list_all_iff)

lemma room_ok_fewer_subscribers:
  assumes "room_ok state log sess chans key room" "subs = filter P (room_subscribers room)"
    and "retained_ok state (log key) room'" "room_subscribers room' = subs" "room_finished_at room' = room_finished_at room"
  shows "room_ok state log sess chans key room'"
  using assms by (auto simp: room_ok_def subscribers_ok_def list_all_iff distinct_map_filter)

lemma retained_ok_update [simp]:
  "retained_ok state es (r \<lparr> room_subscribers := ss \<rparr>) = retained_ok state es r"
  "retained_ok state es (r \<lparr> room_last_activity_at := t \<rparr>) = retained_ok state es r"
  "retained_ok state es (r \<lparr> room_finished_at := f \<rparr>) = retained_ok state es r"
  by (simp_all add: retained_ok_def)

lemma subscribers_ok_update [simp]:
  "subscribers_ok sess chans key es (r \<lparr> room_last_activity_at := t \<rparr>) = subscribers_ok sess chans key es r"
  by (simp add: subscribers_ok_def)

lemma room_ok_touch [simp]: "room_ok state log sess chans key (touch now r) = room_ok state log sess chans key r"
  by (simp add: touch_def room_ok_def)

lemma touch_simps [simp]:
  "room_backlog (touch now r) = room_backlog r" "room_backlog_bytes (touch now r) = room_backlog_bytes r"
  "room_subscribers (touch now r) = room_subscribers r" "room_finished_at (touch now r) = room_finished_at r"
  by (simp_all add: touch_def)

lemma put_room_same_ok:
  assumes "inner_ok state log sess inner" "\<not> room_limit_hit state key inner"
    and "room_ok state log sess (bi_channels inner) key room"
    and "room_backlog_bytes room + freed \<le> bytes_at key (bi_rooms inner)"
  shows "inner_ok state log sess ((put_room key room inner) \<lparr> bi_total_backlog_bytes := bi_total_backlog_bytes inner - freed \<rparr>)"
proof (rule put_room_ok [OF assms(1-3)])
  show "rooms_bytes (bi_rooms inner) + room_backlog_bytes room
      \<le> (bi_total_backlog_bytes inner - freed) + bytes_at key (bi_rooms inner)"
    using assms(1,4) bytes_at_le [OF assms(1), of key] unfolding inner_ok_def by linarith
  show "bi_total_backlog_bytes inner - freed \<le> bs_max_backlog_bytes state" using assms(1) by (auto simp: inner_ok_def)
  show "(put_room key room inner) \<lparr> bi_total_backlog_bytes := bi_total_backlog_bytes inner - freed \<rparr> =
      (put_room key room inner) \<lparr> bi_total_backlog_bytes := bi_total_backlog_bytes inner - freed,
        bi_channels := bi_channels inner, bi_next_subscriber_id := bi_next_subscriber_id inner \<rparr>"
    by (simp add: put_room_def)
qed

lemma put_room_id: "(put_room key room inner) \<lparr> bi_total_backlog_bytes := bi_total_backlog_bytes inner - 0 \<rparr> = put_room key room inner"
  by (simp add: put_room_def)

lemmas put_room_keep_ok = put_room_same_ok [where freed = 0, unfolded put_room_id]

lemma present_not_limited: "map_of (bi_rooms inner) key = Some r \<Longrightarrow> \<not> room_limit_hit state key inner"
  by (simp add: room_limit_hit_def)

definition keeps_ok :: "BrokerState \<Rightarrow> (BrokerStateInner \<Rightarrow> BrokerStateInner) \<Rightarrow> bool" where
  "keeps_ok state f \<longleftrightarrow> (\<forall>log sess inner. inner_ok state log sess inner \<longrightarrow>
     inner_ok state log sess (f inner) \<and> bi_channels (f inner) = bi_channels inner)"

lemma keeps_okI:
  "(\<And>log sess inner. inner_ok state log sess inner \<Longrightarrow>
     inner_ok state log sess (f inner) \<and> bi_channels (f inner) = bi_channels inner) \<Longrightarrow> keeps_ok state f"
  by (simp add: keeps_ok_def)

lemma keeps_okD:
  "keeps_ok state f \<Longrightarrow> inner_ok state log sess inner \<Longrightarrow>
   inner_ok state log sess (f inner) \<and> bi_channels (f inner) = bi_channels inner"
  by (simp add: keeps_ok_def)

lemma put_room_channels [simp]: "bi_channels (put_room key room inner) = bi_channels inner"
  by (simp add: put_room_def)

lemma unsubscribe_ok: "keeps_ok state (unsubscribe state now key sid)"
proof (rule keeps_okI)
  fix log sess inner
  assume i: "inner_ok state log sess inner"
  let ?i = "purge_expired_rooms state now inner"
  note p = purge_expired_rooms_ok [OF i, of now]
  show "inner_ok state log sess (unsubscribe state now key sid inner) \<and>
      bi_channels (unsubscribe state now key sid inner) = bi_channels inner"
  proof (cases "map_of (bi_rooms ?i) key")
    case None
    then show ?thesis using p by (simp add: unsubscribe_def Let_def)
  next
    case (Some room)
    define room' where "room' = touch now (room \<lparr> room_subscribers := filter (\<lambda>s. sub_id s \<noteq> sid) (room_subscribers room) \<rparr>)"
    note r = inner_ok_room [OF p(1) Some]
    have "room_ok state log sess (bi_channels ?i) key room'"
      unfolding room'_def room_ok_touch using r by (intro room_ok_fewer_subscribers [OF r refl]) (simp_all add: room_ok_def)
    then have "inner_ok state log sess (put_room key room' ?i)"
      using put_room_keep_ok [OF p(1) present_not_limited [OF Some]] Some by (simp add: room'_def bytes_at_def)
    then show ?thesis
      using remove_room_ok p(3) Some by (simp add: unsubscribe_def Let_def room'_def [symmetric])
  qed
qed

lemma wait_for_subscriber_round_ok: "keeps_ok state (\<lambda>inner. snd (wait_for_subscriber_round state now key inner))"
proof (rule keeps_okI)
  fix log sess inner
  assume i: "inner_ok state log sess inner"
  let ?i = "purge_expired_rooms state now inner"
  let ?r = "entry_or_default now key ?i"
  let ?r' = "if room_finished_at ?r \<noteq> None then BrokerRoom_default now else ?r"
  note p = purge_expired_rooms_ok [OF i, of now]
  note r = entry_or_default_ok [OF p(1), where now = now and key = key]
  have "room_ok state log sess (bi_channels ?i) key (BrokerRoom_default now)"
    by (simp add: BrokerRoom_default_def room_ok_def retained_ok_def subscribers_ok_def)
  then have "room_ok state log sess (bi_channels ?i) key ?r' \<and> room_backlog_bytes ?r' + 0 \<le> bytes_at key (bi_rooms ?i)"
    using r by (simp add: BrokerRoom_default_def)
  then have "\<not> room_limit_hit state key ?i \<Longrightarrow> inner_ok state log sess (put_room key ?r' ?i)"
    using put_room_keep_ok [OF p(1)] by blast
  then show "inner_ok state log sess (snd (wait_for_subscriber_round state now key inner)) \<and>
      bi_channels (snd (wait_for_subscriber_round state now key inner)) = bi_channels inner"
    using p(1,3) by (simp add: wait_for_subscriber_round_def Let_def)
qed

lemma mark_room_finished_ok: "keeps_ok state (\<lambda>inner. snd (mark_room_finished state now key inner))"
proof (rule keeps_okI)
  fix log sess inner
  assume i: "inner_ok state log sess inner"
  let ?i = "purge_expired_rooms state now inner"
  note p = purge_expired_rooms_ok [OF i, of now]
  show "inner_ok state log sess (snd (mark_room_finished state now key inner)) \<and>
      bi_channels (snd (mark_room_finished state now key inner)) = bi_channels inner"
  proof (cases "map_of (bi_rooms ?i) key")
    case None
    then show ?thesis using p by (simp add: mark_room_finished_def Let_def)
  next
    case (Some room)
    obtain freed r1 where f: "purge_expired_backlog now (bs_replay_ttl state) (room \<lparr> room_subscribers := [] \<rparr>) = (freed, r1)"
      by force
    have "retained_ok state (log key) (room \<lparr> room_subscribers := [] \<rparr>)"
      using inner_ok_room [OF p(1) Some] by (simp add: room_ok_def)
    note r = purge_expired_backlog_ok [OF this f]
    have ok: "room_ok state log sess (bi_channels ?i) key (r1 \<lparr> room_finished_at := a, room_last_activity_at := b \<rparr>)"
      "room_ok state log sess (bi_channels ?i) key r1" for a b
      using r by (simp_all add: room_ok_def subscribers_ok_def)
    have b: "room_backlog_bytes r1 + freed \<le> bytes_at key (bi_rooms ?i)" using r(2) Some by (simp add: bytes_at_def)
    note q = put_room_same_ok [OF p(1) present_not_limited [OF Some]]
    show ?thesis
      using q [OF ok(1) [of now "Some now"], of freed] q [OF ok(2) b] b remove_room_ok p(3) Some f
      by (simp add: mark_room_finished_def Let_def)
  qed
qed

lemma drop_ops_ok:
  "keeps_ok state (drop_room key)" "keeps_ok state (drop_empty_unfinished_room key)"
  "keeps_ok state (drop_expired_finished_room now key)" "keeps_ok state (drop_finished key)"
  using remove_room_ok
  by (auto intro!: keeps_okI simp: drop_room_def drop_empty_unfinished_room_def drop_expired_finished_room_def drop_finished_def
      split: option.splits)

section \<open>Subscribing and publishing\<close>

lemma purge_expired_rooms_next [simp]:
  "bi_next_subscriber_id (purge_expired_rooms state now inner) = bi_next_subscriber_id inner"
  by (simp add: purge_expired_rooms_def Let_def)

lemma subscribe_Inr:
  assumes "inner_ok state log sess inner" "length sess = length (bi_channels inner)"
    and "subscribe state now key inner = (Inr (sid, backlog, rx), inner')"
  shows "inner_ok state log (sess @ [(key, backlog)]) inner'" "bi_channels inner' = bi_channels inner @ [channel_new]"
    "rx = length (bi_channels inner)"
    "suffix backlog (map snd (log key))"
    "\<exists>bl. backlog = map br_record (dropWhile (expired now (bs_replay_ttl state)) bl) \<and>
       suffix (map log_entry bl) (log key) \<and> (bs_replay_ttl state = 0 \<longrightarrow> bl = [])"
proof -
  let ?i = "purge_expired_rooms state now inner"
  note p = purge_expired_rooms_ok [OF assms(1), of now]
  let ?r0 = "touch now (entry_or_default now key ?i)"
  obtain freed r1 where f: "purge_expired_backlog now (bs_replay_ttl state) ?r0 = (freed, r1)" by force
  let ?s = "\<lparr> sub_id = bi_next_subscriber_id inner, sub_tx = rx \<rparr>"
  define r2 where "r2 = (if room_finished_at r1 = None then r1 \<lparr> room_subscribers := room_subscribers r1 @ [?s] \<rparr> else r1)"
  have u: "\<not> room_limit_hit state key ?i" "backlog = map br_record (room_backlog r1)" "rx = length (bi_channels inner)"
      "inner' = (put_room key r2 ?i) \<lparr> bi_total_backlog_bytes := bi_total_backlog_bytes ?i - freed,
          bi_channels := bi_channels inner @ [channel_new], bi_next_subscriber_id := bi_next_subscriber_id inner + 1 \<rparr>"
    using assms(3) f p(3) unfolding r2_def
    by (auto simp: subscribe_def Let_def put_room_def split: if_split_asm)
  note r0 = entry_or_default_ok [OF p(1), where now = now and key = key]
  have ro: "room_ok state log sess (bi_channels ?i) key ?r0" using r0(1) by simp
  have "retained_ok state (log key) ?r0" using ro by (simp add: room_ok_def)
  note r1 = purge_expired_backlog_ok [OF this f]
  show "suffix backlog (map snd (log key))"
    using r1(1) map_mono_suffix [of _ _ snd] unfolding u(2) retained_ok_def by (fastforce simp: comp_def)
  then have su: "suffix (backlog @ []) (map snd (log key))" by simp
  have ch: "length sess = length (bi_channels ?i)" using assms(2) p(3) by simp
  have mono: "room_ok state log (sess @ [(key, backlog)]) (bi_channels inner @ [channel_new]) k r"
    if "room_ok state log sess (bi_channels ?i) k r" for k r
    using that by (rule room_ok_cong) (use that ch p(3) in \<open>auto simp: room_ok_def subscribers_ok_def list_all_iff nth_append\<close>)
  have "room_ok state log sess (bi_channels ?i) key r1" using room_ok_purge [OF ro f] ..
  note m = mono [OF this]
  have lt: "\<forall>s \<in> set (room_subscribers r1). sub_tx s < rx"
    using \<open>room_ok state log sess (bi_channels ?i) key r1\<close> p(3) u(3) by (auto simp: room_ok_def subscribers_ok_def list_all_iff)
  have "room_ok state log (sess @ [(key, backlog)]) (bi_channels inner @ [channel_new]) key r2"
    using m lt su u(3) assms(2)
    by (auto simp: r2_def room_ok_def subscribers_ok_def nth_append channel_new_def)
  moreover have "room_backlog_bytes r2 + freed = bytes_at key (bi_rooms ?i)" using r1(2) r0(2) by (simp add: r2_def)
  ultimately show "inner_ok state log (sess @ [(key, backlog)]) inner'"
    using p(1,2) bytes_at_le [OF p(1), of key] mono
    by (intro put_room_ok [OF p(1) u(1) _ _ _ _ u(4)]) (auto simp: exact_def inner_ok_def)
  show "bi_channels inner' = bi_channels inner @ [channel_new]" "rx = length (bi_channels inner)" by (simp_all add: u)
  have "suffix (map log_entry (room_backlog ?r0)) (log key) \<and> (bs_replay_ttl state = 0 \<longrightarrow> room_backlog ?r0 = [])"
    using ro unfolding room_ok_def retained_ok_def by blast
  then show "\<exists>bl. backlog = map br_record (dropWhile (expired now (bs_replay_ttl state)) bl) \<and>
       suffix (map log_entry bl) (log key) \<and> (bs_replay_ttl state = 0 \<longrightarrow> bl = [])"
    unfolding u(2) r1(5) by (intro exI [of _ "room_backlog ?r0"]) simp
qed

lemma subscribe_Inl:
  assumes "inner_ok state log sess inner" "subscribe state now key inner = (Inl e, inner')"
  shows "inner_ok state log sess inner' \<and> bi_channels inner' = bi_channels inner"
  using purge_expired_rooms_ok [OF assms(1)] assms(2)
  by (auto simp: subscribe_def Let_def split: if_split_asm prod.splits)

definition sent_step :: "AgentTextStreamRecordV1 \<Rightarrow> nat set \<Rightarrow> Channel list \<Rightarrow> Channel list \<Rightarrow> bool" where
  "sent_step rec txs chans chans' \<longleftrightarrow> length chans' = length chans \<and>
     (\<forall>i < length chans. chans' ! i = (if i \<in> txs then sent_one rec (chans ! i) else chans ! i))"

lemma publish_room_ok:
  assumes "inner_ok state log sess inner" "exact inner" "\<not> room_limit_hit state key inner"
    and "list_all (channel_ok state) (bi_channels inner)"
    and "record_bytes_to_retain state rec = Inr n" "\<And>room. map_of (bi_rooms inner) key = Some room \<Longrightarrow> room_finished_at room = None"
    and "publish_room state now key rec n inner = (delivered, inner')"
  shows "\<exists>subs. inner_ok state (log(key := log key @ [(now, rec)])) sess inner' \<and> delivered = length subs \<and>
    sent_step rec (sub_tx ` set subs) (bi_channels inner) (bi_channels inner') \<and>
    subs = filter (accepts (bs_accepts state (bs_per_subscriber_queue state)) rec (bi_channels inner))
      (room_subscribers (entry_or_default now key inner))"
proof -
  let ?log = "log(key := log key @ [(now, rec)])"
  let ?tot = "bi_total_backlog_bytes inner"
  define r0 where "r0 = (entry_or_default now key inner) \<lparr> room_last_activity_at := now \<rparr>"
  define rt where "rt = (case n of None \<Rightarrow> (r0, ?tot) | Some m \<Rightarrow> retain_record state now rec m (r0, ?tot))"
  obtain r1 tot where rt: "rt = (r1, tot)" by force
  obtain subs chans d where dl: "deliver (bs_accepts state (bs_per_subscriber_queue state)) rec (room_subscribers r1) (bi_channels inner) = (subs, chans, d)"
    by (metis prod_cases3)
  define r2 where "r2 = r1 \<lparr> room_subscribers := subs \<rparr>"
  define i2 where "i2 = (put_room key r2 inner) \<lparr> bi_total_backlog_bytes := tot, bi_channels := chans \<rparr>"
  have res: "delivered = d" "inner' = (if room_is_idle r2 then remove_room key i2 else i2)"
    using assms(7) rt dl by (auto simp: publish_room_def Let_def r0_def [symmetric] rt_def [symmetric] r2_def i2_def)
  note e = entry_or_default_ok [OF assms(1), where now = now and key = key]
  have r0: "retained_ok state (log key) r0" "subscribers_ok sess (bi_channels inner) key (log key) r0"
      "room_backlog_bytes r0 = bytes_at key (bi_rooms inner)" "room_finished_at r0 = None"
    using e assms(6) by (auto simp: r0_def room_ok_def entry_or_default_def BrokerRoom_default_def split: option.splits)
  define rest where "rest = rooms_bytes (bi_rooms inner) - bytes_at key (bi_rooms inner)"
  have rest: "rest + room_backlog_bytes r0 = ?tot" "rest \<le> bs_max_backlog_bytes state"
    using bytes_at_le [OF assms(1), of key] assms(1,2) r0(3) by (auto simp: rest_def exact_def inner_ok_def)
  have r1: "retained_ok state (?log key) r1 \<and> tot = rest + room_backlog_bytes r1 \<and> tot \<le> bs_max_backlog_bytes state
      \<and> room_subscribers r1 = room_subscribers r0 \<and> room_finished_at r1 = None"
  proof (cases n)
    case None
    then have "bs_replay_ttl state = 0" using assms(5) by (auto simp: record_bytes_to_retain_def r_simps split: if_split_asm)
    then show ?thesis
      using None rt r0 rest assms(1) by (auto simp: rt_def retained_ok_def inner_ok_def)
  next
    case (Some m)
    then obtain bs where b: "record_encode rec = Inr bs" "m = length bs" "bs_replay_ttl state \<noteq> 0"
      using assms(5) by (auto simp: record_bytes_to_retain_def r_simps split: if_split_asm)
    have "retain_record state now rec m (r0, ?tot) = (r1, tot)" using Some rt by (simp add: rt_def)
    from retain_record_ok [OF r0(1) rest(1) b(1,2) rest(2) b(3) this] show ?thesis using r0(4) by auto
  qed
  have dist: "distinct (map sub_tx (room_subscribers r1))" "list_all (\<lambda>s. sub_tx s < length (bi_channels inner)) (room_subscribers r1)"
    using r0(2) r1 by (auto simp: subscribers_ok_def list_all_iff)
  note de = deliver_eq [OF dist dl]
  have st: "sent_step rec (sub_tx ` set subs) (bi_channels inner) chans" using de by (simp add: sent_step_def)
  have s2: "subscribers_ok sess chans key (?log key) r2"
    using r0(2) r1 de by (auto simp: subscribers_ok_def r2_def list_all_iff distinct_map_filter sent_one_def)
  have other: "room_ok state ?log sess chans k r" if "k \<noteq> key" "room_ok state log sess (bi_channels inner) k r" for k r
  proof -
    have "sub_tx s \<notin> sub_tx ` set subs" "sub_tx s < length (bi_channels inner)" if s: "s \<in> set (room_subscribers r)" for s
    proof -
      have "fst (sess ! sub_tx s) = k" using \<open>room_ok state log sess (bi_channels inner) k r\<close> s
        by (auto simp: room_ok_def subscribers_ok_def list_all_iff)
      moreover have "\<forall>x \<in> set subs. fst (sess ! sub_tx x) = key"
        using r0(2) r1 de by (auto simp: subscribers_ok_def list_all_iff)
      ultimately show "sub_tx s \<notin> sub_tx ` set subs" using \<open>k \<noteq> key\<close> by force
      show "sub_tx s < length (bi_channels inner)"
        using \<open>room_ok state log sess (bi_channels inner) k r\<close> s by (auto simp: room_ok_def subscribers_ok_def list_all_iff)
    qed
    then show ?thesis using that de by (intro room_ok_cong [OF that(2)]) auto
  qed
  have "inner_ok state ?log sess i2"
  proof (rule put_room_ok [OF assms(1,3)])
    show "room_ok state ?log sess chans key r2" using r1 s2 by (simp add: room_ok_def r2_def)
    show "rooms_bytes (bi_rooms inner) + room_backlog_bytes r2 \<le> tot + bytes_at key (bi_rooms inner)"
      using r1 bytes_at_le [OF assms(1), of key] by (simp add: r2_def rest_def)
    show "i2 = (put_room key r2 inner) \<lparr> bi_total_backlog_bytes := tot, bi_channels := chans,
        bi_next_subscriber_id := bi_next_subscriber_id inner \<rparr>" by (simp add: i2_def put_room_def)
  qed (use other r1 in auto)
  then have "inner_ok state ?log sess inner'" "bi_channels inner' = chans"
    using remove_room_ok res(2) by (auto simp: i2_def)
  moreover have "room_subscribers r1 = room_subscribers (entry_or_default now key inner)" using r1 by (simp add: r0_def)
  ultimately show ?thesis using st de res(1) by metis
qed

lemma publish_Inr:
  assumes "inner_ok state log sess inner" "list_all (channel_ok state) (bi_channels inner)"
    and "publish state now key rec inner = (Inr delivered, inner')"
  shows "inner_ok state (log(key := log key @ [(now, rec)])) sess inner' \<and>
    (\<exists>subs. sent_step rec (sub_tx ` set subs) (bi_channels inner) (bi_channels inner') \<and>
      list_all (\<lambda>s. accepts (bs_accepts state (bs_per_subscriber_queue state)) rec (bi_channels inner) s \<and>
        sub_tx s < length sess \<and> fst (sess ! sub_tx s) = key \<and>
        suffix (snd (sess ! sub_tx s) @ ch_sent (bi_channels inner ! sub_tx s)) (map snd (log key))) subs)"
proof -
  let ?i = "drop_finished key (purge_expired_rooms state now inner)"
  note p = purge_expired_rooms_ok [OF assms(1), of now]
  have i: "inner_ok state log sess ?i" "bi_channels ?i = bi_channels inner"
    using keeps_okD [OF drop_ops_ok(4) p(1)] p(3) by simp_all
  have ex: "exact ?i" using p(1,2) remove_room_ok(3) by (simp add: drop_finished_def split: option.split)
  have nf: "room_finished_at room = None" if "map_of (bi_rooms ?i) key = Some room" for room
    using that by (auto simp: drop_finished_def remove_room_def delete_conv split: option.splits if_split_asm)
  obtain n where n: "record_bytes_to_retain state rec = Inr n" "\<not> room_limit_hit state key ?i"
      "publish_room state now key rec n ?i = (delivered, inner')"
    using assms(3) by (auto simp: publish_def Let_def split: sum.splits if_split_asm prod.splits)
  have c: "list_all (channel_ok state) (bi_channels ?i)" using assms(2) i(2) by simp
  obtain subs where s: "inner_ok state (log(key := log key @ [(now, rec)])) sess inner'"
      "sent_step rec (sub_tx ` set subs) (bi_channels inner) (bi_channels inner')"
      "subs = filter (accepts (bs_accepts state (bs_per_subscriber_queue state)) rec (bi_channels inner))
        (room_subscribers (entry_or_default now key ?i))"
    using publish_room_ok [OF i(1) ex n(2) c n(1) nf n(3)] i(2) by auto
  have "room_ok state log sess (bi_channels inner) key (entry_or_default now key ?i)"
    using entry_or_default_ok(1) [OF i(1)] i(2) by simp
  then have "list_all (\<lambda>s. accepts (bs_accepts state (bs_per_subscriber_queue state)) rec (bi_channels inner) s \<and>
      sub_tx s < length sess \<and> fst (sess ! sub_tx s) = key \<and>
      suffix (snd (sess ! sub_tx s) @ ch_sent (bi_channels inner ! sub_tx s)) (map snd (log key))) subs"
    unfolding s(3) room_ok_def subscribers_ok_def list_all_iff by auto
  then show ?thesis using s(1,2) by blast
qed

lemma publish_Inl:
  assumes "inner_ok state log sess inner" "publish state now key rec inner = (Inl e, inner')"
  shows "inner_ok state log sess inner' \<and> bi_channels inner' = bi_channels inner"
proof -
  have "inner_ok state log sess (drop_finished key (purge_expired_rooms state now inner)) \<and>
      bi_channels (drop_finished key (purge_expired_rooms state now inner)) = bi_channels inner"
    using purge_expired_rooms_ok [OF assms(1), of now] keeps_okD [OF drop_ops_ok(4)] by metis
  then show ?thesis
    using assms by (auto simp: publish_def Let_def split: sum.splits if_split_asm prod.splits)
qed

section \<open>Every history\<close>

lemma hist_ok_inner:
  "hist_ok state h \<Longrightarrow> keeps_ok state f \<Longrightarrow> hist_ok state (h \<lparr> bh_inner := f (bh_inner h) \<rparr>)"
  using keeps_okD unfolding hist_ok_def by fastforce

lemma hist_ok_channel:
  assumes "hist_ok state h" "\<And>c. ch_sent (f c) = ch_sent c"
    and "\<And>c. channel_ok state c \<Longrightarrow> channel_ok state (f c)"
  shows "hist_ok state (h \<lparr> bh_inner := on_channel i f (bh_inner h) \<rparr>)"
proof (cases "i < length (bi_channels (bh_inner h))")
  case True
  let ?cs = "bi_channels (bh_inner h)"
  have s: "ch_sent (?cs[i := f (?cs ! i)] ! j) = ch_sent (?cs ! j)" for j
    using True assms(2) by (cases "i = j") simp_all
  have "room_ok state log sess (?cs[i := f (?cs ! i)]) k r" if "room_ok state log sess ?cs k r" for log sess k r
    using that s by (auto intro!: room_ok_cong [OF that])
  moreover have "list_all (channel_ok state) (?cs[i := f (?cs ! i)])"
    using assms(1,3) True set_update_subset_insert [of ?cs i "f (?cs ! i)"]
    unfolding hist_ok_def list_all_iff by (metis insertE nth_mem subsetD)
  ultimately show ?thesis using assms(1) s by (auto simp: hist_ok_def on_channel_def inner_ok_def)
next
  case False
  then have "on_channel i f (bh_inner h) = bh_inner h" by (simp add: on_channel_def list_update_beyond)
  then show ?thesis using assms(1) by simp
qed

lemma hist_ok_subscribe:
  assumes "hist_ok state h"
  shows "hist_ok state (broker_op state now (OpSubscribe key) h)"
proof -
  obtain res inner' where s: "subscribe state now key (bh_inner h) = (res, inner')" by force
  have i: "inner_ok state (bh_log h) (bh_sessions h) (bh_inner h)"
      "length (bh_sessions h) = length (bi_channels (bh_inner h))"
    using assms by (auto simp: hist_ok_def)
  show ?thesis
  proof (cases res)
    case (Inl e)
    then show ?thesis using subscribe_Inl [OF i(1) s [unfolded Inl]] assms s by (simp add: hist_ok_def)
  next
    case (Inr r)
    obtain sid backlog rx where r: "r = (sid, backlog, rx)" using prod_cases3 by blast
    note o = subscribe_Inr [OF i s [unfolded Inr r]]
    have "sublist (backlog @ ch_sent channel_new) (map snd (bh_log h key))" using o(4) by (simp add: channel_new_def)
    moreover have "channel_ok n channel_new" for n by (simp add: channel_ok_def channel_new_def)
    ultimately show ?thesis
      using assms o(1,2) s Inr r by (auto simp: hist_ok_def nth_append less_Suc_eq)
  qed
qed

lemma hist_ok_publish:
  assumes "hist_ok state h" "bh_now h = now"
  shows "hist_ok state (broker_op state now (OpPublish key rec) h)"
proof -
  obtain res inner' where s: "publish state now key rec (bh_inner h) = (res, inner')" by force
  let ?cs = "bi_channels (bh_inner h)" and ?cap = "bs_accepts state (bs_per_subscriber_queue state)"
  have i: "inner_ok state (bh_log h) (bh_sessions h) (bh_inner h)" "list_all (channel_ok state) ?cs"
    using assms by (auto simp: hist_ok_def)
  show ?thesis
  proof (cases res)
    case (Inl e)
    then show ?thesis using publish_Inl [OF i(1) s [unfolded Inl]] assms s by (simp add: hist_ok_def)
  next
    case (Inr d)
    let ?log = "(bh_log h)(key := bh_log h key @ [(now, rec)])"
    let ?cs' = "bi_channels inner'"
    obtain subs where p: "inner_ok state ?log (bh_sessions h) inner'"
        "sent_step rec (sub_tx ` set subs) ?cs ?cs'"
        "\<And>x. x \<in> set subs \<Longrightarrow> accepts ?cap rec ?cs x \<and> sub_tx x < length (bh_sessions h) \<and>
          fst (bh_sessions h ! sub_tx x) = key \<and>
          suffix (snd (bh_sessions h ! sub_tx x) @ ch_sent (?cs ! sub_tx x)) (map snd (bh_log h key))"
      using publish_Inr [OF i s [unfolded Inr]] by (auto simp: list_all_iff)
    have ch: "channel_ok state (?cs' ! j)" if "j < length ?cs" for j
    proof (cases "j \<in> sub_tx ` set subs")
      case True
      then obtain x where "x \<in> set subs" "j = sub_tx x" by blast
      then have "queue_bounded (bs_accepts state) \<Longrightarrow>
          length (ch_sent (?cs ! j)) - ch_received (?cs ! j) < bs_per_subscriber_queue state"
        using p(3) [of x] by (auto simp: try_send_def queue_bounded_def split: if_split_asm)
      then show ?thesis
        using p(2) that True i(2) by (auto simp: sent_step_def sent_one_def channel_ok_def list_all_length)
    qed (use p(2) that i(2) in \<open>auto simp: sent_step_def list_all_length\<close>)
    have seg: "sublist (snd (bh_sessions h ! j) @ ch_sent (?cs' ! j)) (map snd (?log (fst (bh_sessions h ! j))))"
      if j: "j < length (bh_sessions h)" for j
    proof (cases "j \<in> sub_tx ` set subs")
      case True
      then obtain x where x: "x \<in> set subs" "j = sub_tx x" by blast
      have "suffix (snd (bh_sessions h ! j) @ ch_sent (?cs' ! j)) (map snd (?log key))"
        using p(2) p(3) [OF x(1)] x j True assms(1) by (auto simp: sent_step_def sent_one_def hist_ok_def)
      then show ?thesis using p(3) [OF x(1)] x(2) by simp
    next
      case False
      then have "?cs' ! j = ?cs ! j" using p(2) j assms(1) by (auto simp: sent_step_def hist_ok_def)
      moreover have "sublist (snd (bh_sessions h ! j) @ ch_sent (?cs ! j)) (map snd (bh_log h (fst (bh_sessions h ! j))))"
        using assms(1) j by (simp add: hist_ok_def)
      ultimately show ?thesis by (auto simp: sublist_append)
    qed
    have "sorted (map fst (?log k)) \<and> list_all (\<lambda>e. fst e \<le> now) (?log k)" for k
      using assms by (auto simp: hist_ok_def sorted_append list_all_iff)
    then show ?thesis
      using assms p(1,2) ch seg s Inr by (auto simp: hist_ok_def sent_step_def list_all_length)
  qed
qed

lemma broker_history_ok: "broker_history state h \<Longrightarrow> hist_ok state h"
proof (induction rule: broker_history.induct)
  case start
  show ?case
    by (simp add: hist_ok_def inner_ok_def BrokerStateInner_default_def rooms_bytes_def)
next
  case (step h now oper)
  then have "hist_ok state (h \<lparr> bh_now := now \<rparr>)" (is "hist_ok state ?h")
    unfolding hist_ok_def list_all_iff by simp (meson order.trans)
  note k = hist_ok_inner [OF this] and c = hist_ok_channel [OF this]
  show ?case
  proof (cases oper)
    case (OpReceive i)
    have "channel_ok state x \<Longrightarrow> channel_ok state (chan_receive x)" "ch_sent (chan_receive x) = ch_sent x" for x
      by (auto simp: chan_receive_def channel_ok_def)
    then show ?thesis using c [of chan_receive i] OpReceive by simp
  next
    case (OpHangUp i)
    then show ?thesis using c [of "\<lambda>c. c \<lparr> ch_open := False \<rparr>" i] by (simp add: channel_ok_def)
  next
    case (OpWaitRound key)
    then show ?thesis using k [OF wait_for_subscriber_round_ok, of now key] by simp
  next
    case (OpFinish key)
    then show ?thesis using k [OF mark_room_finished_ok, of now key] by simp
  qed (use k unsubscribe_ok drop_ops_ok hist_ok_subscribe [OF \<open>hist_ok state ?h\<close>]
      hist_ok_publish [OF \<open>hist_ok state ?h\<close>] in \<open>auto simp del: broker_op.simps(1,3)\<close>)
qed

section \<open>Properties\<close>

text \<open>
  C18: The broker's memory stays within its configuration.  Along every history of operations of any number
  of connections there are at most the configured number of rooms, one per stream key; every backlog holds
  at most the configured number of records; the encoded lengths of all retained records together stay within
  the byte budget; and no live queue holds more than its capacity.
\<close>
theorem broker_memory_bounded:
  assumes "broker_history state h" "queue_bounded (bs_accepts state)"
  shows "distinct (map fst (bi_rooms (bh_inner h))) \<and> length (bi_rooms (bh_inner h)) \<le> bs_max_rooms state \<and>
    list_all (\<lambda>(key, room). length (room_backlog room) \<le> bs_max_backlog state) (bi_rooms (bh_inner h)) \<and>
    sum_list (map (\<lambda>(key, room). sum_list (map (\<lambda>b. length (record_bytes (br_record b))) (room_backlog room)))
      (bi_rooms (bh_inner h))) \<le> bs_max_backlog_bytes state \<and>
    list_all (\<lambda>c. length (ch_sent c) - ch_received c \<le> bs_per_subscriber_queue state) (bi_channels (bh_inner h))"
proof -
  have ok: "hist_ok state h" by (rule broker_history_ok [OF assms(1)])
  then have i: "inner_ok state (bh_log h) (bh_sessions h) (bh_inner h)" by (simp add: hist_ok_def)
  then have r: "retained_ok state (bh_log h key) room" if "(key, room) \<in> set (bi_rooms (bh_inner h))" for key room
    using that by (auto simp: inner_ok_def room_ok_def)
  have "sum_list (map (\<lambda>b. length (record_bytes (br_record b))) (room_backlog room)) = room_backlog_bytes room"
    if "(key, room) \<in> set (bi_rooms (bh_inner h))" for key room
  proof -
    have "map (\<lambda>b. length (record_bytes (br_record b))) (room_backlog room) = map br_bytes (room_backlog room)"
      using r [OF that] by (simp add: retained_ok_def list_all_iff)
    then have "sum_list (map (\<lambda>b. length (record_bytes (br_record b))) (room_backlog room)) = backlog_sum (room_backlog room)"
      by (rule arg_cong)
    then show ?thesis using r [OF that] by (simp add: retained_ok_def)
  qed
  then have "map (\<lambda>(key, room). sum_list (map (\<lambda>b. length (record_bytes (br_record b))) (room_backlog room)))
      (bi_rooms (bh_inner h)) = map (\<lambda>(key, room). room_backlog_bytes room) (bi_rooms (bh_inner h))"
    by (intro map_cong) auto
  then have "sum_list (map (\<lambda>(key, room). sum_list (map (\<lambda>b. length (record_bytes (br_record b))) (room_backlog room)))
      (bi_rooms (bh_inner h))) = rooms_bytes (bi_rooms (bh_inner h))"
    unfolding rooms_bytes_def by (rule arg_cong)
  then show ?thesis
    using i ok r assms(2) by (auto simp: inner_ok_def hist_ok_def list_all_iff channel_ok_def retained_ok_def)
qed

text \<open>
  C17: A subscription has no gaps.  For every subscription, what the broker has handed to it, the backlog
  first and then what was sent to its queue, is a contiguous part of the records published to its stream, in
  order.  As long as the subscription is in its room that part ends with the latest record: a subscriber that
  is too slow is removed, it never skips a record and continues.
\<close>
theorem broker_subscription_contiguous:
  assumes "broker_history state h" "i < length (bh_sessions h)" "bh_sessions h ! i = (key, backlog)"
  shows "\<exists>before after. map snd (bh_log h key) =
      before @ backlog @ ch_sent (bi_channels (bh_inner h) ! i) @ after \<and>
    (list_ex (\<lambda>(k, room). list_ex (\<lambda>s. sub_tx s = i) (room_subscribers room)) (bi_rooms (bh_inner h)) \<longrightarrow> after = [])"
proof -
  have ok: "hist_ok state h" by (rule broker_history_ok [OF assms(1)])
  let ?sent = "ch_sent (bi_channels (bh_inner h) ! i)"
  show ?thesis
  proof (cases "list_ex (\<lambda>(k, room). list_ex (\<lambda>s. sub_tx s = i) (room_subscribers room)) (bi_rooms (bh_inner h))")
    case True
    then obtain k room s where "(k, room) \<in> set (bi_rooms (bh_inner h))" "s \<in> set (room_subscribers room)" "sub_tx s = i"
      by (auto simp: list_ex_iff)
    then have "fst (bh_sessions h ! i) = k \<and> suffix (snd (bh_sessions h ! i) @ ?sent) (map snd (bh_log h k))"
      using ok by (auto simp: hist_ok_def inner_ok_def room_ok_def subscribers_ok_def list_all_iff)
    then have "suffix (backlog @ ?sent) (map snd (bh_log h key))" using assms(3) by auto
    then show ?thesis unfolding suffix_def by (metis append.right_neutral)
  next
    case False
    have "sublist (backlog @ ?sent) (map snd (bh_log h key))" using ok assms(2,3) by (fastforce simp: hist_ok_def)
    then show ?thesis using False unfolding sublist_def by auto
  qed
qed

text \<open>
  C36: The replay window is honoured.  The backlog served to a new subscription consists of the latest
  records published to its stream, each published less than the replay time-to-live before, so nothing
  is served when the time-to-live is zero.
\<close>
theorem broker_replay_window:
  assumes "broker_history state h" "bh_now h \<le> now"
    and "subscribe state now key (bh_inner h) = (Inr (sid, backlog, rx), inner')"
  shows "\<exists>served. map snd served = backlog \<and> suffix served (bh_log h key) \<and>
    list_all (\<lambda>e. fst e \<le> now \<and> now - fst e < bs_replay_ttl state) served"
proof -
  have ok: "hist_ok state h" by (rule broker_history_ok [OF assms(1)])
  then have i: "inner_ok state (bh_log h) (bh_sessions h) (bh_inner h)"
      "length (bh_sessions h) = length (bi_channels (bh_inner h))"
    by (auto simp: hist_ok_def)
  let ?young = "dropWhile (expired now (bs_replay_ttl state))"
  obtain bl where b: "backlog = map br_record (?young bl)" "suffix (map log_entry bl) (bh_log h key)"
    by (rule exE [OF subscribe_Inr(5) [OF i assms(3)]]) (elim conjE, rule that)
  obtain pre where pre: "bh_log h key = pre @ map log_entry bl" using b(2) unfolding suffix_def by blast
  have srt: "sorted (map fst (bh_log h key))" "list_all (\<lambda>e. fst e \<le> bh_now h) (bh_log h key)"
    using ok unfolding hist_ok_def by blast+
  have "map fst (bh_log h key) = map fst pre @ map br_appended_at bl" by (simp add: pre)
  then have s: "sorted (map br_appended_at bl)" using srt(1) by (simp only: sorted_append)
  have "fst e \<le> now \<and> now - fst e < bs_replay_ttl state" if e: "e \<in> set (map log_entry (?young bl))" for e
  proof -
    obtain x where x: "e = log_entry x" "x \<in> set (?young bl)" using e unfolding set_map by blast
    have "log_entry x \<in> set (bh_log h key)" using set_dropWhileD [OF x(2)] by (simp add: pre)
    then have "fst (log_entry x) \<le> bh_now h" using srt(2) unfolding list_all_iff by blast
    then show ?thesis using assms(2) dropWhile_expired_young [OF s x(2)] by (simp add: x(1))
  qed
  then have "list_all (\<lambda>e. fst e \<le> now \<and> now - fst e < bs_replay_ttl state) (map log_entry (?young bl))"
    unfolding list_all_iff by blast
  moreover have "suffix (map log_entry (?young bl)) (bh_log h key)" by (rule suffix_dropWhile_map [OF b(2)])
  moreover have "map snd (map log_entry (?young bl)) = backlog" by (simp add: b(1))
  ultimately show ?thesis by (intro exI [of _ "map log_entry (?young bl)"] conjI)
qed

section \<open>A history with a late subscriber\<close>

definition demo_state :: BrokerState where
  "demo_state = \<lparr> bs_per_subscriber_queue = 2, bs_max_backlog = 4, bs_max_rooms = 3,
     bs_max_backlog_bytes = 1000, bs_replay_ttl = 10,
     bs_accepts = (\<lambda>capacity c. ch_open c \<and> length (ch_sent c) - ch_received c < capacity) \<rparr>"

definition demo_key :: BrokerStreamKey where
  "demo_key = \<lparr> bk_stream_id = [1], bk_start_event_id = [2] \<rparr>"

definition demo_start :: BrokerHistory where
  "demo_start = \<lparr> bh_inner = BrokerStateInner_default, bh_now = 0, bh_log = (\<lambda>_. []), bh_sessions = [] \<rparr>"

fun run_ops :: "BrokerState \<Rightarrow> (nanos \<times> BrokerOp) list \<Rightarrow> BrokerHistory \<Rightarrow> BrokerHistory" where
  "run_ops state [] h = h"
| "run_ops state ((now, oper) # ops) h = run_ops state ops (broker_op state now oper (h \<lparr> bh_now := now \<rparr>))"

lemma broker_op_now [simp]: "bh_now (broker_op state now oper h) = bh_now h"
  by (cases oper) (simp_all split: prod.splits)

lemma run_ops_history:
  "broker_history state h \<Longrightarrow> sorted (map fst ops) \<Longrightarrow> list_all (\<lambda>p. bh_now h \<le> fst p) ops \<Longrightarrow>
   broker_history state (run_ops state ops h)"
proof (induction ops arbitrary: h)
  case (Cons a ops)
  obtain now oper where a: "a = (now, oper)" by force
  have "broker_history state (broker_op state now oper (h \<lparr> bh_now := now \<rparr>))"
    using Cons.prems a by (intro broker_history.step) simp_all
  then show ?case using Cons.IH [of "broker_op state now oper (h \<lparr> bh_now := now \<rparr>)"] Cons.prems a
    by (auto simp: list_all_iff)
qed simp

definition demo_record :: AgentTextStreamRecordV1 where
  "demo_record = text_delta [1] 1 [65]"

definition demo_ops :: "(nanos \<times> BrokerOp) list" where
  "demo_ops = [(1, OpSubscribe demo_key), (2, OpPublish demo_key demo_record), (5, OpSubscribe demo_key)]"

definition demo_history :: BrokerHistory where
  "demo_history = run_ops demo_state demo_ops demo_start"

lemma demo_history_reached: "broker_history demo_state demo_history"
  unfolding demo_history_def
  by (rule run_ops_history) (auto simp: demo_ops_def demo_start_def intro: broker_history.start)

lemma demo_encode: "record_encode demo_record = Inr (record_bytes demo_record)" "length (record_bytes demo_record) = 15"
  by (simp_all add: record_encode_Inr record_validate_def record_bytes_def demo_record_def text_delta_def record_new_def
      AGENT_TEXT_STREAM_MAX_STREAM_ID_LEN_def is_known_record_type_def AGENT_TEXT_STREAM_RECORD_TEXT_DELTA_def
      push_len_prefixed_def encode_quic_varint_def AGENT_TEXT_STREAM_MAX_RECORD_CIPHERTEXT_LEN_def)

definition demo_inner1 :: BrokerStateInner where
  "demo_inner1 = \<lparr> bi_rooms = [(demo_key, \<lparr> room_subscribers = [\<lparr> sub_id = 0, sub_tx = 0 \<rparr>], room_backlog = [],
     room_backlog_bytes = 0, room_finished_at = None, room_last_activity_at = 1 \<rparr>)],
     bi_next_subscriber_id = 1, bi_total_backlog_bytes = 0, bi_channels = [channel_new] \<rparr>"

definition demo_inner2 :: BrokerStateInner where
  "demo_inner2 = \<lparr> bi_rooms = [(demo_key, \<lparr> room_subscribers = [\<lparr> sub_id = 0, sub_tx = 0 \<rparr>],
     room_backlog = [\<lparr> br_record = demo_record, br_bytes = 15, br_appended_at = 2 \<rparr>],
     room_backlog_bytes = 15, room_finished_at = None, room_last_activity_at = 2 \<rparr>)],
     bi_next_subscriber_id = 1, bi_total_backlog_bytes = 15, bi_channels = [sent_one demo_record channel_new] \<rparr>"

lemma demo_subscribe1: "subscribe demo_state 1 demo_key BrokerStateInner_default = (Inr (0, [], 0), demo_inner1)"
proof -
  have a: "purge_expired_rooms demo_state 1 BrokerStateInner_default = BrokerStateInner_default"
    by (simp add: purge_expired_rooms_def BrokerStateInner_default_def)
  have b: "\<not> room_limit_hit demo_state demo_key BrokerStateInner_default"
    by (simp add: room_limit_hit_def BrokerStateInner_default_def demo_state_def)
  have c: "purge_expired_backlog now ttl (touch now (entry_or_default now k BrokerStateInner_default)) = (0, BrokerRoom_default now)" for now ttl k
    by (simp add: purge_expired_backlog_def touch_def entry_or_default_def BrokerStateInner_default_def BrokerRoom_default_def)
  show ?thesis
    by (simp add: subscribe_def a b c Let_def del: One_nat_def)
      (simp add: BrokerRoom_default_def put_room_def BrokerStateInner_default_def demo_inner1_def)
qed

lemma demo_publish: "publish demo_state 2 demo_key demo_record demo_inner1 = (Inr 1, demo_inner2)"
proof -
  have "record_bytes_to_retain demo_state demo_record = Inr (Some 15)"
    by (simp add: record_bytes_to_retain_def demo_encode demo_state_def)
  moreover have "purge_expired_rooms demo_state 2 demo_inner1 = demo_inner1"
    by (simp add: purge_expired_rooms_def demo_inner1_def room_retained_def purge_expired_backlog_def)
  moreover have "drop_finished demo_key demo_inner1 = demo_inner1" by (simp add: drop_finished_def demo_inner1_def)
  moreover have "\<not> room_limit_hit demo_state demo_key demo_inner1" by (simp add: room_limit_hit_def demo_inner1_def)
  moreover have "publish_room demo_state 2 demo_key demo_record (Some 15) demo_inner1 = (1, demo_inner2)"
    by (simp add: publish_room_def entry_or_default_def demo_inner1_def retain_record_def purge_expired_backlog_def
        demo_state_def try_send_def channel_new_def Let_def room_is_idle_def put_room_def demo_inner2_def sent_one_def)
  ultimately show ?thesis by (simp add: publish_def Let_def)
qed

lemma demo_subscribe2: "\<exists>inner. subscribe demo_state 5 demo_key demo_inner2 = (Inr (1, [demo_record], 1), inner)"
proof -
  have "purge_expired_rooms demo_state 5 demo_inner2 = demo_inner2"
    by (simp add: purge_expired_rooms_def demo_inner2_def room_retained_def purge_expired_backlog_def demo_state_def)
  moreover have "\<not> room_limit_hit demo_state demo_key demo_inner2" by (simp add: room_limit_hit_def demo_inner2_def)
  moreover obtain freed room where p: "purge_expired_backlog 5 (bs_replay_ttl demo_state)
      (touch 5 (entry_or_default 5 demo_key demo_inner2)) = (freed, room)" by force
  moreover have "room_backlog room = [\<lparr> br_record = demo_record, br_bytes = 15, br_appended_at = 2 \<rparr>]"
    using p by (auto simp: purge_expired_backlog_def touch_def entry_or_default_def demo_inner2_def demo_state_def)
  ultimately show ?thesis by (simp add: subscribe_def Let_def demo_inner2_def)
qed

lemma demo_sessions: "bh_sessions demo_history = [(demo_key, []), (demo_key, [demo_record])]"
    "bh_log demo_history demo_key = [(2, demo_record)]"
  using demo_subscribe1 demo_publish demo_subscribe2
  by (auto simp: demo_history_def demo_ops_def demo_start_def)

theorem broker_memory_bounded_witness:
  "broker_history demo_state demo_history \<and> length (bi_rooms (bh_inner demo_history)) \<le> 3 \<and>
   list_all (\<lambda>c. length (ch_sent c) - ch_received c \<le> 2) (bi_channels (bh_inner demo_history))"
proof -
  have "queue_bounded (bs_accepts demo_state)" by (simp add: queue_bounded_def demo_state_def)
  then show ?thesis
    using broker_memory_bounded [OF demo_history_reached] demo_history_reached by (simp add: demo_state_def)
qed

theorem broker_subscription_contiguous_witness:
  "bh_sessions demo_history ! 1 = (demo_key, [demo_record]) \<and>
   (\<exists>before after. [demo_record] = before @ [demo_record] @ ch_sent (bi_channels (bh_inner demo_history) ! 1) @ after)"
  using broker_subscription_contiguous [OF demo_history_reached, of 1 demo_key "[demo_record]"]
  by (auto simp: demo_sessions)

theorem broker_replay_window_witness:
  "\<exists>served inner. subscribe demo_state 5 demo_key demo_inner2 = (Inr (1, [demo_record], 1), inner) \<and>
     map snd served = [demo_record] \<and> list_all (\<lambda>e. fst e \<le> 5 \<and> 5 - fst e < (10 :: nanos)) served"
proof -
  define h where "h = run_ops demo_state [(1, OpSubscribe demo_key), (2, OpPublish demo_key demo_record)] demo_start"
  have "broker_history demo_state h"
    unfolding h_def by (rule run_ops_history) (auto simp: demo_start_def intro: broker_history.start)
  moreover have "bh_inner h = demo_inner2" "bh_now h \<le> 5"
    using demo_subscribe1 demo_publish by (simp_all add: h_def demo_start_def)
  moreover obtain inner where s: "subscribe demo_state 5 demo_key demo_inner2 = (Inr (1, [demo_record], 1), inner)"
    using demo_subscribe2 by blast
  ultimately have "\<exists>served. map snd served = [demo_record] \<and> suffix served (bh_log h demo_key) \<and>
      list_all (\<lambda>e. fst e \<le> 5 \<and> 5 - fst e < bs_replay_ttl demo_state) served"
    by (intro broker_replay_window) simp_all
  then obtain served where "map snd served = [demo_record]"
      "list_all (\<lambda>e. fst e \<le> 5 \<and> 5 - fst e < bs_replay_ttl demo_state) served" by (elim exE conjE)
  moreover have "bs_replay_ttl demo_state = 10" by (simp add: demo_state_def)
  ultimately show ?thesis using s by (intro exI [of _ served] exI [of _ inner]) simp
qed

end
