(* ===== verification/Broker_Client.thy ===== *)
theory Broker_Client
  imports Broker_Invariants
begin

text \<open>
  Publishers and subscribers of the QUIC broker (\<^verbatim>\<open>crates/transport-quic-broker/src/client.rs\<close>) and the
  stream handlers of the broker that serve them (\<^verbatim>\<open>handlers.rs\<close>).  A stream is the list of bytes written
  to it.  Both ends are compared with the direct path, and composed with the room engine into
  delivery from end to end.
\<close>

section \<open>Publishing\<close>

record PublishTextToBroker =
  pt_stream_id :: bytes
  pt_start_event_id :: bytes
  pt_text :: string
  pt_max_chunk_bytes :: nat
  pt_crypto :: "AgentTextStreamCrypto option"
  pt_max_plaintext_frame_len :: "u32 option"

record BrokerTextPublisher =
  pub_send :: bytes
  pub_transcript :: AgentTextStreamTranscriptV1
  pub_next_seq :: u64
  pub_crypto :: "AgentTextStreamCrypto option"
  pub_max_plaintext_frame_len :: "u32 option"

definition publisher_connect :: "StreamPrims \<Rightarrow> PublishTextToBroker \<Rightarrow> QuicBrokerError + BrokerTextPublisher" where
  "publisher_connect P config =
     r_bind (write_control_frame \<lparr> env_control_type = BrokerPublish, env_stream_id = pt_stream_id config,
               env_start_event_id = pt_start_event_id config \<rparr>) (\<lambda>bytes.
       Inr \<lparr> pub_send = bytes,
             pub_transcript = transcript_new (sp_sha256 P) (pt_stream_id config) (pt_start_event_id config),
             pub_next_seq = 1, pub_crypto = pt_crypto config,
             pub_max_plaintext_frame_len = pt_max_plaintext_frame_len config \<rparr>)"

definition append_record ::
  "StreamPrims \<Rightarrow> u8 \<Rightarrow> bytes \<Rightarrow> BrokerTextPublisher \<Rightarrow> (QuicBrokerError + unit) \<times> BrokerTextPublisher" where
  "append_record P record_type chunk p =
     (let rec = record_new (tr_stream_id (pub_transcript p)) (pub_next_seq p) record_type chunk in
      case record_validate rec of
        Inl e \<Rightarrow> (Inl (BRecord e), p)
      | Inr _ \<Rightarrow>
          (let p = p \<lparr> pub_next_seq := pub_next_seq p + 1 \<rparr> in
           case (case pub_crypto p of Some crypto \<Rightarrow> encrypt_record P crypto rec | None \<Rightarrow> Inr rec) of
             Inl e \<Rightarrow> (Inl (BStreamCrypto e), p)
           | Inr wire_record \<Rightarrow>
               (case write_record_frame wire_record of
                  Inl e \<Rightarrow> (Inl e, p)
                | Inr bytes \<Rightarrow>
                    (Inr (), p \<lparr> pub_send := pub_send p @ bytes,
                                pub_transcript := transcript_append (sp_sha256 P) (rec_seq rec) (rec_type rec)
                                                    (rec_plaintext_frame rec) (pub_transcript p) \<rparr>))))"

fun append_chunks ::
  "StreamPrims \<Rightarrow> u8 \<Rightarrow> bytes list \<Rightarrow> u64 \<Rightarrow> BrokerTextPublisher \<Rightarrow> (QuicBrokerError + u64) \<times> BrokerTextPublisher" where
  "append_chunks P record_type [] appended p = (Inr appended, p)"
| "append_chunks P record_type (chunk # chunks) appended p =
     (case append_record P record_type chunk p of
        (Inl e, p) \<Rightarrow> (Inl e, p)
      | (Inr _, p) \<Rightarrow> append_chunks P record_type chunks (appended + 1) p)"

definition append_record_text ::
  "StreamPrims \<Rightarrow> u8 \<Rightarrow> string \<Rightarrow> nat \<Rightarrow> BrokerTextPublisher \<Rightarrow> (QuicBrokerError + u64) \<times> BrokerTextPublisher" where
  "append_record_text P record_type text max_chunk_bytes p =
     (if max_chunk_bytes = 0 then (Inl BEmptyChunkSize, p)
      else if max_chunk_bytes > unat AGENT_TEXT_STREAM_MAX_PLAINTEXT_FRAME_LEN
      then (Inl (BChunkSizeTooLarge max_chunk_bytes), p)
      else append_chunks P record_type
             (split_text_deltas text (min max_chunk_bytes (effective_plaintext_cap (pub_max_plaintext_frame_len p)))) 0 p)"

definition append_text ::
  "StreamPrims \<Rightarrow> string \<Rightarrow> nat \<Rightarrow> BrokerTextPublisher \<Rightarrow> (QuicBrokerError + u64) \<times> BrokerTextPublisher" where
  "append_text P text max_chunk_bytes p = append_record_text P AGENT_TEXT_STREAM_RECORD_TEXT_DELTA text max_chunk_bytes p"

definition AGENT_TEXT_STREAM_RECORD_ABORT :: u8 where "AGENT_TEXT_STREAM_RECORD_ABORT = 0x05"

definition append_abort :: "StreamPrims \<Rightarrow> BrokerTextPublisher \<Rightarrow> (QuicBrokerError + unit) \<times> BrokerTextPublisher" where
  "append_abort P p = append_record P AGENT_TEXT_STREAM_RECORD_ABORT [] p"

definition publisher_finish :: "BrokerTextPublisher \<Rightarrow> SentTextStream" where
  "publisher_finish p =
     \<lparr> sent_stream_id = tr_stream_id (pub_transcript p), sent_transcript_hash = tr_hash (pub_transcript p),
       sent_chunk_count = tr_chunk_count (pub_transcript p) \<rparr>"

definition publish_text_to_broker ::
  "StreamPrims \<Rightarrow> PublishTextToBroker \<Rightarrow> QuicBrokerError + (bytes \<times> SentTextStream)" where
  "publish_text_to_broker P config =
     r_bind (publisher_connect P config) (\<lambda>p.
       case append_text P (pt_text config) (pt_max_chunk_bytes config) p of
         (Inl e, p) \<Rightarrow> Inl e
       | (Inr _, p) \<Rightarrow> Inr (pub_send p, publisher_finish p))"

section \<open>Subscribing\<close>

record SubscribeTextFromBroker =
  sb_stream_id :: bytes
  sb_start_event_id :: bytes
  sb_crypto :: "AgentTextStreamCrypto option"

record SubscribeState =
  ss_high_water :: u64
  ss_chunks :: "ReceivedTextChunk list"
  ss_text :: string
  ss_transcript :: AgentTextStreamTranscriptV1
  ss_limits :: AgentTextStreamReceiveAccumulator
  ss_frames_read :: u64

definition sub_request :: "SubscribeTextFromBroker \<Rightarrow> QuicBrokerError + bytes" where
  "sub_request config =
     write_control_frame \<lparr> env_control_type = BrokerSubscribe, env_stream_id = sb_stream_id config,
       env_start_event_id = sb_start_event_id config \<rparr>"

definition saturating_inc :: "u64 \<Rightarrow> u64" where
  "saturating_inc n = (if n = - 1 then - 1 else n + 1)"

definition broker_stream_record_text :: "AgentTextStreamRecordV1 \<Rightarrow> QuicBrokerError + string" where
  "broker_stream_record_text rec =
     (if rec_type rec \<in> {AGENT_TEXT_STREAM_RECORD_TEXT_DELTA, 0x03, 0x02, 0x04}
      then r_map_err BUtf8 (from_utf8 (rec_plaintext_frame rec))
      else Inr [])"

definition sub_accept ::
  "StreamPrims \<Rightarrow> SubscribeTextFromBroker \<Rightarrow> AgentTextStreamRecordV1 \<Rightarrow> SubscribeState \<Rightarrow> QuicBrokerError + SubscribeState" where
  "sub_accept P config rec ss =
     r_bind (r_map_err BReceiveLimit (observe rec (ss_limits ss))) (\<lambda>limits.
       if rec_stream_id rec \<noteq> sb_stream_id config then Inl BMixedStreamIds
       else r_bind (broker_stream_record_text rec) (\<lambda>frame_text.
         Inr (ss \<lparr> ss_limits := limits, ss_high_water := rec_seq rec,
                   ss_text := (if rec_type rec = AGENT_TEXT_STREAM_RECORD_TEXT_DELTA
                               then ss_text ss @ frame_text else ss_text ss),
                   ss_transcript := transcript_append (sp_sha256 P) (rec_seq rec) (rec_type rec)
                                      (rec_plaintext_frame rec) (ss_transcript ss),
                   ss_chunks := ss_chunks ss @ [\<lparr> rc_seq = rec_seq rec, rc_record_type = rec_type rec,
                                                  rc_flags = rec_flags rec, rc_text = frame_text \<rparr>] \<rparr>)))"

definition sub_record ::
  "StreamPrims \<Rightarrow> SubscribeTextFromBroker \<Rightarrow> AgentTextStreamReceiveLimits \<Rightarrow> AgentTextStreamRecordV1 \<Rightarrow> SubscribeState \<Rightarrow>
   QuicBrokerError + SubscribeState" where
  "sub_record P config limits rec ss =
     (let frames_read = saturating_inc (ss_frames_read ss); ss = ss \<lparr> ss_frames_read := frames_read \<rparr> in
      if frames_read > max_records limits
      then Inl (BReceiveLimit (RecordLimitExceeded frames_read (max_records limits)))
      else if rec_seq rec \<le> ss_high_water ss then Inr ss
      else if rec_seq rec \<noteq> ss_high_water ss + 1
      then Inl (BUnexpectedSequence (ss_high_water ss + 1) (rec_seq rec))
      else r_bind (r_map_err BStreamCrypto (case sb_crypto config of None \<Rightarrow> Inr rec | Some c \<Rightarrow> decrypt_record P c rec))
             (\<lambda>rec. sub_accept P config rec ss))"

lemma read_record_frame_read_record:
  "read_record_frame recv m = Inr x \<longleftrightarrow> read_record recv m = Inr x"
  by (auto simp: read_record_frame_def read_record_def read_bytes_frame_def broker_validate_frame_len_def
      validate_frame_len_def Let_def r_simps split: if_split_asm)

lemma read_record_frame_shorter: "read_record_frame recv m = Inr (Some (rec, rest)) \<Longrightarrow> length rest < length recv"
  by (simp add: read_record_frame_read_record read_record_shorter)

function sub_loop ::
  "StreamPrims \<Rightarrow> SubscribeTextFromBroker \<Rightarrow> AgentTextStreamReceiveLimits \<Rightarrow> bytes \<Rightarrow> SubscribeState \<Rightarrow>
   QuicBrokerError + SubscribeState" where
  "sub_loop P config limits recv ss =
     (case read_record_frame recv (frame_len_cap (Some (rl_max_plaintext_frame_len limits))) of
        Inl e \<Rightarrow> Inl e
      | Inr None \<Rightarrow> Inr ss
      | Inr (Some (rec, rest)) \<Rightarrow>
          (case sub_record P config limits rec ss of
             Inl e \<Rightarrow> Inl e
           | Inr ss' \<Rightarrow> sub_loop P config limits rest ss'))"
  by pat_completeness auto

termination
  by (relation "measure (\<lambda>(P, c, l, recv, ss). length recv)") (auto dest: read_record_frame_shorter)

declare sub_loop.simps [simp del]

definition subscribe_text_from_broker_with_limits ::
  "StreamPrims \<Rightarrow> SubscribeTextFromBroker \<Rightarrow> AgentTextStreamReceiveLimits \<Rightarrow> bytes \<Rightarrow> QuicBrokerError + ReceivedTextStream" where
  "subscribe_text_from_broker_with_limits P config limits recv =
     r_bind (sub_loop P config limits recv
         \<lparr> ss_high_water = 0, ss_chunks = [], ss_text = [],
           ss_transcript = transcript_new (sp_sha256 P) (sb_stream_id config) (sb_start_event_id config),
           ss_limits = accumulator_new limits, ss_frames_read = 0 \<rparr>) (\<lambda>ss.
       if ss_chunks ss = [] then Inl BEmptyStream
       else Inr \<lparr> rts_stream_id = tr_stream_id (ss_transcript ss), rts_chunks = ss_chunks ss, rts_text = ss_text ss,
                  rts_transcript_hash = tr_hash (ss_transcript ss), rts_chunk_count = tr_chunk_count (ss_transcript ss) \<rparr>)"

section \<open>The stream handlers\<close>

definition AgentTextStreamReceiveLimits_default :: AgentTextStreamReceiveLimits where
  "AgentTextStreamReceiveLimits_default =
     \<lparr> max_records = 4096, max_plaintext_bytes = 1024 * 1024,
       rl_max_plaintext_frame_len = AGENT_TEXT_STREAM_MAX_PLAINTEXT_FRAME_LEN \<rparr>"

text \<open>
  The loop of \<^verbatim>\<open>handle_publish_stream\<close> as far as its own stream determines it: the records it passes to
  \<open>publish\<close>, as long as none of these calls fails, and how it ends.  The handler's operations on the room
  engine follow from that.
\<close>

function publish_stream_loop ::
  "BrokerStreamKey \<Rightarrow> AgentTextStreamReceiveAccumulator \<Rightarrow> bytes \<Rightarrow> AgentTextStreamRecordV1 list \<times> (QuicBrokerError + unit)" where
  "publish_stream_loop key limit_state recv =
     (case read_record_frame recv MAX_FRAME_SIZE of
        Inl e \<Rightarrow> ([], Inl e)
      | Inr None \<Rightarrow> ([], Inr ())
      | Inr (Some (rec, rest)) \<Rightarrow>
          if rec_stream_id rec \<noteq> bk_stream_id key then ([], Inl BMixedStreamIds)
          else (case observe rec limit_state of
                  Inl e \<Rightarrow> ([], Inl (BReceiveLimit e))
                | Inr limit_state' \<Rightarrow>
                    (let (recs, res) = publish_stream_loop key limit_state' rest in (rec # recs, res))))"
  by pat_completeness auto

termination
  by (relation "measure (\<lambda>(key, l, recv). length recv)") (auto dest: read_record_frame_shorter)

declare publish_stream_loop.simps [simp del]

definition handle_publish_stream :: "bytes \<Rightarrow> BrokerOp list \<times> (QuicBrokerError + unit)" where
  "handle_publish_stream recv =
     (case read_control_frame recv of
        Inl e \<Rightarrow> ([], Inl e)
      | Inr (control, rest) \<Rightarrow>
          if env_control_type control \<noteq> BrokerPublish then ([], Inl BSubscribeRequiresBidirectionalStream)
          else (let key = env_key control;
                    (recs, res) = publish_stream_loop key (accumulator_new AgentTextStreamReceiveLimits_default) rest
                in (OpWaitRound key # map (OpPublish key) recs
                      @ [if res = Inl BMixedStreamIds then OpDropRoom key else OpFinish key], res)))"

definition subscribe_key :: "bytes \<Rightarrow> QuicBrokerError + BrokerStreamKey" where
  "subscribe_key recv =
     r_bind (read_control_frame recv) (\<lambda>(control, rest).
       if env_control_type control \<noteq> BrokerSubscribe then Inl BPublishRequiresUnidirectionalStream
       else Inr (env_key control))"

fun write_record_frames :: "AgentTextStreamRecordV1 list \<Rightarrow> QuicBrokerError + bytes" where
  "write_record_frames [] = Inr []"
| "write_record_frames (rec # recs) =
     r_bind (write_record_frame rec) (\<lambda>bytes. r_bind (write_record_frames recs) (\<lambda>rest. Inr (bytes @ rest)))"

definition subscribe_stream_bytes ::
  "AgentTextStreamRecordV1 list \<Rightarrow> AgentTextStreamRecordV1 list \<Rightarrow> QuicBrokerError + bytes" where
  "subscribe_stream_bytes backlog received = write_record_frames (backlog @ received)"

section \<open>The publisher and the direct sender\<close>

definition as_send :: "PublishTextToBroker \<Rightarrow> SendTextStream" where
  "as_send config =
     \<lparr> sts_stream_id = pt_stream_id config, sts_start_event_id = pt_start_event_id config, sts_text = pt_text config,
       sts_max_chunk_bytes = pt_max_chunk_bytes config, sts_crypto = pt_crypto config,
       sts_max_plaintext_frame_len = pt_max_plaintext_frame_len config \<rparr>"

definition publish_envelope :: "PublishTextToBroker \<Rightarrow> QuicBrokerControlEnvelopeV1" where
  "publish_envelope config = \<lparr> env_control_type = BrokerPublish, env_stream_id = pt_stream_id config,
     env_start_event_id = pt_start_event_id config \<rparr>"

lemma encrypt_record_fields:
  assumes "encrypt_record P c r = Inr r'"
  shows "rec_stream_id r' = rec_stream_id r" "rec_type r' = rec_type r" "length (rec_plaintext_frame r) \<le> 65519"
  using assms by (auto simp: encrypt_record_def r_simps AGENT_TEXT_STREAM_MAX_PLAINTEXT_FRAME_LEN_def
      split: if_split_asm option.splits)

lemma wire_record_validate:
  assumes "(case crypto of Some c \<Rightarrow> encrypt_record P c r | None \<Rightarrow> Inr r) = Inr wr" "record_validate wr = Inr ()"
  shows "record_validate r = Inr ()"
proof (cases crypto)
  case (Some c)
  then have "encrypt_record P c r = Inr wr" using assms(1) by simp
  note e = encrypt_record_fields [OF this]
  show ?thesis
    using assms(2) e by (auto simp: record_validate_def AGENT_TEXT_STREAM_MAX_RECORD_CIPHERTEXT_LEN_def split: if_split_asm)
qed (use assms in simp)

lemma append_record_Inr:
  "append_record P ty chunk p = (Inr u, p') \<longleftrightarrow>
   (\<exists>wr bytes. let r = record_new (tr_stream_id (pub_transcript p)) (pub_next_seq p) ty chunk in
     (case pub_crypto p of Some c \<Rightarrow> encrypt_record P c r | None \<Rightarrow> Inr r) = Inr wr \<and> write_record wr = Inr bytes \<and>
     p' = p \<lparr> pub_next_seq := pub_next_seq p + 1, pub_send := pub_send p @ bytes,
        pub_transcript := transcript_append (sp_sha256 P) (rec_seq r) (rec_type r) (rec_plaintext_frame r) (pub_transcript p) \<rparr>)"
  (is "?l \<longleftrightarrow> ?r")
proof -
  let ?rec = "record_new (tr_stream_id (pub_transcript p)) (pub_next_seq p) ty chunk"
  let ?e = "case pub_crypto p of Some c \<Rightarrow> encrypt_record P c ?rec | None \<Rightarrow> Inr ?rec"
  show ?thesis
  proof (cases ?e)
    case (Inl x)
    then show ?thesis by (auto simp: append_record_def Let_def split: sum.split)
  next
    case (Inr wr)
    show ?thesis
    proof (cases "write_record_frame wr")
      case (Inl x)
      then have "write_record wr \<noteq> Inr y" for y using write_record_frame_Inr [of wr y] by simp
      then show ?thesis using Inl Inr by (auto simp: append_record_def Let_def split: sum.split)
    next
      case r: (Inr bytes)
      then have w: "write_record wr = Inr bytes" by (simp add: write_record_frame_Inr)
      then have "record_validate ?rec = Inr ()"
        using wire_record_validate [OF Inr] by (simp add: write_record_Inr)
      then show ?thesis using r w Inr by (auto simp: append_record_def Let_def)
    qed
  qed
qed

lemma append_chunks_send_loop:
  assumes "pub_crypto p = sts_crypto config" "tr_stream_id (pub_transcript p) = sts_stream_id config"
    and "pub_next_seq p = of_nat k + 1"
  shows "(\<exists>n. append_chunks P AGENT_TEXT_STREAM_RECORD_TEXT_DELTA chunks a p = (Inr n, p')) \<longleftrightarrow>
    (\<exists>w tr. send_loop P config k chunks (pub_send p) (pub_transcript p) = Inr (w, tr) \<and>
      p' = p \<lparr> pub_next_seq := of_nat (k + length chunks) + 1, pub_send := w, pub_transcript := tr \<rparr>)"
  using assms
proof (induction chunks arbitrary: k a p)
  case Nil
  then show ?case by auto
next
  case (Cons c cs)
  let ?rec = "text_delta (sts_stream_id config) (of_nat k + 1) c"
  have rec: "record_new (tr_stream_id (pub_transcript p)) (pub_next_seq p) AGENT_TEXT_STREAM_RECORD_TEXT_DELTA c = ?rec"
    using Cons.prems by (simp add: text_delta_def)
  let ?e = "case sts_crypto config of None \<Rightarrow> Inr ?rec | Some x \<Rightarrow> encrypt_record P x ?rec"
  have e: "(case pub_crypto p of Some x \<Rightarrow> encrypt_record P x ?rec | None \<Rightarrow> Inr ?rec) = ?e"
    using Cons.prems(1) by (auto split: option.split)
  let ?t = "transcript_append (sp_sha256 P) (rec_seq ?rec) (rec_type ?rec) (rec_plaintext_frame ?rec) (pub_transcript p)"
  show ?case
  proof (cases "\<exists>wr bytes. ?e = Inr wr \<and> write_record wr = Inr bytes")
    case True
    then obtain wr bytes where w: "?e = Inr wr" "write_record wr = Inr bytes" by blast
    define q where "q = p \<lparr> pub_next_seq := pub_next_seq p + 1, pub_send := pub_send p @ bytes, pub_transcript := ?t \<rparr>"
    have a: "append_record P AGENT_TEXT_STREAM_RECORD_TEXT_DELTA c p = (Inr (), q)"
      unfolding append_record_Inr Let_def rec e q_def using w by blast
    have q: "pub_crypto q = sts_crypto config" "tr_stream_id (pub_transcript q) = sts_stream_id config"
        "pub_next_seq q = of_nat (Suc k) + 1" "pub_send q = pub_send p @ bytes" "pub_transcript q = ?t"
      using Cons.prems by (simp_all add: q_def transcript_append_def add.commute)
    have l: "append_chunks P AGENT_TEXT_STREAM_RECORD_TEXT_DELTA (c # cs) a p =
          append_chunks P AGENT_TEXT_STREAM_RECORD_TEXT_DELTA cs (a + 1) q"
        "send_loop P config k (c # cs) (pub_send p) (pub_transcript p) =
          send_loop P config (Suc k) cs (pub_send q) (pub_transcript q)"
      using a w q(4,5) by (simp_all add: Let_def)
    have u: "q \<lparr> pub_next_seq := n, pub_send := v, pub_transcript := tr \<rparr> =
        p \<lparr> pub_next_seq := n, pub_send := v, pub_transcript := tr \<rparr>" for n v tr
      by (simp add: q_def)
    have "Suc k + length cs = k + length (c # cs)" by simp
    then show ?thesis using Cons.IH [OF q(1-3), of "a + 1"] unfolding l u by (simp only:)
  next
    case False
    have "append_record P AGENT_TEXT_STREAM_RECORD_TEXT_DELTA c p \<noteq> (Inr (), q)" for q
      unfolding append_record_Inr Let_def rec e using False by blast
    then have "\<nexists>n. append_chunks P AGENT_TEXT_STREAM_RECORD_TEXT_DELTA (c # cs) a p = (Inr n, p')"
      by (auto split: prod.splits sum.splits)
    moreover have "\<nexists>r. send_loop P config k (c # cs) (pub_send p) (pub_transcript p) = Inr r"
      using False by (auto simp: Let_def r_simps)
    ultimately show ?thesis by auto
  qed
qed

lemma send_loop_wire:
  "send_loop P config k chunks (pre @ wire) tr = Inr (w, tr') \<longleftrightarrow>
   (\<exists>v. w = pre @ v \<and> send_loop P config k chunks wire tr = Inr (v, tr'))"
  by (induction chunks arbitrary: k wire tr) (auto simp: Let_def r_simps)

abbreviation fresh_publisher :: "StreamPrims \<Rightarrow> PublishTextToBroker \<Rightarrow> bytes \<Rightarrow> BrokerTextPublisher" where
  "fresh_publisher P config control \<equiv>
     \<lparr> pub_send = control, pub_transcript = transcript_new (sp_sha256 P) (pt_stream_id config) (pt_start_event_id config),
       pub_next_seq = 1, pub_crypto = pt_crypto config, pub_max_plaintext_frame_len = pt_max_plaintext_frame_len config \<rparr>"

abbreviation text_chunks :: "PublishTextToBroker \<Rightarrow> bytes list" where
  "text_chunks config \<equiv> split_text_deltas (pt_text config)
     (min (pt_max_chunk_bytes config) (effective_plaintext_cap (pt_max_plaintext_frame_len config)))"

definition chunk_size_ok :: "PublishTextToBroker \<Rightarrow> bool" where
  "chunk_size_ok config \<longleftrightarrow>
     0 < pt_max_chunk_bytes config \<and> pt_max_chunk_bytes config \<le> unat AGENT_TEXT_STREAM_MAX_PLAINTEXT_FRAME_LEN"

lemma publish_text_to_broker_Inr:
  "publish_text_to_broker P config = Inr (w, sent) \<longleftrightarrow>
   (\<exists>control n p. write_control_frame (publish_envelope config) = Inr control \<and> chunk_size_ok config \<and>
      append_chunks P AGENT_TEXT_STREAM_RECORD_TEXT_DELTA (text_chunks config) 0 (fresh_publisher P config control) = (Inr n, p) \<and>
      w = pub_send p \<and> sent = publisher_finish p)"
proof (cases "write_control_frame (publish_envelope config)")
  case (Inl e)
  then show ?thesis by (simp add: publish_text_to_broker_def publisher_connect_def publish_envelope_def)
next
  case (Inr control)
  then have c: "publisher_connect P config = Inr (fresh_publisher P config control)"
    by (simp add: publisher_connect_def publish_envelope_def)
  obtain r p where a: "append_chunks P AGENT_TEXT_STREAM_RECORD_TEXT_DELTA (text_chunks config) 0
      (fresh_publisher P config control) = (r, p)" by force
  show ?thesis
  proof (cases r)
    case (Inl e)
    then show ?thesis using Inr c a by (simp add: publish_text_to_broker_def append_text_def append_record_text_def)
  next
    case r: (Inr n)
    then show ?thesis
      using Inr c a by (auto simp: publish_text_to_broker_def append_text_def append_record_text_def chunk_size_ok_def)
  qed
qed

lemma send_text_stream_Inr:
  "send_text_stream P (as_send config) = Inr (w, sent) \<longleftrightarrow>
   (\<exists>tr. chunk_size_ok config \<and>
      send_loop P (as_send config) 0 (text_chunks config) [] (transcript_new (sp_sha256 P) (pt_stream_id config) (pt_start_event_id config))
        = Inr (w, tr) \<and>
      sent = \<lparr> sent_stream_id = tr_stream_id tr, sent_transcript_hash = tr_hash tr, sent_chunk_count = tr_chunk_count tr \<rparr>)"
  by (auto simp: send_text_stream_def Let_def chunk_size_ok_def as_send_def r_simps)

lemma publish_text_direct:
  "publish_text_to_broker P config = Inr (wire, sent) \<longleftrightarrow>
   (\<exists>control w. write_control_frame (publish_envelope config) = Inr control \<and>
      send_text_stream P (as_send config) = Inr (w, sent) \<and> wire = control @ w)"
proof -
  let ?tr = "transcript_new (sp_sha256 P) (pt_stream_id config) (pt_start_event_id config)"
  let ?p = "fresh_publisher P config"
  have l: "(\<exists>n. append_chunks P AGENT_TEXT_STREAM_RECORD_TEXT_DELTA (text_chunks config) 0 (?p control) = (Inr n, p)) \<longleftrightarrow>
      (\<exists>w tr. send_loop P (as_send config) 0 (text_chunks config) [] ?tr = Inr (w, tr) \<and>
        p = (?p control) \<lparr> pub_next_seq := of_nat (0 + length (text_chunks config)) + 1, pub_send := control @ w, pub_transcript := tr \<rparr>)"
    for control p
  proof -
    have "pub_crypto (?p control) = sts_crypto (as_send config)" "tr_stream_id (pub_transcript (?p control)) = sts_stream_id (as_send config)"
        "pub_next_seq (?p control) = of_nat 0 + 1"
      by (simp_all add: as_send_def transcript_new_def)
    from append_chunks_send_loop [OF this, of P "text_chunks config" 0 p] show ?thesis
      using send_loop_wire [of P "as_send config" 0 "text_chunks config" control "[]" ?tr] by auto
  qed
  have f: "publisher_finish ((?p control) \<lparr> pub_next_seq := n, pub_send := v, pub_transcript := tr \<rparr>) =
      \<lparr> sent_stream_id = tr_stream_id tr, sent_transcript_hash = tr_hash tr, sent_chunk_count = tr_chunk_count tr \<rparr>" for control n v tr
    by (simp add: publisher_finish_def)
  show ?thesis
    unfolding publish_text_to_broker_Inr send_text_stream_Inr
  proof (rule iffI; elim exE conjE)
    fix control n p
    assume c: "write_control_frame (publish_envelope config) = Inr control" "chunk_size_ok config" "wire = pub_send p"
        "sent = publisher_finish p"
      and "append_chunks P AGENT_TEXT_STREAM_RECORD_TEXT_DELTA (text_chunks config) 0 (?p control) = (Inr n, p)"
    then obtain w tr where "send_loop P (as_send config) 0 (text_chunks config) [] ?tr = Inr (w, tr)"
        "p = (?p control) \<lparr> pub_next_seq := of_nat (0 + length (text_chunks config)) + 1, pub_send := control @ w, pub_transcript := tr \<rparr>"
      using l by blast
    then show "\<exists>control w. write_control_frame (publish_envelope config) = Inr control \<and>
        (\<exists>tr. chunk_size_ok config \<and> send_loop P (as_send config) 0 (text_chunks config) [] ?tr = Inr (w, tr) \<and>
          sent = \<lparr> sent_stream_id = tr_stream_id tr, sent_transcript_hash = tr_hash tr, sent_chunk_count = tr_chunk_count tr \<rparr>) \<and>
        wire = control @ w"
      using c f by auto
  next
    fix control w tr
    assume c: "write_control_frame (publish_envelope config) = Inr control" "wire = control @ w" "chunk_size_ok config"
        "sent = \<lparr> sent_stream_id = tr_stream_id tr, sent_transcript_hash = tr_hash tr, sent_chunk_count = tr_chunk_count tr \<rparr>"
      and s: "send_loop P (as_send config) 0 (text_chunks config) [] ?tr = Inr (w, tr)"
    define p where "p = (?p control) \<lparr> pub_next_seq := of_nat (0 + length (text_chunks config)) + 1, pub_send := control @ w, pub_transcript := tr \<rparr>"
    have "\<exists>n. append_chunks P AGENT_TEXT_STREAM_RECORD_TEXT_DELTA (text_chunks config) 0 (?p control) = (Inr n, p)"
      using l [of control p] s p_def by blast
    moreover have "wire = pub_send p" "sent = publisher_finish p" using c f by (simp_all add: p_def)
    ultimately show "\<exists>control n p. write_control_frame (publish_envelope config) = Inr control \<and> chunk_size_ok config \<and>
      append_chunks P AGENT_TEXT_STREAM_RECORD_TEXT_DELTA (text_chunks config) 0 (?p control) = (Inr n, p) \<and>
      wire = pub_send p \<and> sent = publisher_finish p"
      using c by blast
  qed
qed

section \<open>The subscriber and the direct receiver\<close>

definition sub_of :: "StreamPrims \<Rightarrow> SubscribeTextFromBroker \<Rightarrow> ReceiveState \<Rightarrow> SubscribeState" where
  "sub_of P config st =
     \<lparr> ss_high_water = rs_high_water st, ss_chunks = rs_chunks st, ss_text = rs_text st,
       ss_transcript = (case rs_transcript st of
                          None \<Rightarrow> transcript_new (sp_sha256 P) (sb_stream_id config) (sb_start_event_id config)
                        | Some t \<Rightarrow> t),
       ss_limits = (rs_limits st) \<lparr> acc_wire_records := 0 \<rparr>, ss_frames_read = acc_wire_records (rs_limits st) \<rparr>"

definition same_stream :: "SubscribeTextFromBroker \<Rightarrow> ReceiveState \<Rightarrow> bool" where
  "same_stream config st \<longleftrightarrow>
     (case rs_stream_id st of
        None \<Rightarrow> rs_transcript st = None \<and> rs_chunks st = []
      | Some i \<Rightarrow> i = sb_stream_id config \<and> rs_chunks st \<noteq> [] \<and>
          (case rs_transcript st of None \<Rightarrow> False | Some t \<Rightarrow> tr_stream_id t = i))"

definition within :: "AgentTextStreamReceiveLimits \<Rightarrow> ReceiveState \<Rightarrow> bool" where
  "within limits st \<longleftrightarrow> acc_limits (rs_limits st) = limits \<and> acc_wire_records (rs_limits st) \<le> max_records limits"

lemma observe_wire_0:
  "observe rec (a \<lparr> acc_wire_records := n \<rparr>) = Inr b \<longleftrightarrow>
   (\<exists>b'. observe rec a = Inr b' \<and> b = b' \<lparr> acc_wire_records := n \<rparr>)"
  by (auto simp: observe_def Let_def split: option.splits)

lemma broker_stream_record_text_Inr: "broker_stream_record_text rec = Inr s \<longleftrightarrow> stream_record_text rec = Inr s"
  by (simp add: broker_stream_record_text_def stream_record_text_def r_simps)

lemma stream_transcript_same:
  assumes "same_stream config st" "rec_stream_id rec = sb_stream_id config"
  shows "stream_transcript P (sb_start_event_id config) rec st = Inr (sb_stream_id config, ss_transcript (sub_of P config st))"
    "tr_stream_id (ss_transcript (sub_of P config st)) = sb_stream_id config"
  using assms by (auto simp: same_stream_def stream_transcript_def sub_of_def transcript_new_def split: option.splits)

lemma same_stream_push: "tr_stream_id tr = sb_stream_id config \<Longrightarrow> same_stream config (push_chunk P rec (sb_stream_id config) tr s st)"
  by (simp add: same_stream_def push_chunk_def transcript_append_def)

lemma stream_transcript_id: "stream_transcript P start rec st = Inr (i, tr) \<Longrightarrow> i = rec_stream_id rec"
  by (auto simp: stream_transcript_def Let_def split: option.splits if_split_asm)

lemma push_chunk_fields [simp]:
  "rs_limits (push_chunk P rec i tr s st) = rs_limits st" "rs_high_water (push_chunk P rec i tr s st) = rs_high_water st"
  "rs_stream_id (push_chunk P rec i tr s st) = Some i"
  by (simp_all add: push_chunk_def)

lemma accept_record_push:
  "accept_record P start rec st = Inr st' \<Longrightarrow>
   \<exists>i tr s. stream_transcript P start rec st = Inr (i, tr) \<and> stream_record_text rec = Inr s \<and> st' = push_chunk P rec i tr s st"
  by (auto simp: accept_record_def r_simps)

lemma accept_record_same:
  assumes "same_stream config st"
  shows "(accept_record P (sb_start_event_id config) rec st = Inr st' \<and> same_stream config st') \<longleftrightarrow>
    rec_stream_id rec = sb_stream_id config \<and> (\<exists>s. stream_record_text rec = Inr s \<and>
      st' = push_chunk P rec (sb_stream_id config) (ss_transcript (sub_of P config st)) s st)"
proof
  assume a: "accept_record P (sb_start_event_id config) rec st = Inr st' \<and> same_stream config st'"
  then obtain i tr s where p: "stream_transcript P (sb_start_event_id config) rec st = Inr (i, tr)" "stream_record_text rec = Inr s"
      "st' = push_chunk P rec i tr s st" using accept_record_push by blast
  have "rec_stream_id rec = sb_stream_id config"
    using a p(3) stream_transcript_id [OF p(1)] by (simp add: same_stream_def)
  then show "rec_stream_id rec = sb_stream_id config \<and> (\<exists>s. stream_record_text rec = Inr s \<and>
      st' = push_chunk P rec (sb_stream_id config) (ss_transcript (sub_of P config st)) s st)"
    using p stream_transcript_same(1) [OF assms, of rec P] by auto
next
  assume a: "rec_stream_id rec = sb_stream_id config \<and> (\<exists>s. stream_record_text rec = Inr s \<and>
      st' = push_chunk P rec (sb_stream_id config) (ss_transcript (sub_of P config st)) s st)"
  then show "accept_record P (sb_start_event_id config) rec st = Inr st' \<and> same_stream config st'"
    using stream_transcript_same [OF assms, of rec P] same_stream_push by (auto simp: accept_record_def)
qed

lemma within_step:
  assumes "within limits st" "receive_record P start crypto rec st = Inr st'"
  shows "within limits st'"
proof -
  obtain l1 where l1: "observe_wire_record (rs_limits st) = Inr l1" using assms(2) by (auto simp: receive_record_def r_simps)
  have w: "acc_limits l1 = limits" "acc_wire_records l1 \<le> max_records limits"
    using l1 assms(1) by (auto simp: observe_wire_record_def within_def split: option.splits if_split_asm)
  show ?thesis
  proof (cases "rec_seq rec \<le> rs_high_water st")
    case True
    then show ?thesis using assms(2) l1 w by (auto simp: receive_record_def within_def)
  next
    case False
    then obtain r l2 where "observe r l1 = Inr l2"
        "accept_record P start r (st \<lparr> rs_limits := l2, rs_high_water := rec_seq r \<rparr>) = Inr st'"
      using assms(2) l1 by (auto simp: receive_record_def r_simps split: if_split_asm)
    moreover from this have "acc_limits l2 = limits" "acc_wire_records l2 = acc_wire_records l1"
      using w by (auto simp: observe_def Let_def split: option.splits if_split_asm)
    ultimately show ?thesis using accept_record_push w by (fastforce simp: within_def)
  qed
qed

lemma same_stream_update [simp]:
  "same_stream config (st \<lparr> rs_limits := l \<rparr>) = same_stream config st"
  "same_stream config (st \<lparr> rs_high_water := q \<rparr>) = same_stream config st"
  by (simp_all add: same_stream_def cong: option.case_cong)

lemma sub_record_step:
  assumes s: "same_stream config st" and w: "within limits st" and m: "max_records limits \<noteq> - 1"
  shows "sub_record P config limits rec (sub_of P config st) = Inr ss \<longleftrightarrow>
    (\<exists>st'. receive_record P (sb_start_event_id config) (sb_crypto config) rec st = Inr st' \<and>
       same_stream config st' \<and> ss = sub_of P config st')"
proof -
  let ?a = "rs_limits st" and ?ss = "sub_of P config st"
  let ?n = "acc_wire_records ?a"
  let ?d = "case sb_crypto config of None \<Rightarrow> Inr rec | Some c \<Rightarrow> decrypt_record P c rec"
  have n: "?n \<noteq> - 1" "acc_limits ?a = limits"
    using w m by (auto simp: within_def word_order.extremum_unique)
  define l1 where "l1 = ?a \<lparr> acc_wire_records := ?n + 1 \<rparr>"
  have ow: "observe_wire_record ?a = (if ?n + 1 > max_records limits then Inl (RecordLimitExceeded (?n + 1) (max_records limits)) else Inr l1)"
    using n by (simp add: observe_wire_record_def checked_add_one_def l1_def)
  have inc: "saturating_inc ?n = ?n + 1" using n by (simp add: saturating_inc_def)
  have f: "ss_frames_read ?ss = ?n" "ss_high_water ?ss = rs_high_water st" "ss_limits ?ss = l1 \<lparr> acc_wire_records := 0 \<rparr>"
    by (simp_all add: sub_of_def l1_def)
  show ?thesis
  proof (cases "?n + 1 > max_records limits")
    case True
    then show ?thesis by (simp add: sub_record_def receive_record_def ow f inc Let_def)
  next
    case lim: False
    show ?thesis
    proof (cases "rec_seq rec \<le> rs_high_water st")
      case True
      have "same_stream config (st \<lparr> rs_limits := l1 \<rparr>)" using s by simp
      moreover have "sub_of P config (st \<lparr> rs_limits := l1 \<rparr>) = ?ss \<lparr> ss_frames_read := ?n + 1 \<rparr>"
        by (simp add: sub_of_def l1_def)
      ultimately show ?thesis using True lim by (auto simp: sub_record_def receive_record_def ow f inc Let_def)
    next
      case hw: False
      show ?thesis
      proof (cases "rec_seq rec = rs_high_water st + 1")
        case False
        then show ?thesis using hw lim by (simp add: sub_record_def receive_record_def ow f inc Let_def)
      next
        case sq: True
        show ?thesis
        proof (cases ?d)
          case (Inl e)
          then show ?thesis using hw lim sq by (simp add: sub_record_def receive_record_def ow f inc Let_def)
        next
          case (Inr r)
          have L: "sub_record P config limits rec ?ss = sub_accept P config r (?ss \<lparr> ss_frames_read := ?n + 1 \<rparr>)"
            using Inr hw lim sq by (simp add: sub_record_def f inc Let_def)
          have R: "receive_record P (sb_start_event_id config) (sb_crypto config) rec st = Inr st' \<longleftrightarrow>
              (\<exists>l2. observe r l1 = Inr l2 \<and> accept_record P (sb_start_event_id config) r
                 (st \<lparr> rs_limits := l2, rs_high_water := rec_seq r \<rparr>) = Inr st')" for st'
            using Inr hw lim sq by (simp add: receive_record_def ow r_simps)
          have same: "same_stream config (st \<lparr> rs_limits := l2, rs_high_water := q \<rparr>)" for l2 q
            using s by simp
          have tr: "ss_transcript (sub_of P config (st \<lparr> rs_limits := l2, rs_high_water := q \<rparr>)) = ss_transcript ?ss" for l2 q
            by (simp add: sub_of_def)
          have U: "sub_of P config (push_chunk P r (sb_stream_id config) (ss_transcript ?ss) x
                (st \<lparr> rs_limits := l2, rs_high_water := rec_seq r \<rparr>)) =
              ?ss \<lparr> ss_frames_read := ?n + 1, ss_limits := l2 \<lparr> acc_wire_records := 0 \<rparr>, ss_high_water := rec_seq r,
                ss_text := (if rec_type r = AGENT_TEXT_STREAM_RECORD_TEXT_DELTA then ss_text ?ss @ x else ss_text ?ss),
                ss_transcript := transcript_append (sp_sha256 P) (rec_seq r) (rec_type r) (rec_plaintext_frame r) (ss_transcript ?ss),
                ss_chunks := ss_chunks ?ss @ [\<lparr> rc_seq = rec_seq r, rc_record_type = rec_type r,
                    rc_flags = rec_flags r, rc_text = x \<rparr>] \<rparr>"
            if "observe r l1 = Inr l2" for l2 x
          proof -
            have "acc_wire_records l2 = ?n + 1" using that by (auto simp: observe_def Let_def l1_def split: option.splits if_split_asm)
            then show ?thesis by (simp add: sub_of_def push_chunk_def)
          qed
          have SA: "sub_accept P config r (?ss \<lparr> ss_frames_read := ?n + 1 \<rparr>) = Inr ss \<longleftrightarrow>
              (\<exists>l2 x. observe r l1 = Inr l2 \<and> rec_stream_id r = sb_stream_id config \<and> stream_record_text r = Inr x \<and>
                ss = sub_of P config (push_chunk P r (sb_stream_id config) (ss_transcript ?ss) x
                  (st \<lparr> rs_limits := l2, rs_high_water := rec_seq r \<rparr>)))"
            using U by (auto simp: sub_accept_def r_simps f(3) observe_wire_0 broker_stream_record_text_Inr)
          have AC: "(accept_record P (sb_start_event_id config) r (st \<lparr> rs_limits := l2, rs_high_water := rec_seq r \<rparr>) = Inr st' \<and>
              same_stream config st') \<longleftrightarrow> rec_stream_id r = sb_stream_id config \<and> (\<exists>x. stream_record_text r = Inr x \<and>
              st' = push_chunk P r (sb_stream_id config) (ss_transcript ?ss) x (st \<lparr> rs_limits := l2, rs_high_water := rec_seq r \<rparr>))"
            for l2 st' using accept_record_same [OF same, where P = P and rec = r and st' = st'] unfolding tr .
          show ?thesis unfolding L SA R
          proof (rule iffI; elim exE conjE)
            fix l2 x
            assume a: "observe r l1 = Inr l2" "rec_stream_id r = sb_stream_id config" "stream_record_text r = Inr x"
              "ss = sub_of P config (push_chunk P r (sb_stream_id config) (ss_transcript ?ss) x
                  (st \<lparr> rs_limits := l2, rs_high_water := rec_seq r \<rparr>))"
            show "\<exists>st'. (\<exists>l2. observe r l1 = Inr l2 \<and> accept_record P (sb_start_event_id config) r
                 (st \<lparr> rs_limits := l2, rs_high_water := rec_seq r \<rparr>) = Inr st') \<and> same_stream config st' \<and> ss = sub_of P config st'"
              using AC a by (metis (no_types, lifting))
          next
            fix st' l2
            assume a: "same_stream config st'" "ss = sub_of P config st'" "observe r l1 = Inr l2"
              "accept_record P (sb_start_event_id config) r (st \<lparr> rs_limits := l2, rs_high_water := rec_seq r \<rparr>) = Inr st'"
            then show "\<exists>l2 x. observe r l1 = Inr l2 \<and> rec_stream_id r = sb_stream_id config \<and> stream_record_text r = Inr x \<and>
                ss = sub_of P config (push_chunk P r (sb_stream_id config) (ss_transcript ?ss) x
                  (st \<lparr> rs_limits := l2, rs_high_water := rec_seq r \<rparr>))"
              using AC [of l2 st'] by blast
          qed
        qed
      qed
    qed
  qed
qed

lemma receive_record_stream_id:
  assumes "receive_record P start crypto rec st = Inr st'" "rs_stream_id st = Some i"
  shows "rs_stream_id st' = Some i"
proof -
  obtain l1 where l1: "observe_wire_record (rs_limits st) = Inr l1" using assms(1) by (auto simp: receive_record_def r_simps)
  show ?thesis
  proof (cases "rec_seq rec \<le> rs_high_water st")
    case True
    then show ?thesis using assms l1 by (auto simp: receive_record_def)
  next
    case False
    then obtain r l2 where "accept_record P start r (st \<lparr> rs_limits := l2, rs_high_water := rec_seq r \<rparr>) = Inr st'"
      using assms(1) l1 by (auto simp: receive_record_def r_simps split: if_split_asm)
    then show ?thesis
      using assms(2) by (auto simp: accept_record_def stream_transcript_def r_simps split: if_split_asm)
  qed
qed

lemma receive_loop_stream_id:
  "receive_loop P start crypto m recv st = Inr st' \<Longrightarrow> rs_stream_id st = Some i \<Longrightarrow> rs_stream_id st' = Some i"
proof (induction P start crypto m recv st rule: receive_loop.induct)
  case (1 P start crypto m recv st)
  show ?case
    using "1.prems" "1.IH" receive_record_stream_id
    by (subst (asm) receive_loop.simps) (fastforce split: sum.splits option.splits prod.splits)
qed

definition transcript_id_ok :: "ReceiveState \<Rightarrow> bool" where
  "transcript_id_ok st \<longleftrightarrow> map_option tr_stream_id (rs_transcript st) = rs_stream_id st"

lemma receive_record_transcript_id:
  assumes "receive_record P start crypto rec st = Inr st'" "transcript_id_ok st"
  shows "transcript_id_ok st'"
proof -
  obtain l1 where l1: "observe_wire_record (rs_limits st) = Inr l1" using assms(1) by (auto simp: receive_record_def r_simps)
  show ?thesis
  proof (cases "rec_seq rec \<le> rs_high_water st")
    case True
    then show ?thesis using assms l1 by (auto simp: receive_record_def transcript_id_ok_def)
  next
    case False
    then obtain r l2 where a: "accept_record P start r (st \<lparr> rs_limits := l2, rs_high_water := rec_seq r \<rparr>) = Inr st'"
      using assms(1) l1 by (auto simp: receive_record_def r_simps split: if_split_asm)
    let ?st1 = "st \<lparr> rs_limits := l2, rs_high_water := rec_seq r \<rparr>"
    obtain i tr s where p: "stream_transcript P start r ?st1 = Inr (i, tr)" "st' = push_chunk P r i tr s ?st1"
      using accept_record_push [OF a] by blast
    have "tr_stream_id tr = i"
      using p(1) assms(2) by (auto simp: stream_transcript_def Let_def transcript_new_def transcript_id_ok_def
          split: option.splits if_split_asm)
    then show ?thesis by (simp add: p(2) transcript_id_ok_def push_chunk_def transcript_append_def)
  qed
qed

lemma receive_loop_transcript_id:
  "receive_loop P start crypto m recv st = Inr st' \<Longrightarrow> transcript_id_ok st \<Longrightarrow> transcript_id_ok st'"
proof (induction P start crypto m recv st rule: receive_loop.induct)
  case (1 P start crypto m recv st)
  show ?case
    using "1.prems" "1.IH" receive_record_transcript_id
    by (subst (asm) receive_loop.simps) (fastforce split: sum.splits option.splits prod.splits)
qed

lemma receive_record_mixed:
  assumes "receive_record P start crypto rec st = Inr st'" "same_stream config st" "start = sb_start_event_id config"
    and "\<not> same_stream config st'"
  shows "\<exists>i. rs_stream_id st' = Some i \<and> i \<noteq> sb_stream_id config"
proof -
  obtain l1 where l1: "observe_wire_record (rs_limits st) = Inr l1" using assms(1) by (auto simp: receive_record_def r_simps)
  have hw: "\<not> rec_seq rec \<le> rs_high_water st"
  proof
    assume "rec_seq rec \<le> rs_high_water st"
    then have "st' = st \<lparr> rs_limits := l1 \<rparr>" using assms(1) l1 by (simp add: receive_record_def)
    then show False using assms(2,4) by simp
  qed
  obtain r l2 where a: "accept_record P start r (st \<lparr> rs_limits := l2, rs_high_water := rec_seq r \<rparr>) = Inr st'"
    using assms(1) l1 hw by (auto simp: receive_record_def r_simps split: if_split_asm)
  then obtain tr s where "stream_record_text r = Inr s" and st': "st' = push_chunk P r (rec_stream_id r) tr s
      (st \<lparr> rs_limits := l2, rs_high_water := rec_seq r \<rparr>)"
    using accept_record_push stream_transcript_id by blast
  have "rec_stream_id r \<noteq> sb_stream_id config"
  proof
    assume i: "rec_stream_id r = sb_stream_id config"
    have "same_stream config (st \<lparr> rs_limits := l2, rs_high_water := rec_seq r \<rparr>)" using assms(2) by simp
    from accept_record_same [OF this, where P = P and rec = r and st' = st'] stream_transcript_same(1) [OF this i, of P]
    have "same_stream config st'"
      using a assms(3) i \<open>stream_record_text r = Inr s\<close> by (auto simp: accept_record_def)
    then show False using assms(4) by simp
  qed
  then show ?thesis using st' by simp
qed

lemma sub_loop_receive_loop:
  assumes m: "max_records limits \<noteq> - 1"
  shows "same_stream config st \<Longrightarrow> within limits st \<Longrightarrow>
    sub_loop P config limits recv (sub_of P config st) = Inr ss \<longleftrightarrow>
    (\<exists>st'. receive_loop P (sb_start_event_id config) (sb_crypto config)
        (frame_len_cap (Some (rl_max_plaintext_frame_len limits))) recv st = Inr st' \<and>
      same_stream config st' \<and> ss = sub_of P config st')"
proof (induction "length recv" arbitrary: recv st rule: less_induct)
  case less
  let ?cap = "frame_len_cap (Some (rl_max_plaintext_frame_len limits))"
  let ?R = "receive_loop P (sb_start_event_id config) (sb_crypto config) ?cap"
  show ?case
  proof (cases "read_record recv ?cap")
    case (Inl e)
    then have "read_record_frame recv ?cap \<noteq> Inr x" for x by (simp add: read_record_frame_read_record)
    then obtain e' where "read_record_frame recv ?cap = Inl e'" by (metis sum.exhaust)
    then show ?thesis using Inl by (simp add: sub_loop.simps [of P config limits recv] receive_loop.simps [of P _ _ _ recv])
  next
    case (Inr o1)
    then have rf: "read_record_frame recv ?cap = Inr o1" by (simp add: read_record_frame_read_record)
    show ?thesis
    proof (cases o1)
      case None
      then show ?thesis
        using Inr rf less.prems by (auto simp: sub_loop.simps [of P config limits recv] receive_loop.simps [of P _ _ _ recv])
    next
      case (Some p)
      obtain rec rest where p: "p = (rec, rest)" by force
      have l: "length rest < length recv" using read_record_shorter Inr Some p by blast
      note step = sub_record_step [OF less.prems m, of P rec]
      have S: "sub_loop P config limits recv (sub_of P config st) = Inr ss \<longleftrightarrow>
          (\<exists>ss1. sub_record P config limits rec (sub_of P config st) = Inr ss1 \<and> sub_loop P config limits rest ss1 = Inr ss)"
        using rf Some p by (auto simp: sub_loop.simps [of P config limits recv] split: sum.splits)
      have R: "?R recv st = Inr st' \<longleftrightarrow>
          (\<exists>st1. receive_record P (sb_start_event_id config) (sb_crypto config) rec st = Inr st1 \<and> ?R rest st1 = Inr st')" for st'
        using Inr Some p by (auto simp: receive_loop.simps [of P _ _ _ recv] split: sum.splits)
      have w: "within limits st1" if "receive_record P (sb_start_event_id config) (sb_crypto config) rec st = Inr st1" for st1
        using within_step less.prems(2) that by blast
      have x: "same_stream config st1" if "receive_record P (sb_start_event_id config) (sb_crypto config) rec st = Inr st1"
          "?R rest st1 = Inr st'" "same_stream config st'" for st1 st'
        using receive_record_mixed [OF that(1) less.prems(1) refl] receive_loop_stream_id [OF that(2)] that(3)
        by (fastforce simp: same_stream_def)
      show ?thesis
        unfolding S R step using less.hyps [OF l] w x by blast
    qed
  qed
qed

lemma subscribe_text_direct:
  assumes "max_records limits \<noteq> - 1"
  shows "subscribe_text_from_broker_with_limits P config limits recv = Inr r \<longleftrightarrow>
    receive_once_with_limits P (sb_start_event_id config) (sb_crypto config) limits recv = Inr r \<and>
    rts_stream_id r = sb_stream_id config"
proof -
  let ?st0 = "\<lparr> rs_stream_id = None, rs_high_water = 0, rs_chunks = [], rs_text = [], rs_transcript = None,
      rs_limits = accumulator_new limits \<rparr>"
  let ?cap = "frame_len_cap (Some (rl_max_plaintext_frame_len limits))"
  have z: "same_stream config ?st0" "within limits ?st0"
    by (simp_all add: same_stream_def within_def accumulator_new_def)
  have s0: "sub_of P config ?st0 = \<lparr> ss_high_water = 0, ss_chunks = [], ss_text = [],
           ss_transcript = transcript_new (sp_sha256 P) (sb_stream_id config) (sb_start_event_id config),
           ss_limits = accumulator_new limits, ss_frames_read = 0 \<rparr>"
    by (simp add: sub_of_def accumulator_new_def)
  note l = sub_loop_receive_loop [OF assms z, of P recv]
  show ?thesis
  proof
    assume "subscribe_text_from_broker_with_limits P config limits recv = Inr r"
    then obtain ss where ss: "sub_loop P config limits recv (sub_of P config ?st0) = Inr ss" "ss_chunks ss \<noteq> []"
        and r: "r = \<lparr> rts_stream_id = tr_stream_id (ss_transcript ss), rts_chunks = ss_chunks ss, rts_text = ss_text ss,
                  rts_transcript_hash = tr_hash (ss_transcript ss), rts_chunk_count = tr_chunk_count (ss_transcript ss) \<rparr>"
      unfolding s0 by (auto simp: subscribe_text_from_broker_with_limits_def r_simps split: if_split_asm)
    obtain st where st: "receive_loop P (sb_start_event_id config) (sb_crypto config) ?cap recv ?st0 = Inr st"
        "same_stream config st" "ss = sub_of P config st" using l ss(1) by blast
    have "rs_chunks st \<noteq> []" using ss(2) st(3) by (simp add: sub_of_def)
    then obtain t where "rs_stream_id st = Some (sb_stream_id config)" "rs_transcript st = Some t" "tr_stream_id t = sb_stream_id config"
      using st(2) by (auto simp: same_stream_def split: option.splits)
    then show "receive_once_with_limits P (sb_start_event_id config) (sb_crypto config) limits recv = Inr r \<and>
        rts_stream_id r = sb_stream_id config"
      using st r by (simp add: receive_once_with_limits_def sub_of_def)
  next
    assume "receive_once_with_limits P (sb_start_event_id config) (sb_crypto config) limits recv = Inr r \<and>
        rts_stream_id r = sb_stream_id config"
    then obtain st t where st: "receive_loop P (sb_start_event_id config) (sb_crypto config) ?cap recv ?st0 = Inr st"
        "rs_transcript st = Some t" and r: "r = \<lparr> rts_stream_id = (case rs_stream_id st of None \<Rightarrow> [] | Some i \<Rightarrow> i), rts_chunks = rs_chunks st,
          rts_text = rs_text st, rts_transcript_hash = tr_hash t, rts_chunk_count = tr_chunk_count t \<rparr>"
        "(case rs_stream_id st of None \<Rightarrow> [] | Some i \<Rightarrow> i) = sb_stream_id config"
      by (auto simp: receive_once_with_limits_def r_simps split: option.splits)
    have "rx_inv limits ?st0" by (simp add: rx_inv_def delta_text_def accumulator_new_def)
    then have inv: "rx_inv limits st" by (rule receive_loop_inv [OF st(1)])
    then have c: "rs_chunks st \<noteq> []" "rs_stream_id st \<noteq> None" using st(2) by (auto simp: rx_inv_def)
    have "transcript_id_ok st" by (rule receive_loop_transcript_id [OF st(1)]) (simp add: transcript_id_ok_def)
    then have "same_stream config st" using c st(2) r(2) by (auto simp: same_stream_def transcript_id_ok_def)
    then have "sub_loop P config limits recv (sub_of P config ?st0) = Inr (sub_of P config st)" using l st(1) by blast
    moreover have "tr_stream_id t = sb_stream_id config"
      using \<open>same_stream config st\<close> c st(2) by (auto simp: same_stream_def)
    ultimately show "subscribe_text_from_broker_with_limits P config limits recv = Inr r"
      using c(1) r st(2) unfolding s0 by (auto simp: subscribe_text_from_broker_with_limits_def sub_of_def)
  qed
qed

text \<open>
  C37: A broker subscriber accepts what a direct receiver accepts.  On the same bytes, with the same start
  event, keys and limits, the subscriber returns a stream exactly when the direct receiver returns it and
  its stream id is the one subscribed to.  The limit of \<open>u64::MAX\<close> records is excluded: there the direct
  receiver's counter fails one record before the subscriber's saturates.
\<close>
theorem subscriber_matches_direct_receiver:
  assumes "max_records limits \<noteq> - 1"
  shows "subscribe_text_from_broker_with_limits P config limits recv = Inr r \<longleftrightarrow>
    receive_once_with_limits P (sb_start_event_id config) (sb_crypto config) limits recv = Inr r \<and>
    rts_stream_id r = sb_stream_id config"
  by (rule subscribe_text_direct [OF assms])

section \<open>Delivery from end to end\<close>

lemma read_record_frame_write:
  assumes "read_record_frame recv m = Inr (Some (rec, rest))"
  shows "\<exists>w. write_record_frame rec = Inr w \<and> recv = w @ rest"
proof -
  let ?l = "unat (from_be_bytes (take 4 recv) :: u32)"
  obtain bs where d: "record_decode bs = Inr rec" "bs = take ?l (drop 4 recv)" "rest = drop ?l (drop 4 recv)"
      and n: "?l \<le> length (drop 4 recv)" "4 \<le> length recv"
    using assms by (auto simp: read_record_frame_def read_bytes_frame_def FRAME_LEN_BYTES_def Let_def r_simps
        split: if_split_asm option.splits)
  have len: "length bs = ?l" using d(2) n by simp
  have "to_be_bytes 4 (from_be_bytes (take 4 recv) :: u32) = take 4 recv" using n(2) by (intro to_be_from_be_bytes) auto
  then have "to_be_bytes 4 (of_nat (length bs) :: u32) = take 4 recv" unfolding len by simp
  moreover have "?l < 2 ^ LENGTH(32)" by (rule unsigned_less)
  then have "length bs \<le> 4294967295" unfolding len by simp
  moreover have "record_encode rec = Inr bs" using record_decode_sound [OF d(1)] by (simp add: record_encode_Inr)
  ultimately have "write_record_frame rec = Inr (take 4 recv @ bs)"
    by (simp add: write_record_frame_def write_bytes_frame_def)
  moreover have "bs @ rest = drop 4 recv" unfolding d(2,3) by (rule append_take_drop_id)
  then have "recv = (take 4 recv @ bs) @ rest" by simp
  ultimately show ?thesis by blast
qed

lemma publish_stream_loop_frames:
  "publish_stream_loop key l recv = (recs, Inr ()) \<Longrightarrow> write_record_frames recs = Inr recv"
proof (induction "length recv" arbitrary: recv l recs rule: less_induct)
  case less
  show ?case
  proof (cases "read_record_frame recv MAX_FRAME_SIZE")
    case (Inl e)
    then show ?thesis using less.prems by (simp add: publish_stream_loop.simps [of key l recv])
  next
    case (Inr o1)
    show ?thesis
    proof (cases o1)
      case None
      then have "recs = []" "recv = []"
        using less.prems Inr by (auto simp: publish_stream_loop.simps [of key l recv] read_record_frame_def
            read_bytes_frame_def Let_def r_simps split: if_split_asm option.splits)
      then show ?thesis by simp
    next
      case (Some p)
      obtain rec rest where p: "p = (rec, rest)" by force
      then have rr: "read_record_frame recv MAX_FRAME_SIZE = Inr (Some (rec, rest))" using Inr Some by simp
      obtain l' recs' where q: "publish_stream_loop key l' rest = (recs', Inr ())" "recs = rec # recs'"
        using less.prems rr by (auto simp: publish_stream_loop.simps [of key l recv] split: if_split_asm sum.splits prod.splits)
      have "write_record_frames recs' = Inr rest"
        using less.hyps [OF read_record_frame_shorter [OF rr] q(1)] .
      moreover have "\<exists>w. write_record_frame rec = Inr w \<and> recv = w @ rest" using read_record_frame_write [OF rr] .
      ultimately show ?thesis using q(2) by auto
    qed
  qed
qed

text \<open>
  C16: Text published to the broker reaches the subscriber.  Suppose a publisher's stream was read to its
  end by the broker's handler and its records are what was published under the key.  Then a subscription
  that was handed as many records as were published receives, from the frames the broker writes to it, the
  published text, with the publisher's stream id, transcript hash and chunk count.  This holds in every
  history of the broker, whatever else its other connections do.
\<close>
theorem broker_delivers_text:
  assumes "broker_history state h" "publish_text_to_broker P config = Inr (wire, sent)"
    and "handle_publish_stream wire = (OpWaitRound key # map (OpPublish key) recs @ [OpFinish key], Inr ())"
    and "map snd (bh_log h key) = recs"
    and "i < length (bh_sessions h)" "bh_sessions h ! i = (key, backlog)"
    and "length (backlog @ ch_sent (bi_channels (bh_inner h) ! i)) = length recs"
    and "pt_text config \<noteq> []" "is_utf8 (pt_text config)" "aead_correct P"
    and "length (pt_text config) \<le> unat (max_records limits)" "max_records limits \<noteq> - 1"
    and "length (pt_text config) \<le> max_plaintext_bytes limits" "max_plaintext_bytes limits \<le> USIZE_MAX"
    and "effective_plaintext_cap (pt_max_plaintext_frame_len config) \<le>
      effective_plaintext_cap (Some (rl_max_plaintext_frame_len limits))"
  shows "\<exists>stream received. subscribe_stream_bytes backlog (ch_sent (bi_channels (bh_inner h) ! i)) = Inr stream \<and>
    subscribe_text_from_broker_with_limits P \<lparr> sb_stream_id = pt_stream_id config,
      sb_start_event_id = pt_start_event_id config, sb_crypto = pt_crypto config \<rparr> limits stream = Inr received \<and>
    rts_text received = pt_text config \<and> rts_stream_id received = sent_stream_id sent \<and>
    rts_transcript_hash received = sent_transcript_hash sent \<and> rts_chunk_count received = sent_chunk_count sent"
proof -
  obtain control w where c: "write_control_frame (publish_envelope config) = Inr control"
      and s: "send_text_stream P (as_send config) = Inr (w, sent)" and wire: "wire = control @ w"
    using assms(2) unfolding publish_text_direct by blast
  let ?sent = "ch_sent (bi_channels (bh_inner h) ! i)"
  have rc: "read_control_frame wire = Inr (publish_envelope config, w)" unfolding wire by (rule read_written_control [OF c])
  obtain recs' res where p: "publish_stream_loop (env_key (publish_envelope config))
      (accumulator_new AgentTextStreamReceiveLimits_default) w = (recs', res)" by force
  have "recs' = recs \<and> res = Inr ()"
    using assms(3) rc p by (auto simp: handle_publish_stream_def publish_envelope_def Let_def inj_map_eq_map inj_def split: if_split_asm)
  then have fr: "write_record_frames recs = Inr w" using publish_stream_loop_frames p by blast
  have "sublist (backlog @ ?sent) (map snd (bh_log h key))"
    using broker_history_ok [OF assms(1)] assms(5,6) by (fastforce simp: hist_ok_def)
  then have "backlog @ ?sent = recs" using assms(4,7) by (auto simp: sublist_def)
  then have sb: "subscribe_stream_bytes backlog ?sent = Inr w" using fr by (simp add: subscribe_stream_bytes_def)
  have "unat (max_records limits) < 2 ^ LENGTH(64)" by (rule unsigned_less)
  then have l: "length (sts_text (as_send config)) < 2 ^ 64" using assms(11) by (simp add: as_send_def)
  have u: "is_utf8 (sts_text (as_send config))" "sts_text (as_send config) \<noteq> []" using assms(8,9) by (simp_all add: as_send_def)
  have n: "unat (sent_chunk_count sent) \<le> unat (max_records limits)"
    using sent_chunk_count_le [OF s u(1) l] assms(11) by (simp add: as_send_def)
  obtain received where r: "receive_once_with_limits P (pt_start_event_id config) (pt_crypto config) limits w = Inr received"
      "rts_text received = pt_text config" "rts_stream_id received = sent_stream_id sent"
      "rts_transcript_hash received = sent_transcript_hash sent" "rts_chunk_count received = sent_chunk_count sent"
    using sent_stream_received [OF s u(2,1) assms(10) n l, unfolded as_send_def, simplified, OF assms(13-15)] by blast
  have "sent_stream_id sent = pt_stream_id config"
    using s send_loop_transcript unfolding send_text_stream_Inr by (fastforce simp: transcript_new_def)
  then have "subscribe_text_from_broker_with_limits P \<lparr> sb_stream_id = pt_stream_id config,
      sb_start_event_id = pt_start_event_id config, sb_crypto = pt_crypto config \<rparr> limits w = Inr received"
    using r by (simp add: subscribe_text_direct [OF assms(12)])
  then show ?thesis using sb r by blast
qed

definition demo_publication :: PublishTextToBroker where
  "demo_publication = \<lparr> pt_stream_id = [1], pt_start_event_id = [2], pt_text = ''A'', pt_max_chunk_bytes = 1,
     pt_crypto = None, pt_max_plaintext_frame_len = None \<rparr>"

definition demo_published :: BrokerHistory where
  "demo_published = run_ops demo_state [(1, OpSubscribe demo_key), (2, OpPublish demo_key demo_record)] demo_start"

lemma demo_published_facts:
  "broker_history demo_state demo_published" "bh_inner demo_published = demo_inner2"
  "bh_sessions demo_published = [(demo_key, [])]" "bh_log demo_published demo_key = [(2, demo_record)]"
proof -
  show "broker_history demo_state demo_published"
    unfolding demo_published_def by (rule run_ops_history) (auto simp: demo_start_def intro: broker_history.start)
qed (use demo_subscribe1 demo_publish in \<open>simp_all add: demo_published_def demo_start_def\<close>)

lemma demo_sent:
  "\<exists>w sent. write_record demo_record = Inr w \<and> send_text_stream demo_prims (as_send demo_publication) = Inr (w, sent)"
proof -
  have "effective_plaintext_cap None = 65519"
    by (simp add: effective_plaintext_cap_def AGENT_TEXT_STREAM_MAX_PLAINTEXT_FRAME_LEN_def)
  then have "text_chunks demo_publication = [[65]]"
    by (simp add: demo_publication_def split_text_deltas_def split_push_def split_end_def utf8_char_width_def as_bytes_def of_char_def)
  moreover obtain w where w: "write_record demo_record = Inr w"
    using demo_encode(1) write_record_total by (auto simp: record_encode_Inr)
  moreover have "chunk_size_ok demo_publication"
    by (simp add: chunk_size_ok_def demo_publication_def AGENT_TEXT_STREAM_MAX_PLAINTEXT_FRAME_LEN_def)
  moreover have "sts_crypto (as_send demo_publication) = None" "sts_stream_id (as_send demo_publication) = [1]"
    by (simp_all add: as_send_def demo_publication_def)
  ultimately have "\<exists>sent. send_text_stream demo_prims (as_send demo_publication) = Inr (w, sent)"
    unfolding send_text_stream_Inr by (simp add: Let_def demo_record_def)
  then show ?thesis using w by blast
qed

lemma demo_handled:
  assumes "write_record demo_record = Inr w" "write_control_frame (publish_envelope demo_publication) = Inr control"
  shows "handle_publish_stream (control @ w) = (OpWaitRound demo_key # map (OpPublish demo_key) [demo_record] @ [OpFinish demo_key], Inr ())"
proof -
  have k: "env_key (publish_envelope demo_publication) = demo_key" "env_control_type (publish_envelope demo_publication) = BrokerPublish"
    by (simp_all add: env_key_def publish_envelope_def demo_publication_def demo_key_def)
  have "length (record_bytes demo_record) \<le> min MAX_FRAME_SIZE MAX_FRAME_SIZE"
    by (simp add: demo_encode MAX_FRAME_SIZE_def AGENT_TEXT_STREAM_FRAME_ALLOWANCE_def)
  then have r: "read_record_frame (w @ []) MAX_FRAME_SIZE = Inr (Some (demo_record, []))"
    using assms(1) by (intro read_written_record_frame) (simp_all add: write_record_frame_Inr)
  have "read_record_frame [] MAX_FRAME_SIZE = Inr None" by (simp add: read_record_frame_def read_bytes_frame_def)
  moreover have "\<exists>l. observe demo_record (accumulator_new AgentTextStreamReceiveLimits_default) = Inr l"
    by (simp add: observe_def accumulator_new_def checked_add_one_def AgentTextStreamReceiveLimits_default_def Let_def
        demo_record_def text_delta_def record_new_def USIZE_MAX_def)
  moreover have "rec_stream_id demo_record = bk_stream_id demo_key"
    by (simp add: demo_record_def text_delta_def record_new_def demo_key_def)
  ultimately have "publish_stream_loop demo_key (accumulator_new AgentTextStreamReceiveLimits_default) w = ([demo_record], Inr ())"
    using r by (auto simp: publish_stream_loop.simps [of _ _ w] publish_stream_loop.simps [of _ _ "[]"])
  then show ?thesis
    using read_written_control [OF assms(2), of w] k by (simp add: handle_publish_stream_def)
qed

theorem broker_delivers_text_witness:
  "\<exists>wire sent stream received. publish_text_to_broker demo_prims demo_publication = Inr (wire, sent) \<and>
     subscribe_stream_bytes [] (ch_sent (bi_channels (bh_inner demo_published) ! 0)) = Inr stream \<and>
     subscribe_text_from_broker_with_limits demo_prims \<lparr> sb_stream_id = [1], sb_start_event_id = [2], sb_crypto = None \<rparr>
       demo_limits stream = Inr received \<and> rts_text received = ''A''"
proof -
  obtain w sent where s: "write_record demo_record = Inr w" "send_text_stream demo_prims (as_send demo_publication) = Inr (w, sent)"
    using demo_sent by blast
  obtain control where c: "write_control_frame (publish_envelope demo_publication) = Inr control"
    by (simp add: write_control_frame_def env_encode_def validate_bounds_def publish_envelope_def demo_publication_def
        AGENT_TEXT_STREAM_MAX_STREAM_ID_LEN_def write_bytes_frame_def encode_quic_varint_def as_bytes_def QUIC_BROKER_PROTOCOL_V1_def)
  have p: "publish_text_to_broker demo_prims demo_publication = Inr (control @ w, sent)"
    unfolding publish_text_direct using s c by blast
  have f: "pt_text demo_publication = ''A''" "pt_stream_id demo_publication = [1]" "pt_start_event_id demo_publication = [2]"
      "pt_crypto demo_publication = None" "pt_max_plaintext_frame_len demo_publication = None"
    by (simp_all add: demo_publication_def)
  have u: "is_utf8 ''A''" by code_simp
  have x: "map snd (bh_log demo_published demo_key) = [demo_record]"
      "0 < length (bh_sessions demo_published)" "bh_sessions demo_published ! 0 = (demo_key, [])"
      "length ([] @ ch_sent (bi_channels (bh_inner demo_published) ! 0)) = length [demo_record]"
    by (simp_all add: demo_published_facts demo_inner2_def sent_one_def channel_new_def)
  have l: "pt_text demo_publication \<noteq> []" "is_utf8 (pt_text demo_publication)"
      "length (pt_text demo_publication) \<le> unat (max_records demo_limits)" "max_records demo_limits \<noteq> - 1"
      "length (pt_text demo_publication) \<le> max_plaintext_bytes demo_limits" "max_plaintext_bytes demo_limits \<le> USIZE_MAX"
      "effective_plaintext_cap (pt_max_plaintext_frame_len demo_publication) \<le>
        effective_plaintext_cap (Some (rl_max_plaintext_frame_len demo_limits))"
    using u by (simp_all add: f demo_limits_def USIZE_MAX_def effective_plaintext_cap_def AGENT_TEXT_STREAM_MAX_PLAINTEXT_FRAME_LEN_def)
  show ?thesis
    using broker_delivers_text [OF demo_published_facts(1) p demo_handled [OF s(1) c] x l(1,2) demo_ready(3) l(3-7)] p
    unfolding f by blast
qed

theorem subscriber_matches_direct_receiver_witness:
  "max_records demo_limits \<noteq> - 1 \<and>
   (\<exists>wire sent r. send_text_stream demo_prims demo_config = Inr (wire, sent) \<and>
      subscribe_text_from_broker_with_limits demo_prims \<lparr> sb_stream_id = sts_stream_id demo_config,
        sb_start_event_id = sts_start_event_id demo_config, sb_crypto = sts_crypto demo_config \<rparr> demo_limits wire = Inr r \<and>
      rts_text r = ''ok!'')"
proof -
  have m: "max_records demo_limits \<noteq> - 1" by (simp add: demo_limits_def)
  obtain wire sent where s: "send_text_stream demo_prims demo_config = Inr (wire, sent)"
    using send_text_stream_total [OF demo_ready(1-3)] by blast
  have t: "sts_text demo_config \<noteq> []" "is_utf8 (sts_text demo_config)" using demo_ready(1) by (simp_all add: send_ready_def)
  have l: "length (sts_text demo_config) < 2 ^ 64" by (simp add: demo_config_def)
  have "unat (sent_chunk_count sent) \<le> unat (max_records demo_limits)"
    using sent_chunk_count_le [OF s t(2) l] demo_ready(4) by simp
  from sent_stream_received [OF s t demo_ready(3) this l demo_ready(5-7)]
  obtain r where r: "receive_once_with_limits demo_prims (sts_start_event_id demo_config) (sts_crypto demo_config)
      demo_limits wire = Inr r" "rts_text r = sts_text demo_config" "rts_stream_id r = sent_stream_id sent" by blast
  have "sent_stream_id sent = sts_stream_id demo_config"
    using s send_loop_transcript by (fastforce simp: send_text_stream_def Let_def r_simps transcript_new_def split: if_split_asm)
  then show ?thesis
    using s r m by (simp add: subscriber_matches_direct_receiver [OF m]) (simp add: demo_config_def)
qed

end
