(* ===== verification/Spec2Isabelle.thy ===== *)
theory Spec2Isabelle
  imports Canonical_Order Epoch_Manager Bounded_Id_Set Engine_Metrics Group_State_Changes Capability_Negotiation Broker_Client
begin

text \<open>
  A verification library for the Marmot group-messaging engine.

  \<^bold>\<open>The program.\<close>  The engine (\<^verbatim>\<open>src/crates/cgka-engine\<close>, with its interface types in
  \<^verbatim>\<open>src/crates/traits\<close>) keeps encrypted groups over OpenMLS.  Members exchange commits and application
  messages over transports that reorder, duplicate and lose them.  The engine collects what
  arrives, builds the branches of commits, selects one by a deterministic policy, and disposes of
  every message (convergence and canonicalization).  Around that, an epoch state machine publishes
  local commits before applying them; authorization rules say who may commit what; app components
  in the group context carry profile, admins, routing, media and stream policy in canonical bytes.

  \<^bold>\<open>Theories and the code they model.\<close>
  \<^item> \<^verbatim>\<open>Prelude\<close>: lists, ordered sets and maps, byte strings, the locales for comparisons and ordered maps.
  \<^item> \<^verbatim>\<open>Convergence\<close> (\<^verbatim>\<open>convergence.rs\<close>): scores, eligibility, branch selection, its audit trace.
  \<^item> \<^verbatim>\<open>Canonicalization\<close>, \<^verbatim>\<open>Canonical_Graph\<close>, \<^verbatim>\<open>Canonical_Disposition\<close>, \<^verbatim>\<open>Canonical_Order\<close>
    (\<^verbatim>\<open>canonicalization.rs\<close>): the whole pass; its graph loop; what happens to each message; independence
    of arrival order.
  \<^item> \<^verbatim>\<open>Epoch_State\<close>, \<^verbatim>\<open>Epoch_Manager\<close> (\<^verbatim>\<open>traits/src/engine_state.rs\<close>, \<^verbatim>\<open>epoch_manager.rs\<close>): the per-group
    state machine and the manager that publishes, confirms and rolls back.
  \<^item> \<^verbatim>\<open>Bounded_Id_Set\<close>, \<^verbatim>\<open>Engine_Metrics\<close>, \<^verbatim>\<open>Group_State_Changes\<close>: the deduplication cache, telemetry, and
    the differences between group states.
  \<^item> \<^verbatim>\<open>Codec\<close>, \<^verbatim>\<open>Host_Safety\<close>, \<^verbatim>\<open>Url_Model\<close>, \<^verbatim>\<open>Nostr_Routing\<close>, \<^verbatim>\<open>Avatar_Url\<close>, \<^verbatim>\<open>Encrypted_Media\<close>,
    \<^verbatim>\<open>Agent_Text_Stream\<close> (\<^verbatim>\<open>traits/src/app_components/\<close>, \<^verbatim>\<open>traits/src/agent_text_stream.rs\<close>): component
    codecs and their validation rules.
  \<^item> \<^verbatim>\<open>Engine_Types\<close>: component ids and sets, capabilities, errors, and records for the parts of an OpenMLS
    group, leaf and staged commit that the engine reads.
  \<^item> \<^verbatim>\<open>Engine_App_Components\<close> (\<^verbatim>\<open>app_components.rs\<close>): component data of a group, group creation, and the
    authorization of commits.
  \<^item> \<^verbatim>\<open>Account_Identity\<close> (\<^verbatim>\<open>account_identity_proof.rs\<close>, \<^verbatim>\<open>identity.rs\<close>): the proof that binds a leaf to an
    account.
  \<^item> \<^verbatim>\<open>Group_Commits\<close> (\<^verbatim>\<open>process_commit_with_app_data_updates\<close> of \<^verbatim>\<open>openmls_projection.rs\<close>, the staged
    commit checks of \<^verbatim>\<open>message_processor/ingest.rs\<close>): which commits are admitted and what holds along
    every history of admitted commits.
  \<^item> \<^verbatim>\<open>Capabilities\<close>, \<^verbatim>\<open>Capability_Negotiation\<close> (\<^verbatim>\<open>feature_registry.rs\<close>, \<^verbatim>\<open>capabilities.rs\<close>,
    \<^verbatim>\<open>capability_manager.rs\<close>, and the checks of \<^verbatim>\<open>group_lifecycle.rs\<close>, \<^verbatim>\<open>key_package.rs\<close>,
    \<^verbatim>\<open>upgrade.rs\<close>): what clients advertise and groups require, at creation, joining, inviting and upgrading.
  \<^item> \<^verbatim>\<open>Quic_Stream\<close> (\<^verbatim>\<open>src/crates/transport-quic-stream/src\<close>): framing, limits, encryption, sender and receiver
    of a direct agent text stream.
  \<^item> \<^verbatim>\<open>Broker_Control\<close>, \<^verbatim>\<open>Broker_State\<close>, \<^verbatim>\<open>Broker_Invariants\<close>, \<^verbatim>\<open>Broker_Client\<close>
    (\<^verbatim>\<open>src/crates/transport-quic-broker/src\<close>): the fan-out broker for such streams; its control envelope and
    framing, the locked operations of its room engine, what holds along every history of them, and its
    publisher, subscriber and stream handlers.

  \<^bold>\<open>How the code is represented.\<close>  Fixed-width integers are words of that width, and casts and wrapping
  additions are those of words.  A Rust string is a list of characters whose codes are its bytes; a byte
  vector is a list of 8-bit words.  Ordered sets are strictly sorted lists, ordered maps are sorted
  association lists, hash maps are partial functions.  A fallible function returns a sum whose left side
  is the error with the source's text.  Sequencing with \<^verbatim>\<open>?\<close> is \<open>r_bind\<close>; collections \<open>r_simps\<close> and the
  locales \<open>prefix_codec\<close>, \<open>item_loop\<close> and \<open>canonical_codec\<close> carry the codec proofs and are interpreted
  on every codec of the library.

  \<^bold>\<open>What is shown.\<close>  Selection returns an eligible branch of maximal score, witnesses shift it only within
  the policy's bound, and replicas with permuted inputs agree.  The graph loop ends in a fixed point, each
  message is disposed of once, and outbound intents wait for a settled pass.  A staged
  publish is confirmed to its new epoch or rolled back to its pre-commit epoch, whatever happens to other
  groups, as long as the group's state carries its reference; failed operations leave the manager unchanged,
  and a forked or halted group keeps its epoch until it is repaired.  Every codec accepts exactly its own
  encodings.  The hosts of stored URLs are outside the unsafe set of the specification, except for a
  \<^verbatim>\<open>localhost\<close> name written with a trailing root dot.  An accepted leaf was authorized by its account,
  also when the account key signs other messages, unless the hash collides; a commit of a non-admin changes nothing but keys and
  consenting leaves; along every history of admitted commits admins keep a member leaf and component data
  stays readable.  A created group can be joined by everyone it was
  created with, and a capability upgrade makes exactly the announced features available.  A text sent over a direct stream arrives unchanged, and whatever bytes arrive, a received
  stream has no gaps.  The broker keeps its memory limits and its replay window along every history, hands each
  subscription a contiguous part of what was published, and delivers a published text to the end.

  \<^bold>\<open>Parameters and hypotheses.\<close>  URL parsing, hashing, signatures, hexadecimal rendering and OpenMLS are
  not part of the repository.  They are arguments of the definitions, and theorems that need something of
  them say so: stable serialization of parsed URLs, 32-byte hashes, unforgeable signatures (with the proof domain
  reserved for proofs), no collision among named inputs, an AEAD that opens what it sealed, a channel that is never filled
  beyond its capacity, and the effect of staging and merging a commit (\<open>mls_stages\<close>, \<open>mls_merges\<close>).  The
  latter covers commits whose dictionary changes are made by app data update proposals.

  \<^bold>\<open>Termination and fuel.\<close>  All definitions are total.  Decoding loops terminate because each item consumes
  at least one byte; the graph loop runs at most once per commit and candidate, which the completeness
  theorem shows to be enough.

  \<^bold>\<open>Not modelled.\<close>  The asynchronous drivers around these components (engine facade, group lifecycle, ingest
  and send, replay over stored messages), which only move data between storage, OpenMLS and transports;
  storage over SQLite; the Nostr transport; QUIC endpoint setup and deadlines; sessions, accounts, the application runtime, command
  line, bindings, agents, Markdown, forensics and the conformance simulator.  Log output has no effect on
  the modelled state and is left out.
\<close>

end
